(* ===== verification/Prelude.thy ===== *)
theory Prelude
  imports
    Main
    "HOL-Library.AList"
    "HOL-Library.Code_Target_Nat"
    "HOL-Library.Multiset"
    "HOL-Library.Word"
begin

section \<open>Shared vocabulary of the development\<close>

text \<open>
  Types, standard-library operations and generic lemmas that the component theories share.

  \<^item> A Rust \<^verbatim>\<open>String\<close> is the list of its Unicode scalar values (\<open>rstring\<close>); \<^verbatim>\<open>str::len\<close> counts
    UTF-8 bytes (\<open>utf8_len\<close>). \<open>str ''abc''\<close> is the literal \<^verbatim>\<open>"abc"\<close>.
  \<^item> \<^verbatim>\<open>u64\<close> counters and stamps are \<open>64 word\<close>, so \<^verbatim>\<open>fetch_add\<close> and \<^verbatim>\<open>+=\<close> wrap.
  \<^item> \<^verbatim>\<open>tokio::time::Instant\<close> and \<^verbatim>\<open>Duration\<close> are \<open>nat\<close>, in nanoseconds;
    \<^verbatim>\<open>DateTime<Utc>\<close> is \<open>int\<close>: the agent only copies such values.
  \<^item> A \<^verbatim>\<open>HashMap\<close> is an association list with distinct keys, a \<^verbatim>\<open>VecDeque\<close> or \<^verbatim>\<open>Vec\<close> a list.
  \<^item> A computation that can panic returns an \<open>option\<close>, with \<open>None\<close> for the panic; a
    \<^verbatim>\<open>Result\<close> is a sum with the error on the left.
\<close>

type_synonym u8 = "8 word"
type_synonym u64 = "64 word"
type_synonym rchar = nat
type_synonym rstring = "rchar list"
type_synonym instant = nat
type_synonym duration = nat
type_synonym datetime = int
type_synonym ('k, 'v) hashmap = "('k \<times> 'v) list"

named_theorems std_defs \<open>definitions of the standard-library operations\<close>
named_theorems std_simps \<open>rewrite rules for the standard-library operations\<close>

text \<open>\<^verbatim>\<open>Duration::from_secs\<close>; a tick is a nanosecond.\<close>

definition from_secs :: "nat \<Rightarrow> duration" where
  "from_secs s = s * 1000000000"

subsection \<open>Strings\<close>

definition str :: "string \<Rightarrow> rstring" where
  "str s = map of_char s"

text \<open>Number of bytes of the UTF-8 encoding of one scalar value and of a string
  (\<^verbatim>\<open>char::len_utf8\<close>, \<^verbatim>\<open>str::len\<close>).\<close>

definition utf8_char_len :: "rchar \<Rightarrow> nat" where
  "utf8_char_len c = (if c < 128 then 1 else if c < 2048 then 2 else if c < 65536 then 3 else 4)"

definition utf8_len :: "rstring \<Rightarrow> nat" where
  "utf8_len s = sum_list (map utf8_char_len s)"

text \<open>The bytes themselves (\<^verbatim>\<open>str::bytes\<close>).\<close>

definition utf8_char :: "rchar \<Rightarrow> u8 list" where
  "utf8_char c =
     (if c < 128 then [word_of_nat c]
      else if c < 2048 then
        [word_of_nat (192 + c div 64), word_of_nat (128 + c mod 64)]
      else if c < 65536 then
        [word_of_nat (224 + c div 4096), word_of_nat (128 + c div 64 mod 64),
         word_of_nat (128 + c mod 64)]
      else
        [word_of_nat (240 + c div 262144), word_of_nat (128 + c div 4096 mod 64),
         word_of_nat (128 + c div 64 mod 64), word_of_nat (128 + c mod 64)])"

definition utf8_bytes :: "rstring \<Rightarrow> u8 list" where
  "utf8_bytes s = concat (map utf8_char s)"

text \<open>\<^verbatim>\<open>char::is_whitespace\<close>: the Unicode \<^verbatim>\<open>White_Space\<close> property.\<close>

definition is_whitespace :: "rchar \<Rightarrow> bool" where
  "is_whitespace c \<longleftrightarrow>
     9 \<le> c \<and> c \<le> 13 \<or> c = 32 \<or> c = 133 \<or> c = 160 \<or> c = 5760 \<or>
     8192 \<le> c \<and> c \<le> 8202 \<or> c = 8232 \<or> c = 8233 \<or> c = 8239 \<or> c = 8287 \<or> c = 12288"

definition trim :: "rstring \<Rightarrow> rstring" where
  "trim s = rev (dropWhile is_whitespace (rev (dropWhile is_whitespace s)))"

lemma trim_eq_Nil_iff [std_simps]: "trim s = [] \<longleftrightarrow> (\<forall>c \<in> set s. is_whitespace c)"
proof -
  have "trim s = [] \<longleftrightarrow> (\<forall>c \<in> set (dropWhile is_whitespace s). is_whitespace c)"
    by (simp add: trim_def)
  also have "\<dots> \<longleftrightarrow> (\<forall>c \<in> set s. is_whitespace c)"
    by (induction s) auto
  finally show ?thesis .
qed

lemma trim_Nil [simp]: "trim [] = []"
  by (simp add: trim_def)

lemma utf8_len_Nil [simp]: "utf8_len [] = 0"
  by (simp add: utf8_len_def)

lemma utf8_len_append [simp]: "utf8_len (s @ t) = utf8_len s + utf8_len t"
  by (simp add: utf8_len_def)

lemma length_le_utf8_len: "length s \<le> utf8_len s"
  by (induction s) (auto simp: utf8_len_def utf8_char_len_def)

lemma length_utf8_bytes: "length (utf8_bytes s) = utf8_len s"
  by (induction s) (auto simp: utf8_bytes_def utf8_len_def utf8_char_def utf8_char_len_def)

text \<open>\<^verbatim>\<open>str::starts_with\<close>, \<^verbatim>\<open>str::replace\<close> with a character and with a (non-empty) string pattern,
  \<^verbatim>\<open>str::split\<close> with a character pattern.\<close>

definition starts_with :: "rstring \<Rightarrow> rstring \<Rightarrow> bool" where
  "starts_with s p \<longleftrightarrow> take (length p) s = p"

definition replace_char :: "rchar \<Rightarrow> rstring \<Rightarrow> rstring \<Rightarrow> rstring" where
  "replace_char c t s = concat (map (\<lambda>x. if x = c then t else [x]) s)"

function replace_str :: "rstring \<Rightarrow> rstring \<Rightarrow> rstring \<Rightarrow> rstring" where
  "replace_str pat t [] = []"
| "replace_str pat t (c # cs) =
     (if take (length pat) (c # cs) = pat
      then t @ replace_str pat t (drop (length pat - 1) cs)
      else c # replace_str pat t cs)"
  by pat_completeness auto
termination
  by (relation "measure (\<lambda>(pat, t, s). length s)") auto

fun split_char :: "rchar \<Rightarrow> rstring \<Rightarrow> rstring list" where
  "split_char d [] = [[]]"
| "split_char d (c # cs) =
     (if c = d then [] # split_char d cs
      else case split_char d cs of [] \<Rightarrow> [[c]] | x # xs \<Rightarrow> (c # x) # xs)"

text \<open>Decimal and hexadecimal formatting (\<^verbatim>\<open>{}\<close>, \<^verbatim>\<open>{b:02x}\<close>, \<^verbatim>\<open>{b:02X}\<close>).\<close>

fun dec_str :: "nat \<Rightarrow> rstring" where
  "dec_str n = (if n < 10 then [48 + n] else dec_str (n div 10) @ [48 + n mod 10])"

declare dec_str.simps [simp del]

definition hex_digit :: "nat \<Rightarrow> nat \<Rightarrow> rchar" where
  "hex_digit a d = (if d < 10 then 48 + d else a + (d - 10))"

definition hex2_lower :: "u8 \<Rightarrow> rstring" where
  "hex2_lower b = [hex_digit 97 (unat b div 16), hex_digit 97 (unat b mod 16)]"

definition hex2_upper :: "u8 \<Rightarrow> rstring" where
  "hex2_upper b = [hex_digit 65 (unat b div 16), hex_digit 65 (unat b mod 16)]"

lemma replace_char_append [simp]:
  "replace_char c t (s @ s') = replace_char c t s @ replace_char c t s'"
  by (simp add: replace_char_def)

lemma replace_char_Nil [simp]: "replace_char c t [] = []"
  by (simp add: replace_char_def)

lemma replace_char_Cons [simp]:
  "replace_char c t (x # s) = (if x = c then t else [x]) @ replace_char c t s"
  by (simp add: replace_char_def)

lemma dec_str_not_Nil [simp]: "dec_str n \<noteq> []"
  by (subst dec_str.simps) simp

lemma dec_str_digits: "\<forall>c \<in> set (dec_str n). 48 \<le> c \<and> c < 58"
proof (induction n rule: dec_str.induct)
  case (1 n)
  show ?case
  proof (cases "n < 10")
    case True
    then show ?thesis by (simp add: dec_str.simps [of n])
  next
    case False
    with 1 show ?thesis by (simp add: dec_str.simps [of n])
  qed
qed

text \<open>Scanning up to a delimiter.\<close>

lemma takeWhile_until [simp]: "d \<notin> set p \<Longrightarrow> takeWhile (\<lambda>c. c \<noteq> d) (p @ d # s) = p"
  by (induction p) auto

lemma dropWhile_until [simp]: "d \<notin> set p \<Longrightarrow> dropWhile (\<lambda>c. c \<noteq> d) (p @ d # s) = d # s"
  by (induction p) auto

lemma split_char_append: "d \<notin> set p \<Longrightarrow> split_char d (p @ d # s) = p # split_char d s"
  by (induction p) auto

lemma split_char_none: "d \<notin> set p \<Longrightarrow> split_char d p = [p]"
  by (induction p) auto

lemma split_char_not_Nil: "split_char d s \<noteq> []"
  by (induction s) (auto split: list.split)

lemma split_char_prefix: "d \<notin> set p \<Longrightarrow> split_char d (p @ s) = (p @ hd (split_char d s)) # tl (split_char d s)"
  by (induction p) (auto simp: split_char_not_Nil split: list.split)

lemma split_char_hd: "\<exists>r. s = hd (split_char d s) @ r"
proof (induction s)
  case (Cons c cs)
  then show ?case by (cases "split_char d cs") auto
qed simp

lemma replace_str_at: "pat \<noteq> [] \<Longrightarrow> replace_str pat t (pat @ s) = t @ replace_str pat t s"
  by (cases pat) simp_all

text \<open>A replacement that brings no separator keeps the pieces apart.\<close>

lemma split_replace:
  assumes "pat \<noteq> []" and "d \<notin> set pat" and "d \<notin> set t"
  shows "split_char d (replace_str pat t s) = map (replace_str pat t) (split_char d s)"
proof (induction "length s" arbitrary: s rule: less_induct)
  case less
  show ?case
  proof (cases s)
    case (Cons c cs)
    obtain x xs where rest: "split_char d cs = x # xs" by (cases "split_char d cs") (auto simp: split_char_not_Nil)
    show ?thesis
    proof (cases "take (length pat) s = pat")
      case True
      then obtain r where r: "s = pat @ r" by (metis append_take_drop_id)
      with assms(1) have "length r < length s" by simp
      from less [OF this] have "split_char d (replace_str pat t r) = map (replace_str pat t) (split_char d r)" .
      then show ?thesis
        using assms by (simp add: r replace_str_at split_char_prefix split_char_not_Nil hd_map map_tl)
    next
      case False
      have tail: "split_char d (replace_str pat t cs) = map (replace_str pat t) (split_char d cs)"
        using less [of cs] Cons by simp
      have step: "replace_str pat t (c # cs) = c # replace_str pat t cs" using False Cons by simp
      obtain r where "cs = x @ r" using split_char_hd [of cs d] rest by auto
      with False Cons have "take (length pat) (c # x) \<noteq> pat"
        by (metis append_Cons append_eq_conv_conj append_take_drop_id append.assoc)
      then have "replace_str pat t (c # x) = c # replace_str pat t x" by simp
      with tail step rest Cons show ?thesis by simp
    qed
  qed simp
qed

lemma unat_u8: "unat (b :: u8) < 256"
  using unsigned_less [of b] by simp

subsection \<open>Lower-casing\<close>

text \<open>
  \<^verbatim>\<open>str::to_lowercase\<close> maps ASCII letters arithmetically, every other character through the
  Unicode Character Database, and a capital sigma by its context (\<^verbatim>\<open>map_uppercase_sigma\<close>). The
  database is data that the standard library generates from the Unicode files; it is the
  parameter \<open>ucd\<close> of the definitions. \<open>ucd_ok\<close> states what the database documents of the
  lower-case mappings: besides the Kelvin sign U+212A no mapping of a non-ASCII
  character consists of ASCII characters only.
\<close>

record ucd =
  lower_map :: "rchar \<Rightarrow> rchar list"
  cased :: "rchar \<Rightarrow> bool"
  case_ignorable :: "rchar \<Rightarrow> bool"

definition ascii_lower :: "rchar \<Rightarrow> rchar" where
  "ascii_lower c = (if 65 \<le> c \<and> c \<le> 90 then c + 32 else c)"

definition char_to_lower :: "ucd \<Rightarrow> rchar \<Rightarrow> rchar list" where
  "char_to_lower u c = (if c < 128 then [ascii_lower c] else lower_map u c)"

definition case_ignorable_then_cased :: "ucd \<Rightarrow> rstring \<Rightarrow> bool" where
  "case_ignorable_then_cased u s =
     (case dropWhile (case_ignorable u) s of [] \<Rightarrow> False | c # _ \<Rightarrow> cased u c)"

definition map_uppercase_sigma :: "ucd \<Rightarrow> rstring \<Rightarrow> rstring \<Rightarrow> rchar" where
  "map_uppercase_sigma u before_rev after =
     (if case_ignorable_then_cased u before_rev \<and> \<not> case_ignorable_then_cased u after
      then 962 else 963)"

fun lower_from :: "ucd \<Rightarrow> rstring \<Rightarrow> rstring \<Rightarrow> rstring" where
  "lower_from u before_rev [] = []"
| "lower_from u before_rev (c # cs) =
     (if c = 931 then [map_uppercase_sigma u before_rev cs] else char_to_lower u c) @
     lower_from u (c # before_rev) cs"

definition to_lowercase :: "ucd \<Rightarrow> rstring \<Rightarrow> rstring" where
  "to_lowercase u s = lower_from u [] s"

definition ucd_ok :: "ucd \<Rightarrow> bool" where
  "ucd_ok u \<longleftrightarrow> (\<forall>c \<ge> 128. c \<noteq> 8490 \<longrightarrow> (\<exists>d \<in> set (lower_map u c). 128 \<le> d)) \<and>
     lower_map u 8490 = [107]"

lemma lower_from_ascii:
  "\<forall>c \<in> set s. c < 128 \<Longrightarrow> lower_from u b s = map ascii_lower s"
  by (induction s arbitrary: b) (auto simp: char_to_lower_def)

lemma to_lowercase_ascii:
  "\<forall>c \<in> set s. c < 128 \<Longrightarrow> to_lowercase u s = map ascii_lower s"
  by (simp add: to_lowercase_def lower_from_ascii)

text \<open>
  A string whose lower-case form is an ASCII word without the letter \<open>k\<close> is itself
  ASCII, so the match is the ASCII case-insensitive one.
\<close>

lemma lower_from_to_ascii:
  assumes "ucd_ok u" and "lower_from u b s = w" and "\<forall>c \<in> set w. c < 128 \<and> c \<noteq> 107"
  shows "map ascii_lower s = w \<and> (\<forall>c \<in> set s. c < 128)"
  using assms(2,3)
proof (induction s arbitrary: b w)
  case Nil
  then show ?case by simp
next
  case (Cons c cs)
  define h where "h = (if c = 931 then [map_uppercase_sigma u b cs] else char_to_lower u c)"
  have w: "w = h @ lower_from u (c # b) cs"
    using Cons.prems(1) by (simp add: h_def)
  with Cons.prems(2) have h_ascii: "\<forall>d \<in> set h. d < 128 \<and> d \<noteq> 107" by simp
  have "c < 128"
  proof (rule ccontr)
    assume big: "\<not> c < 128"
    show False
    proof (cases "c = 931")
      case True
      with h_ascii show False by (simp add: h_def map_uppercase_sigma_def split: if_splits)
    next
      case False
      with big have "h = lower_map u c" by (simp add: h_def char_to_lower_def)
      moreover have "c = 8490 \<or> (\<exists>d \<in> set (lower_map u c). 128 \<le> d)"
        using assms(1) big by (auto simp: ucd_ok_def not_less)
      ultimately show False
        using h_ascii assms(1) by (auto simp: ucd_ok_def)
    qed
  qed
  then have "h = [ascii_lower c]" by (simp add: h_def char_to_lower_def)
  moreover have "map ascii_lower cs = lower_from u (c # b) cs \<and> (\<forall>c \<in> set cs. c < 128)"
    using Cons.prems(2) w by (intro Cons.IH [OF refl]) simp
  ultimately show ?case using w \<open>c < 128\<close> by simp
qed

lemma to_lowercase_eq_ascii_iff:
  assumes "ucd_ok u" and "\<forall>c \<in> set w. c < 128 \<and> c \<noteq> 107"
  shows "to_lowercase u s = w \<longleftrightarrow> map ascii_lower s = w"
proof
  assume "to_lowercase u s = w"
  with lower_from_to_ascii [OF assms(1) _ assms(2)] show "map ascii_lower s = w"
    by (simp add: to_lowercase_def)
next
  assume m: "map ascii_lower s = w"
  have "\<forall>c \<in> set s. c < 128"
  proof
    fix c assume "c \<in> set s"
    with m have "ascii_lower c \<in> set w" by auto
    with assms(2) have "ascii_lower c < 128" by blast
    then show "c < 128" by (simp add: ascii_lower_def split: if_splits)
  qed
  with m show "to_lowercase u s = w" by (simp add: to_lowercase_ascii)
qed

text \<open>A database that knows the ASCII letters and the Kelvin sign only, for examples.\<close>

definition ascii_ucd :: ucd where
  "ascii_ucd = \<lparr>lower_map = (\<lambda>c. if c = 8490 then [107] else [c]),
     cased = (\<lambda>c. 65 \<le> c \<and> c \<le> 90 \<or> 97 \<le> c \<and> c \<le> 122), case_ignorable = (\<lambda>c. c = 39 \<or> c = 46)\<rparr>"

lemma ascii_ucd_ok: "ucd_ok ascii_ucd"
  by (auto simp: ucd_ok_def ascii_ucd_def)

subsection \<open>Hash maps\<close>

definition hm_get :: "('k, 'v) hashmap \<Rightarrow> 'k \<Rightarrow> 'v option" where
  "hm_get m k = map_of m k"

definition hm_insert :: "'k \<Rightarrow> 'v \<Rightarrow> ('k, 'v) hashmap \<Rightarrow> ('k, 'v) hashmap" where
  "hm_insert k v m = AList.update k v m"

definition hm_remove :: "'k \<Rightarrow> ('k, 'v) hashmap \<Rightarrow> ('k, 'v) hashmap" where
  "hm_remove k m = AList.delete k m"

definition hm_len :: "('k, 'v) hashmap \<Rightarrow> nat" where
  "hm_len m = length m"

definition hm_keys :: "('k, 'v) hashmap \<Rightarrow> 'k list" where
  "hm_keys m = map fst m"

definition hm_ok :: "('k, 'v) hashmap \<Rightarrow> bool" where
  "hm_ok m \<longleftrightarrow> distinct (map fst m)"

text \<open>The contract the components rely on.\<close>

locale hash_map =
  fixes empty :: "'m"
    and get :: "'m \<Rightarrow> 'k \<Rightarrow> 'v option"
    and insert :: "'k \<Rightarrow> 'v \<Rightarrow> 'm \<Rightarrow> 'm"
    and remove :: "'k \<Rightarrow> 'm \<Rightarrow> 'm"
    and len :: "'m \<Rightarrow> nat"
    and keys :: "'m \<Rightarrow> 'k list"
    and ok :: "'m \<Rightarrow> bool"
  assumes get_empty: "get empty = (\<lambda>_. None)"
    and get_insert: "ok m \<Longrightarrow> get (insert k v m) = (get m)(k \<mapsto> v)"
    and get_remove: "ok m \<Longrightarrow> get (remove k m) = (get m)(k := None)"
    and set_keys: "ok m \<Longrightarrow> set (keys m) = dom (get m)"
    and distinct_keys: "ok m \<Longrightarrow> distinct (keys m)"
    and len_keys: "ok m \<Longrightarrow> len m = length (keys m)"
    and ok_empty: "ok empty"
    and ok_insert: "ok m \<Longrightarrow> ok (insert k v m)"
    and ok_remove: "ok m \<Longrightarrow> ok (remove k m)"
begin

lemma finite_dom: "ok m \<Longrightarrow> finite (dom (get m))"
  by (metis set_keys List.finite_set)

lemma len_card: "ok m \<Longrightarrow> len m = card (dom (get m))"
  by (metis len_keys set_keys distinct_keys distinct_card)

lemma len_insert:
  "ok m \<Longrightarrow> len (insert k v m) = (if get m k = None then Suc (len m) else len m)"
  by (auto simp: len_card ok_insert get_insert finite_dom card_insert_if domIff)

lemma len_remove:
  "ok m \<Longrightarrow> len (remove k m) = (if get m k = None then len m else len m - 1)"
  by (auto simp: len_card ok_remove get_remove finite_dom domIff)

lemma len_remove_le: "ok m \<Longrightarrow> len (remove k m) \<le> len m"
  by (simp add: len_remove)

lemma len_0: "ok m \<Longrightarrow> len m = 0 \<longleftrightarrow> get m = (\<lambda>_. None)"
  by (simp add: len_card finite_dom)

lemma len_pos: "ok m \<Longrightarrow> get m k = Some v \<Longrightarrow> 0 < len m"
  using len_0 by fastforce

end

lemma hm_hash_map: "hash_map ([] :: ('k, 'v) hashmap) hm_get hm_insert hm_remove hm_len hm_keys hm_ok"
proof
  fix m :: "('k, 'v) hashmap" and k :: 'k and v :: 'v
  assume ok: "hm_ok m"
  show "hm_get (hm_insert k v m) = (hm_get m)(k \<mapsto> v)"
    by (simp add: hm_get_def hm_insert_def update_conv' fun_eq_iff)
  show "hm_get (hm_remove k m) = (hm_get m)(k := None)"
    by (simp add: hm_get_def hm_remove_def delete_conv' fun_eq_iff)
  show "set (hm_keys m) = dom (hm_get m)"
    using dom_map_of_conv_image_fst [of m] by (simp add: hm_keys_def hm_get_def dom_def)
  show "distinct (hm_keys m)" using ok by (simp add: hm_keys_def hm_ok_def)
  show "hm_len m = length (hm_keys m)" by (simp add: hm_keys_def hm_len_def)
  show "hm_ok (hm_insert k v m)" using ok by (simp add: hm_ok_def hm_insert_def distinct_update)
  show "hm_ok (hm_remove k m)" using ok by (simp add: hm_ok_def hm_remove_def distinct_delete)
qed (simp_all add: hm_get_def hm_ok_def fun_eq_iff)

interpretation hm: hash_map "[]" hm_get hm_insert hm_remove hm_len hm_keys hm_ok
  by (rule hm_hash_map)

text \<open>The entries of a map as a multiset, for accounts of what a map holds.\<close>

lemma hm_remove_Nil: "hm_remove k [] = []"
  by (simp add: hm_remove_def)

lemma hm_remove_Cons: "hm_remove k (p # m) = (if fst p = k then hm_remove k m else p # hm_remove k m)"
  by (auto simp: hm_remove_def AList.delete_eq)

lemma hm_remove_absent: "hm_get m k = None \<Longrightarrow> hm_remove k m = m"
  unfolding hm_get_def hm_remove_def by (rule delete_id) (simp add: map_of_eq_None_iff)

lemma hm_remove_notin: "k \<notin> fst ` set m \<Longrightarrow> hm_remove k m = m"
  by (rule hm_remove_absent) (simp add: hm_get_def map_of_eq_None_iff)

lemma mset_hm_insert:
  "hm_ok m \<Longrightarrow> mset (hm_insert k v m) = add_mset (k, v) (mset (hm_remove k m))"
  by (induction m) (auto simp: hm_insert_def hm_ok_def hm_remove_Cons hm_remove_notin hm_remove_Nil)

lemma mset_hm_get:
  "hm_ok m \<Longrightarrow> hm_get m k = Some v \<Longrightarrow> mset m = add_mset (k, v) (mset (hm_remove k m))"
  by (induction m) (auto simp: hm_get_def hm_ok_def hm_remove_Cons hm_remove_notin split: if_splits)

subsection \<open>Iterators\<close>

text \<open>\<^verbatim>\<open>Iterator::max\<close> (with its \<^verbatim>\<open>None\<close> on an empty iterator), \<^verbatim>\<open>Iterator::max_by_key\<close> (the last
  of several maximal elements) and the stable \<^verbatim>\<open>slice::sort_by_key\<close>.\<close>

fun iter_max :: "'a::linorder list \<Rightarrow> 'a option" where
  "iter_max [] = None"
| "iter_max (x # xs) = Some (fold max xs x)"

fun max_by_key :: "('a \<Rightarrow> 'b::linorder) \<Rightarrow> 'a list \<Rightarrow> 'a option" where
  "max_by_key f [] = None"
| "max_by_key f (x # xs) = Some (fold (\<lambda>y best. if f best \<le> f y then y else best) xs x)"

definition sort_by_key :: "('a \<Rightarrow> 'b::linorder) \<Rightarrow> 'a list \<Rightarrow> 'a list" where
  "sort_by_key f xs = sort_key f xs"

lemma fold_max_by_key:
  "fold (\<lambda>y best. if f best \<le> f y then y else best) xs x \<in> set (x # xs) \<and>
   (\<forall>y \<in> set (x # xs). f y \<le> f (fold (\<lambda>y best. if f best \<le> f y then y else best) xs x))"
  for f :: "'a \<Rightarrow> 'b::linorder"
proof (induction xs arbitrary: x)
  case Nil
  then show ?case by simp
next
  case (Cons y ys)
  define b where "b = (if f x \<le> f y then y else x)"
  have b: "f x \<le> f b" "f y \<le> f b" "b \<in> {x, y}" by (auto simp: b_def)
  have "fold (\<lambda>y best. if f best \<le> f y then y else best) (y # ys) x =
      fold (\<lambda>y best. if f best \<le> f y then y else best) ys b"
    by (simp add: b_def)
  with Cons.IH [of b] b show ?case by (auto intro: order_trans)
qed

lemma max_by_key_Some:
  assumes "max_by_key f xs = Some m"
  shows "m \<in> set xs" and "\<And>y. y \<in> set xs \<Longrightarrow> f y \<le> f m"
  using assms fold_max_by_key by (cases xs; force)+

lemma max_by_key_None_iff [simp]: "max_by_key f xs = None \<longleftrightarrow> xs = []"
  by (cases xs) auto

lemma fold_max_eq_Max: "fold max xs x = Max (set (x # xs))" for x :: "'a::linorder"
  by (simp only: Max.set_eq_fold [symmetric])

lemma iter_max_eq: "xs \<noteq> [] \<Longrightarrow> iter_max xs = Some (Max (set xs))"
  using fold_max_eq_Max by (cases xs) auto

lemma mset_sort_by_key [simp]: "mset (sort_by_key f xs) = mset xs"
  by (simp add: sort_by_key_def)

lemma set_sort_by_key [simp]: "set (sort_by_key f xs) = set xs"
  by (simp add: sort_by_key_def)

lemma length_sort_by_key [simp]: "length (sort_by_key f xs) = length xs"
  by (simp add: sort_by_key_def)

lemma sort_by_key_eq_Nil [simp]: "sort_by_key f xs = [] \<longleftrightarrow> xs = []"
  by (metis length_0_conv length_sort_by_key)

lemma sorted_sort_by_key: "sorted (map f (sort_by_key f xs))"
  by (simp add: sort_by_key_def)

subsection \<open>Vocabulary of the tests\<close>

text \<open>A test that panics fails.\<close>

definition holds :: "'a option \<Rightarrow> ('a \<Rightarrow> bool) \<Rightarrow> bool" where
  "holds r P = (case r of None \<Rightarrow> False | Some x \<Rightarrow> P x)"

definition is_err :: "'e + 'a \<Rightarrow> bool" where
  "is_err r = (case r of Inl e \<Rightarrow> True | Inr x \<Rightarrow> False)"

text \<open>A text with quotation marks, which are written as back quotes, and a text of several lines.\<close>

definition quoted_text :: "string \<Rightarrow> rstring" where
  "quoted_text s = map (\<lambda>c. if c = 96 then 34 else c) (str s)"

definition quoted_lines :: "string list \<Rightarrow> rstring" where
  "quoted_lines ls = quoted_text (drop 1 (concat (map (\<lambda>l. CHR 0x0A # l) ls)))"

text \<open>\<^verbatim>\<open>str::contains\<close>.\<close>

fun begins :: "rstring \<Rightarrow> rstring \<Rightarrow> bool" where
  "begins s [] = True"
| "begins [] (d # part) = False"
| "begins (c # s) (d # part) = (c = d \<and> begins s part)"

fun has_part :: "rstring \<Rightarrow> rstring \<Rightarrow> bool" where
  "has_part [] part = begins [] part"
| "has_part (c # s) part = (begins (c # s) part \<or> has_part s part)"

lemma begins_iff: "begins s part \<longleftrightarrow> (\<exists>rest. s = part @ rest)"
  by (induction s part rule: begins.induct) auto

lemma has_part_iff: "has_part s part \<longleftrightarrow> (\<exists>before rest. s = before @ part @ rest)"
proof (induction s)
  case (Cons c s)
  show ?case by (auto simp: Cons begins_iff Cons_eq_append_conv)
qed (auto simp: begins_iff)

lemma has_part_append [std_simps]: "has_part (a @ part @ b) part"
  by (auto simp: has_part_iff)

end
