(* ===== verification/Dedup.thy ===== *)
theory Dedup
  imports Prelude
begin

section \<open>Duplicate suppression (\<^verbatim>\<open>dedup.rs\<close>)\<close>

text \<open>
  \<^verbatim>\<open>DedupCache\<close> holds a map from key to expiry and the queue of insertions. \<^verbatim>\<open>try_add\<close> reads the
  clock, takes the lock, purges the front of the queue, and then either rejects the key or
  evicts down to the capacity and inserts it. The clock value is an argument of the model:
  it is read before the lock is taken, so two workers can enter with values out of order.

  The facts come in two layers. For an arbitrary clock the invariant \<open>dedup_inv\<close> is
  kept, the answer is exactly "no unexpired entry", and an unexpired entry leaves the cache only when the
  capacity forces it out. For a clock that does not run backwards the
  cache refines \<open>spec_try_add\<close>, a bounded list of unexpired entries in insertion order.
\<close>

record dedup_inner =
  expiry_by_key :: "(rstring, instant) hashmap"
  insertion_order :: "(rstring \<times> instant) list"

record dedup_cache =
  inner :: dedup_inner
  capacity :: nat
  ttl :: duration

definition dedup_new :: "nat \<Rightarrow> duration \<Rightarrow> dedup_cache option" where
  "dedup_new cap t =
     (if cap \<ge> 1
      then Some \<lparr>inner = \<lparr>expiry_by_key = [], insertion_order = []\<rparr>, capacity = cap, ttl = t\<rparr>
      else None)"

definition dequeue_one :: "dedup_inner \<Rightarrow> dedup_inner" where
  "dequeue_one g =
     (case insertion_order g of
        [] \<Rightarrow> g
      | (key, expires_at) # rest \<Rightarrow>
          (let g' = g\<lparr>insertion_order := rest\<rparr> in
           if hm_get (expiry_by_key g') key = Some expires_at
           then g'\<lparr>expiry_by_key := hm_remove key (expiry_by_key g')\<rparr>
           else g'))"

lemma length_dequeue_one:
  "length (insertion_order (dequeue_one g)) = length (insertion_order g) - 1"
  by (auto simp: dequeue_one_def Let_def split: list.splits)

function purge_expired :: "instant \<Rightarrow> dedup_inner \<Rightarrow> dedup_inner" where
  "purge_expired now g =
     (case insertion_order g of
        [] \<Rightarrow> g
      | (_, exp) # _ \<Rightarrow> if exp \<le> now then purge_expired now (dequeue_one g) else g)"
  by pat_completeness auto
termination
  by (relation "measure (\<lambda>(now, g). length (insertion_order g))")
    (auto simp: length_dequeue_one)

function evict_to_capacity :: "nat \<Rightarrow> dedup_inner \<Rightarrow> dedup_inner" where
  "evict_to_capacity cap g =
     (if hm_len (expiry_by_key g) \<ge> cap \<and> insertion_order g \<noteq> []
      then evict_to_capacity cap (dequeue_one g) else g)"
  by pat_completeness auto
termination
  by (relation "measure (\<lambda>(cap, g). length (insertion_order g))")
    (auto simp: length_dequeue_one)

declare purge_expired.simps [simp del] evict_to_capacity.simps [simp del]

definition try_add :: "dedup_cache \<Rightarrow> instant \<Rightarrow> rstring \<Rightarrow> bool \<times> dedup_cache" where
  "try_add c now key =
     (let g = purge_expired now (inner c) in
      if (case hm_get (expiry_by_key g) key of None \<Rightarrow> False | Some exp \<Rightarrow> exp > now)
      then (False, c\<lparr>inner := g\<rparr>)
      else
        let g = evict_to_capacity (capacity c) g;
            expires = now + ttl c
        in (True, c\<lparr>inner := g\<lparr>expiry_by_key := hm_insert key expires (expiry_by_key g),
                                insertion_order := insertion_order g @ [(key, expires)]\<rparr>\<rparr>))"

definition dedup_len :: "dedup_cache \<Rightarrow> nat" where
  "dedup_len c = hm_len (expiry_by_key (inner c))"

definition dedup_is_empty :: "dedup_cache \<Rightarrow> bool" where
  "dedup_is_empty c \<longleftrightarrow> dedup_len c = 0"

subsection \<open>The invariant, for any clock\<close>

text \<open>Every map entry has its queue entry, so that the eviction loop always makes room.\<close>

definition inner_ok :: "dedup_inner \<Rightarrow> bool" where
  "inner_ok g \<longleftrightarrow> hm_ok (expiry_by_key g) \<and>
     (\<forall>k e. hm_get (expiry_by_key g) k = Some e \<longrightarrow> (k, e) \<in> set (insertion_order g))"

definition dedup_inv :: "dedup_cache \<Rightarrow> bool" where
  "dedup_inv c \<longleftrightarrow> inner_ok (inner c) \<and> 1 \<le> capacity c \<and> dedup_len c \<le> capacity c"

definition dedup_live :: "dedup_cache \<Rightarrow> instant \<Rightarrow> rstring \<Rightarrow> bool" where
  "dedup_live c now key \<longleftrightarrow> (\<exists>e. hm_get (expiry_by_key (inner c)) key = Some e \<and> now < e)"

lemma inner_ok_dequeue_one: "inner_ok g \<Longrightarrow> inner_ok (dequeue_one g)"
  by (auto simp: inner_ok_def dequeue_one_def Let_def hm.get_remove hm.ok_remove
      split: list.splits if_splits) (metis list.set_intros set_ConsD)+

text \<open>Both loops pop queue entries only; a property that popping keeps holds at their end.\<close>

lemma purge_expired_rule:
  assumes "P g"
    and "\<And>g k e q. P g \<Longrightarrow> insertion_order g = (k, e) # q \<Longrightarrow> e \<le> now \<Longrightarrow> P (dequeue_one g)"
  shows "P (purge_expired now g)"
  using assms(1)
proof (induction "length (insertion_order g)" arbitrary: g)
  case 0
  then show ?case by (subst purge_expired.simps) simp
next
  case (Suc n)
  then obtain k e q where q: "insertion_order g = (k, e) # q"
    by (metis length_Suc_conv surj_pair)
  show ?case
  proof (cases "e \<le> now")
    case True
    with Suc q have "P (purge_expired now (dequeue_one g))"
      by (intro Suc.hyps) (auto simp: length_dequeue_one intro: assms(2))
    with True q show ?thesis by (subst purge_expired.simps) simp
  next
    case False
    with q Suc.prems show ?thesis by (subst purge_expired.simps) simp
  qed
qed

lemma evict_to_capacity_rule:
  assumes "P g"
    and "\<And>g. P g \<Longrightarrow> insertion_order g \<noteq> [] \<Longrightarrow> cap \<le> hm_len (expiry_by_key g) \<Longrightarrow> P (dequeue_one g)"
  shows "P (evict_to_capacity cap g)"
  using assms(1)
proof (induction "length (insertion_order g)" arbitrary: g rule: less_induct)
  case less
  show ?case
  proof (cases "hm_len (expiry_by_key g) \<ge> cap \<and> insertion_order g \<noteq> []")
    case True
    with less have "P (evict_to_capacity cap (dequeue_one g))"
      by (intro less.hyps) (auto simp: length_dequeue_one intro: assms(2))
    with True show ?thesis by (subst evict_to_capacity.simps) simp
  next
    case False
    with less.prems show ?thesis by (subst evict_to_capacity.simps) auto
  qed
qed

lemma inner_ok_purge: "inner_ok g \<Longrightarrow> inner_ok (purge_expired now g)"
  by (rule purge_expired_rule) (auto intro: inner_ok_dequeue_one)

lemma inner_ok_evict: "inner_ok g \<Longrightarrow> inner_ok (evict_to_capacity cap g)"
  by (rule evict_to_capacity_rule) (auto intro: inner_ok_dequeue_one)

lemma dequeue_one_len_le: "inner_ok g \<Longrightarrow> hm_len (expiry_by_key (dequeue_one g)) \<le> hm_len (expiry_by_key g)"
  by (auto simp: inner_ok_def dequeue_one_def Let_def hm.len_remove_le split: list.splits)

lemma purge_len_le:
  assumes "inner_ok g"
  shows "hm_len (expiry_by_key (purge_expired now g)) \<le> hm_len (expiry_by_key g)"
proof -
  have "inner_ok (purge_expired now g) \<and>
      hm_len (expiry_by_key (purge_expired now g)) \<le> hm_len (expiry_by_key g)"
    by (rule purge_expired_rule)
      (use assms in \<open>auto intro: inner_ok_dequeue_one order_trans [OF dequeue_one_len_le]\<close>)
  then show ?thesis ..
qed

lemma evict_stops:
  "hm_len (expiry_by_key (evict_to_capacity cap g)) < cap \<or> insertion_order (evict_to_capacity cap g) = []"
proof (induction cap g rule: evict_to_capacity.induct)
  case (1 cap g)
  then show ?case
    by (cases "hm_len (expiry_by_key g) \<ge> cap \<and> insertion_order g \<noteq> []")
      (auto simp: evict_to_capacity.simps [of cap g] not_le)
qed

lemma evict_makes_room:
  assumes "inner_ok g" and "1 \<le> cap"
  shows "hm_len (expiry_by_key (evict_to_capacity cap g)) < cap"
  using evict_stops
proof
  let ?g = "evict_to_capacity cap g"
  assume "insertion_order ?g = []"
  moreover have ok: "inner_ok ?g" using assms(1) by (rule inner_ok_evict)
  ultimately have "hm_get (expiry_by_key ?g) = (\<lambda>_. None)"
    by (auto simp: inner_ok_def fun_eq_iff)
  with ok have "hm_len (expiry_by_key ?g) = 0" by (simp add: inner_ok_def hm.len_0)
  with assms(2) show ?thesis by simp
qed

text \<open>Purging forgets expired entries only.\<close>

lemma dequeue_one_get:
  "inner_ok g \<Longrightarrow> hm_get (expiry_by_key (dequeue_one g)) k =
     (case insertion_order g of
        [] \<Rightarrow> hm_get (expiry_by_key g) k
      | (k', e) # _ \<Rightarrow> if k = k' \<and> hm_get (expiry_by_key g) k = Some e then None
                     else hm_get (expiry_by_key g) k)"
  by (auto simp: inner_ok_def dequeue_one_def Let_def hm.get_remove split: list.splits)

lemma purge_keeps_live:
  assumes "inner_ok g" and "now < e"
  shows "hm_get (expiry_by_key (purge_expired now g)) k = Some e \<longleftrightarrow> hm_get (expiry_by_key g) k = Some e"
proof -
  have "inner_ok (purge_expired now g) \<and>
      (hm_get (expiry_by_key (purge_expired now g)) k = Some e \<longleftrightarrow> hm_get (expiry_by_key g) k = Some e)"
    by (rule purge_expired_rule)
      (use assms in \<open>auto simp: dequeue_one_get intro: inner_ok_dequeue_one\<close>)
  then show ?thesis ..
qed

text \<open>The three outcomes of \<^verbatim>\<open>try_add\<close> in one place.\<close>

lemma try_add_unfold:
  assumes "dedup_inv c"
  shows "try_add c now k =
    (if dedup_live c now k then (False, c\<lparr>inner := purge_expired now (inner c)\<rparr>)
     else let g = evict_to_capacity (capacity c) (purge_expired now (inner c))
       in (True, c\<lparr>inner := g\<lparr>expiry_by_key := hm_insert k (now + ttl c) (expiry_by_key g),
              insertion_order := insertion_order g @ [(k, now + ttl c)]\<rparr>\<rparr>))"
proof -
  have "(case hm_get (expiry_by_key (purge_expired now (inner c))) k of None \<Rightarrow> False | Some exp \<Rightarrow> exp > now)
      \<longleftrightarrow> (\<exists>e. hm_get (expiry_by_key (purge_expired now (inner c))) k = Some e \<and> now < e)"
    by (auto split: option.splits)
  also have "\<dots> \<longleftrightarrow> dedup_live c now k"
    using assms purge_keeps_live [of "inner c" now _ k] unfolding dedup_live_def dedup_inv_def by blast
  finally have "(case hm_get (expiry_by_key (purge_expired now (inner c))) k of None \<Rightarrow> False | Some exp \<Rightarrow> exp > now)
      \<longleftrightarrow> dedup_live c now k" .
  then show ?thesis by (simp add: try_add_def Let_def)
qed

lemma try_add_accepts_iff: "dedup_inv c \<Longrightarrow> fst (try_add c now k) \<longleftrightarrow> \<not> dedup_live c now k"
  by (simp add: try_add_unfold Let_def)

lemma try_add_inv:
  assumes "dedup_inv c"
  shows "dedup_inv (snd (try_add c now k))"
proof (cases "dedup_live c now k")
  case True
  with assms show ?thesis
    by (auto simp: try_add_unfold dedup_inv_def dedup_len_def intro: inner_ok_purge order_trans [OF purge_len_le])
next
  case False
  define g where "g = evict_to_capacity (capacity c) (purge_expired now (inner c))"
  have ok: "inner_ok g" and room: "hm_len (expiry_by_key g) < capacity c"
    using assms by (auto simp: g_def dedup_inv_def intro: inner_ok_evict inner_ok_purge evict_makes_room)
  let ?g = "g\<lparr>expiry_by_key := hm_insert k (now + ttl c) (expiry_by_key g),
      insertion_order := insertion_order g @ [(k, now + ttl c)]\<rparr>"
  have "inner_ok ?g"
    using ok by (auto simp: inner_ok_def hm.ok_insert hm.get_insert split: if_splits)
  moreover have "hm_len (expiry_by_key ?g) \<le> capacity c"
    using ok room by (simp add: inner_ok_def hm.len_insert)
  ultimately show ?thesis
    using assms False by (simp add: try_add_unfold dedup_inv_def dedup_len_def Let_def g_def)
qed

lemma try_add_frame [simp]:
  "capacity (snd (try_add c now k)) = capacity c" "ttl (snd (try_add c now k)) = ttl c"
  by (auto simp: try_add_def Let_def)

lemma try_add_live_after:
  assumes "dedup_inv c" and "fst (try_add c now k)"
  shows "dedup_live (snd (try_add c now k)) t k \<longleftrightarrow> t < now + ttl c"
proof -
  define g where "g = evict_to_capacity (capacity c) (purge_expired now (inner c))"
  have "inner_ok g"
    using assms(1) by (auto simp: g_def dedup_inv_def intro: inner_ok_evict inner_ok_purge)
  with assms show ?thesis
    by (auto simp: try_add_unfold dedup_live_def Let_def g_def [symmetric] inner_ok_def hm.get_insert
        split: if_splits)
qed

lemma dedup_new_inv: "dedup_new cap t = Some c \<Longrightarrow> dedup_inv c"
  by (auto simp: dedup_new_def dedup_inv_def inner_ok_def dedup_len_def hm_ok_def hm_len_def hm_get_def
      split: if_splits)

subsection \<open>The contract offered to the pipeline\<close>

text \<open>Popping and evicting never create an entry.\<close>

lemma popped_get_Some:
  assumes "inner_ok g"
  shows "hm_get (expiry_by_key (purge_expired now g)) k = Some e \<Longrightarrow> hm_get (expiry_by_key g) k = Some e"
    and "hm_get (expiry_by_key (evict_to_capacity cap g)) k = Some e \<Longrightarrow> hm_get (expiry_by_key g) k = Some e"
proof -
  have "inner_ok (purge_expired now g) \<and>
      (hm_get (expiry_by_key (purge_expired now g)) k = Some e \<longrightarrow> hm_get (expiry_by_key g) k = Some e)"
    by (rule purge_expired_rule)
      (use assms in \<open>auto simp: dequeue_one_get intro: inner_ok_dequeue_one\<close>)
  then show "hm_get (expiry_by_key (purge_expired now g)) k = Some e \<Longrightarrow> hm_get (expiry_by_key g) k = Some e"
    by blast
  have "inner_ok (evict_to_capacity cap g) \<and>
      (hm_get (expiry_by_key (evict_to_capacity cap g)) k = Some e \<longrightarrow> hm_get (expiry_by_key g) k = Some e)"
    by (rule evict_to_capacity_rule)
      (use assms in \<open>auto simp: dequeue_one_get intro: inner_ok_dequeue_one split: list.splits if_splits\<close>)
  then show "hm_get (expiry_by_key (evict_to_capacity cap g)) k = Some e \<Longrightarrow> hm_get (expiry_by_key g) k = Some e"
    by blast
qed

lemma try_add_live_origin:
  assumes "dedup_inv c" and "dedup_live (snd (try_add c now k)) t k'"
  shows "dedup_live c t k' \<or> k' = k \<and> fst (try_add c now k) \<and> t < now + ttl c"
proof -
  have ok: "inner_ok (inner c)" "inner_ok (purge_expired now (inner c))"
    "inner_ok (evict_to_capacity (capacity c) (purge_expired now (inner c)))"
    using assms(1) by (auto simp: dedup_inv_def intro: inner_ok_purge inner_ok_evict)
  show ?thesis
  proof (cases "dedup_live c now k")
    case True
    with assms ok show ?thesis
      by (auto simp: try_add_unfold dedup_live_def dest: popped_get_Some)
  next
    case False
    let ?g = "evict_to_capacity (capacity c) (purge_expired now (inner c))"
    have "hm_get (expiry_by_key ?g) k' = Some e \<Longrightarrow> hm_get (expiry_by_key (inner c)) k' = Some e" for e
      using popped_get_Some(2) [OF ok(2)] popped_get_Some(1) [OF ok(1)] by blast
    moreover have "hm_ok (expiry_by_key ?g)" using ok(3) by (simp add: inner_ok_def)
    ultimately show ?thesis
      using assms False
      by (auto simp: try_add_unfold dedup_live_def Let_def hm.get_insert split: if_splits)
  qed
qed

text \<open>A run of the cache on the sequence of calls in the order they get the lock.\<close>

fun try_add_all :: "dedup_cache \<Rightarrow> (instant \<times> rstring) list \<Rightarrow> bool list \<times> dedup_cache" where
  "try_add_all c [] = ([], c)"
| "try_add_all c ((now, k) # es) =
     (let (b, c') = try_add c now k; (bs, c'') = try_add_all c' es in (b # bs, c''))"

locale dedup_contract =
  fixes add :: "'c \<Rightarrow> instant \<Rightarrow> 'k \<Rightarrow> bool \<times> 'c"
    and live :: "'c \<Rightarrow> instant \<Rightarrow> 'k \<Rightarrow> bool"
    and ttl_of :: "'c \<Rightarrow> duration"
    and inv :: "'c \<Rightarrow> bool"
  assumes accepts_iff: "inv c \<Longrightarrow> fst (add c now k) \<longleftrightarrow> \<not> live c now k"
    and add_inv: "inv c \<Longrightarrow> inv (snd (add c now k))"
    and add_ttl: "ttl_of (snd (add c now k)) = ttl_of c"
    and live_after: "inv c \<Longrightarrow> fst (add c now k) \<Longrightarrow> live (snd (add c now k)) t k \<longleftrightarrow> t < now + ttl_of c"
    and live_origin: "inv c \<Longrightarrow> live (snd (add c now k)) t k' \<Longrightarrow>
      live c t k' \<or> k' = k \<and> fst (add c now k) \<and> t < now + ttl_of c"
begin

text \<open>The answers of a run, newest call last.\<close>

fun answers :: "'c \<Rightarrow> (instant \<times> 'k) list \<Rightarrow> bool list" where
  "answers c [] = []"
| "answers c ((now, k) # es) = fst (add c now k) # answers (snd (add c now k)) es"

fun after :: "'c \<Rightarrow> (instant \<times> 'k) list \<Rightarrow> 'c" where
  "after c [] = c"
| "after c ((now, k) # es) = after (snd (add c now k)) es"

lemma after_inv: "inv c \<Longrightarrow> inv (after c es)"
  by (induction c es rule: after.induct) (auto intro: add_inv)

lemma length_answers [simp]: "length (answers c es) = length es"
  by (induction c es rule: answers.induct) auto

lemma answers_nth:
  "i < length es \<Longrightarrow> answers c es ! i = fst (add (after c (take i es)) (fst (es ! i)) (snd (es ! i)))"
proof (induction es arbitrary: c i)
  case (Cons e es)
  then show ?case by (cases e; cases i) auto
qed simp

lemma answers_take: "answers c (take i es) = take i (answers c es)"
proof (induction es arbitrary: c i)
  case (Cons e es)
  then show ?case by (cases e; cases i) auto
qed simp

text \<open>An unexpired entry stems from the start state or from an accepted call.\<close>

lemma live_provenance:
  assumes "inv c" and "live (after c es) t k"
  shows "live c t k \<or>
    (\<exists>i < length es. snd (es ! i) = k \<and> answers c es ! i \<and> t < fst (es ! i) + ttl_of c)"
  using assms
proof (induction c es rule: after.induct)
  case (1 c)
  then show ?case by simp
next
  case (2 c now k' es)
  let ?c = "snd (add c now k')"
  from 2 consider "live ?c t k"
    | i where "i < length es" "snd (es ! i) = k" "answers ?c es ! i" "t < fst (es ! i) + ttl_of c"
    by (auto simp: add_inv add_ttl)
  then show ?case
  proof cases
    case 1
    with "2.prems"(1) consider "live c t k" | "k = k'" "fst (add c now k')" "t < now + ttl_of c"
      using live_origin by blast
    then show ?thesis by cases (auto intro: exI [of _ 0])
  next
    case (2 i)
    then show ?thesis by (auto intro!: exI [of _ "Suc i"])
  qed
qed

lemma rejected_provenance:
  assumes "inv c" and "\<And>t k. \<not> live c t k" and "i < length es" and "\<not> answers c es ! i"
  shows "\<exists>j < i. snd (es ! j) = snd (es ! i) \<and> answers c es ! j \<and> fst (es ! i) < fst (es ! j) + ttl_of c"
proof -
  have "live (after c (take i es)) (fst (es ! i)) (snd (es ! i))"
    using assms(1,3,4) accepts_iff after_inv by (simp add: answers_nth)
  from live_provenance [OF assms(1) this] assms(2,3) show ?thesis
    by (auto simp: answers_take)
qed

end

interpretation dc: dedup_contract try_add dedup_live ttl dedup_inv
  by unfold_locales
    (fact try_add_accepts_iff try_add_inv try_add_frame try_add_live_after try_add_live_origin)+

lemma try_add_all_answers: "try_add_all c es = (dc.answers c es, dc.after c es)"
  by (induction es arbitrary: c) (auto simp: split_beta Let_def)

subsection \<open>Refinement: a bounded list of unexpired entries\<close>

text \<open>
  What the cache is meant to be when the clock does not run backwards: the unexpired entries
  in insertion order, the oldest dropped when there are too many.
\<close>

definition spec_try_add ::
  "nat \<Rightarrow> duration \<Rightarrow> (rstring \<times> instant) list \<Rightarrow> instant \<Rightarrow> rstring \<Rightarrow> bool \<times> (rstring \<times> instant) list" where
  "spec_try_add cap t q now k =
     (let live = filter (\<lambda>p. now < snd p) q in
      if k \<in> fst ` set live then (False, live)
      else (True, drop (Suc (length live) - cap) live @ [(k, now + t)]))"

definition inner_sync :: "dedup_inner \<Rightarrow> bool" where
  "inner_sync g \<longleftrightarrow> hm_ok (expiry_by_key g) \<and> distinct (map fst (insertion_order g)) \<and>
     hm_get (expiry_by_key g) = map_of (insertion_order g)"

definition dedup_sync :: "instant \<Rightarrow> dedup_cache \<Rightarrow> bool" where
  "dedup_sync t c \<longleftrightarrow> inner_sync (inner c) \<and> 1 \<le> capacity c \<and> dedup_len c \<le> capacity c \<and>
     sorted (map snd (insertion_order (inner c))) \<and>
     (\<forall>p \<in> set (insertion_order (inner c)). snd p \<le> t + ttl c)"

lemma inner_sync_ok: "inner_sync g \<Longrightarrow> inner_ok g"
  by (auto simp: inner_sync_def inner_ok_def dest: map_of_SomeD)

lemma dedup_sync_inv: "dedup_sync t c \<Longrightarrow> dedup_inv c"
  by (auto simp: dedup_sync_def dedup_inv_def inner_sync_ok)

lemma inner_sync_len:
  assumes "inner_sync g"
  shows "hm_len (expiry_by_key g) = length (insertion_order g)"
proof -
  have "hm_len (expiry_by_key g) = card (dom (map_of (insertion_order g)))"
    using assms hm.len_card unfolding inner_sync_def by metis
  also have "\<dots> = card (set (map fst (insertion_order g)))"
    by (simp only: dom_map_of_conv_image_fst set_map)
  also have "\<dots> = length (insertion_order g)"
    using assms distinct_card unfolding inner_sync_def by (metis length_map)
  finally show ?thesis .
qed

lemma inner_sync_dequeue:
  assumes "inner_sync g"
  shows "inner_sync (dequeue_one g)"
    and "insertion_order (dequeue_one g) = tl (insertion_order g)"
  using assms
  by (auto simp: inner_sync_def dequeue_one_def Let_def hm.get_remove hm.ok_remove fun_eq_iff
      split: list.splits) (metis map_of_eq_None_iff)

lemma inner_sync_purge:
  assumes "inner_sync g"
  shows "inner_sync (purge_expired now g) \<and>
    insertion_order (purge_expired now g) = dropWhile (\<lambda>p. snd p \<le> now) (insertion_order g)"
  using assms
proof (induction "length (insertion_order g)" arbitrary: g)
  case 0
  then show ?case by (subst (1 2) purge_expired.simps) simp
next
  case (Suc n)
  then obtain k e q where q: "insertion_order g = (k, e) # q"
    by (metis length_Suc_conv surj_pair)
  show ?case
  proof (cases "e \<le> now")
    case True
    with Suc q inner_sync_dequeue [OF Suc.prems]
    show ?thesis by (simp add: purge_expired.simps [of now g])
  next
    case False
    with q Suc.prems show ?thesis by (simp add: purge_expired.simps [of now g])
  qed
qed

lemma inner_sync_evict:
  assumes "inner_sync g" and "1 \<le> cap"
  shows "inner_sync (evict_to_capacity cap g) \<and>
    insertion_order (evict_to_capacity cap g) =
      drop (Suc (length (insertion_order g)) - cap) (insertion_order g)"
  using assms(1)
proof (induction "length (insertion_order g)" arbitrary: g)
  case 0
  then show ?case by (simp add: evict_to_capacity.simps [of cap g])
next
  case (Suc n)
  note len = inner_sync_len [OF Suc.prems]
  show ?case
  proof (cases "cap \<le> Suc n")
    case True
    with Suc inner_sync_dequeue [OF Suc.prems]
    have "inner_sync (evict_to_capacity cap (dequeue_one g)) \<and>
      insertion_order (evict_to_capacity cap (dequeue_one g)) =
        drop (Suc n - cap) (tl (insertion_order g))"
      by (metis diff_Suc_1 length_tl)
    moreover have "Suc (Suc n) - cap = Suc (Suc n - cap)" using True by simp
    ultimately show ?thesis
      using True Suc.hyps(2) len by (auto simp: evict_to_capacity.simps [of cap g] drop_Suc)
  next
    case False
    with Suc len show ?thesis by (simp add: evict_to_capacity.simps [of cap g])
  qed
qed

lemma sorted_dropWhile_filter:
  "sorted (map snd q) \<Longrightarrow> dropWhile (\<lambda>p. snd p \<le> now) q = filter (\<lambda>p. now < snd p) q"
  for q :: "('a \<times> 'b::linorder) list"
proof (induction q)
  case (Cons p q)
  show ?case
  proof (cases "snd p \<le> now")
    case False
    with Cons.prems have "filter (\<lambda>p. now < snd p) (p # q) = p # q"
      by (intro filter_True) (auto simp: not_le)
    with False show ?thesis by simp
  qed (use Cons in auto)
qed simp

text \<open>What the purge leaves, and what an insertion makes of it.\<close>

lemma sync_purged:
  assumes "dedup_sync t c" and "t \<le> now"
  defines "g \<equiv> purge_expired now (inner c)"
    and "live \<equiv> filter (\<lambda>p. now < snd p) (insertion_order (inner c))"
  shows "inner_sync g" and "insertion_order g = live" and "sorted (map snd live)"
    and "length live \<le> capacity c" and "\<forall>p \<in> set live. snd p \<le> now + ttl c"
    and "dedup_live c now k \<longleftrightarrow> k \<in> fst ` set live"
proof -
  from assms(1) have sorted: "sorted (map snd (insertion_order (inner c)))"
    and isync: "inner_sync (inner c)"
    and len: "length (insertion_order (inner c)) \<le> capacity c"
    and bound: "\<forall>p \<in> set (insertion_order (inner c)). snd p \<le> t + ttl c"
    by (auto simp: dedup_sync_def dedup_len_def inner_sync_len)
  show "inner_sync g" "insertion_order g = live"
    using inner_sync_purge [OF isync, of now] sorted_dropWhile_filter [OF sorted, of now]
    by (auto simp: g_def live_def)
  show "sorted (map snd live)" using sorted by (simp add: live_def sorted_filter)
  show "length live \<le> capacity c"
    using length_filter_le len unfolding live_def by (rule order_trans)
  show "\<forall>p \<in> set live. snd p \<le> now + ttl c" using bound assms(2) by (fastforce simp: live_def)
  have "dedup_live c now k \<longleftrightarrow> (\<exists>e. (k, e) \<in> set (insertion_order (inner c)) \<and> now < e)"
    using isync by (auto simp: dedup_live_def inner_sync_def dest: map_of_SomeD)
  then show "dedup_live c now k \<longleftrightarrow> k \<in> fst ` set live" by (force simp: live_def)
qed

lemma sync_inserted:
  assumes "inner_sync g" and "insertion_order g = live" and "sorted (map snd live)" and "1 \<le> cap"
    and "\<forall>p \<in> set live. snd p \<le> e" and "k \<notin> fst ` set live"
  defines "h \<equiv> evict_to_capacity cap g" and "q \<equiv> drop (Suc (length live) - cap) live"
  shows "insertion_order h = q"
    and "inner_sync (h\<lparr>expiry_by_key := hm_insert k e (expiry_by_key h), insertion_order := q @ [(k, e)]\<rparr>)"
    and "sorted (map snd (q @ [(k, e)]))" and "length (q @ [(k, e)]) \<le> cap"
    and "\<forall>p \<in> set (q @ [(k, e)]). snd p \<le> e"
proof -
  have h: "inner_sync h" "insertion_order h = q"
    using inner_sync_evict [OF assms(1,4)] assms(2) by (auto simp: h_def q_def)
  then show "insertion_order h = q" by simp
  have q: "set q \<subseteq> set live" by (auto simp: q_def dest: in_set_dropD)
  then have kq: "k \<notin> fst ` set q" using assms(6) by blast
  show "inner_sync (h\<lparr>expiry_by_key := hm_insert k e (expiry_by_key h), insertion_order := q @ [(k, e)]\<rparr>)"
    using h kq by (auto simp: inner_sync_def hm.ok_insert hm.get_insert map_add_upd_left
        dom_map_of_conv_image_fst)
  have "sorted (map snd q)" using assms(3) by (simp add: q_def drop_map [symmetric] sorted_wrt_drop)
  then show "sorted (map snd (q @ [(k, e)]))"
    using assms(5) q by (auto simp: sorted_append)
  show "length (q @ [(k, e)]) \<le> cap" using assms(4) by (simp add: q_def)
  show "\<forall>p \<in> set (q @ [(k, e)]). snd p \<le> e" using assms(5) q by auto
qed

text \<open>One call refines one call of the abstract cache.\<close>

lemma try_add_spec:
  assumes "dedup_sync t c" and "t \<le> now"
  shows "(fst (try_add c now k), insertion_order (inner (snd (try_add c now k)))) =
      spec_try_add (capacity c) (ttl c) (insertion_order (inner c)) now k"
    and "dedup_sync now (snd (try_add c now k))"
proof -
  note purged = sync_purged [OF assms]
  note unf = try_add_unfold [OF dedup_sync_inv [OF assms(1)], of now k]
  have cap: "1 \<le> capacity c" using assms(1) by (simp add: dedup_sync_def)
  show "(fst (try_add c now k), insertion_order (inner (snd (try_add c now k)))) =
      spec_try_add (capacity c) (ttl c) (insertion_order (inner c)) now k"
    using purged(2,6) inner_sync_evict [OF purged(1) cap]
    by (simp add: unf spec_try_add_def Let_def)
  show "dedup_sync now (snd (try_add c now k))"
  proof (cases "dedup_live c now k")
    case True
    with purged(1-5) cap show ?thesis
      by (simp add: unf dedup_sync_def dedup_len_def inner_sync_len)
  next
    case False
    then have "k \<notin> fst ` set (filter (\<lambda>p. now < snd p) (insertion_order (inner c)))"
      by (simp only: purged(6) not_False_eq_True)
    note ins = sync_inserted [OF purged(1,2,3) cap purged(5) this]
    show ?thesis
      using False cap ins(2-5) inner_sync_len [OF ins(2)]
      by (simp add: unf dedup_sync_def dedup_len_def Let_def ins(1))
  qed
qed

subsection \<open>How long a key is remembered\<close>

text \<open>
  For any clock, the queue entries of one key carry strictly increasing expiries, and the map holds the last
  of them. So a stale entry in front can never remove the current one.
\<close>

definition expiries :: "rstring \<Rightarrow> (rstring \<times> instant) list \<Rightarrow> instant list" where
  "expiries k q = map snd (filter (\<lambda>p. fst p = k) q)"

lemma expiries_simps [simp]:
  "expiries k [] = []"
  "expiries k (p # q) = (if fst p = k then snd p # expiries k q else expiries k q)"
  "expiries k (q @ q') = expiries k q @ expiries k q'"
  by (simp_all add: expiries_def)

lemma expiries_Nil_iff: "expiries k q = [] \<longleftrightarrow> k \<notin> fst ` set q"
  by (auto simp: expiries_def filter_empty_conv)

definition inner_mono :: "dedup_inner \<Rightarrow> bool" where
  "inner_mono g \<longleftrightarrow> hm_ok (expiry_by_key g) \<and>
     (\<forall>k. let xs = expiries k (insertion_order g) in
        sorted_wrt (<) xs \<and> hm_get (expiry_by_key g) k = (if xs = [] then None else Some (last xs)))"

lemma inner_mono_ok: "inner_mono g \<Longrightarrow> inner_ok g"
proof -
  assume mono: "inner_mono g"
  have "(k, e) \<in> set (insertion_order g)" if "hm_get (expiry_by_key g) k = Some e" for k e
  proof -
    have "e \<in> set (expiries k (insertion_order g))"
      using mono that by (auto simp: inner_mono_def Let_def split: if_splits)
    then show ?thesis by (auto simp: expiries_def)
  qed
  with mono show ?thesis by (auto simp: inner_ok_def inner_mono_def)
qed

lemma inner_mono_dequeue:
  assumes "inner_mono g"
  shows "inner_mono (dequeue_one g)"
proof (cases "insertion_order g")
  case (Cons p q)
  obtain k0 e0 where p: "p = (k0, e0)" by fastforce
  have "sorted_wrt (<) (expiries k0 (insertion_order g))" using assms by (auto simp: inner_mono_def Let_def)
  then have own: "e0 < last (expiries k0 q)" if "expiries k0 q \<noteq> []" using that Cons p by simp
  show ?thesis
  proof (cases "expiries k0 q = []")
    case True
    with assms Cons p show ?thesis
      by (auto simp: inner_mono_def dequeue_one_def Let_def hm.get_remove hm.ok_remove split: if_splits)
  next
    case False
    with assms own Cons p have "hm_get (expiry_by_key g) k0 \<noteq> Some e0"
      by (auto simp: inner_mono_def Let_def dest!: spec [of _ k0])
    with False assms Cons p show ?thesis
      by (auto simp: inner_mono_def dequeue_one_def Let_def split: if_splits)
  qed
qed (use assms in \<open>simp add: dequeue_one_def\<close>)

lemma inner_mono_len:
  assumes "inner_mono g"
  shows "hm_len (expiry_by_key g) \<le> length (insertion_order g)"
proof -
  have "dom (hm_get (expiry_by_key g)) = set (map fst (insertion_order g))"
    using assms by (auto simp: inner_mono_def Let_def dom_def expiries_Nil_iff)
  then have "hm_len (expiry_by_key g) = card (set (map fst (insertion_order g)))"
    using assms hm.len_card unfolding inner_mono_def by metis
  then show ?thesis by (metis card_length length_map)
qed

text \<open>The entry \<open>(k, e)\<close> is in the queue, is its key's last, and has at most \<open>n\<close> insertions behind it.\<close>

definition remembered :: "rstring \<Rightarrow> instant \<Rightarrow> nat \<Rightarrow> dedup_inner \<Rightarrow> bool" where
  "remembered k e n g \<longleftrightarrow>
     (\<exists>pre post. insertion_order g = pre @ (k, e) # post \<and> expiries k post = [] \<and> length post \<le> n)"

lemma remembered_get: "inner_mono g \<Longrightarrow> remembered k e n g \<Longrightarrow> hm_get (expiry_by_key g) k = Some e"
  by (auto simp: inner_mono_def remembered_def Let_def dest!: spec [of _ k])

lemma remembered_snoc:
  assumes "remembered k e n g" and "k' \<noteq> k" and "insertion_order g' = insertion_order g @ [(k', e')]"
  shows "remembered k e (Suc n) g'"
proof -
  from assms(1) obtain pre post where "insertion_order g = pre @ (k, e) # post" "expiries k post = []" "length post \<le> n"
    by (auto simp: remembered_def)
  with assms(2,3) show ?thesis
    unfolding remembered_def by (intro exI [of _ pre] exI [of _ "post @ [(k', e')]"]) simp
qed

lemma remembered_dequeue:
  assumes "remembered k e n g"
  shows "remembered k e n (dequeue_one g) \<or>
    (\<exists>q. insertion_order g = (k, e) # q \<and> length q \<le> n)"
proof -
  from assms obtain pre post where q: "insertion_order g = pre @ (k, e) # post" "expiries k post = []" "length post \<le> n"
    by (auto simp: remembered_def)
  show ?thesis
  proof (cases pre)
    case (Cons p pre')
    then have "insertion_order (dequeue_one g) = pre' @ (k, e) # post"
      using q by (auto simp: dequeue_one_def Let_def split: prod.splits)
    with q show ?thesis by (auto simp: remembered_def)
  qed (use q in auto)
qed

lemma remembered_purge:
  assumes "inner_mono g" and "remembered k e n g" and "now < e"
  shows "inner_mono (purge_expired now g) \<and> remembered k e n (purge_expired now g)"
proof (rule purge_expired_rule)
  fix g k' e' q
  assume *: "inner_mono g \<and> remembered k e n g" "insertion_order g = (k', e') # q" "e' \<le> now"
  then show "inner_mono (dequeue_one g) \<and> remembered k e n (dequeue_one g)"
    using remembered_dequeue [of k e n g] assms(3) by (auto intro: inner_mono_dequeue)
qed (use assms in simp)

lemma remembered_evict:
  assumes "inner_mono g" and "remembered k e n g"
  shows "inner_mono (evict_to_capacity cap g) \<and> (remembered k e n (evict_to_capacity cap g) \<or> cap \<le> Suc n)"
proof (rule evict_to_capacity_rule)
  fix g
  assume *: "inner_mono g \<and> (remembered k e n g \<or> cap \<le> Suc n)" "cap \<le> hm_len (expiry_by_key g)"
  then have "cap \<le> length (insertion_order g)" using inner_mono_len order_trans by blast
  with * show "inner_mono (dequeue_one g) \<and> (remembered k e n (dequeue_one g) \<or> cap \<le> Suc n)"
    using remembered_dequeue [of k e n g] by (auto intro: inner_mono_dequeue)
qed (use assms in simp)

lemma inner_mono_purge: "inner_mono g \<Longrightarrow> inner_mono (purge_expired now g)"
  by (rule purge_expired_rule) (auto intro: inner_mono_dequeue)

lemma inner_mono_evict: "inner_mono g \<Longrightarrow> inner_mono (evict_to_capacity cap g)"
  by (rule evict_to_capacity_rule) (auto intro: inner_mono_dequeue)

lemma inner_mono_insert:
  assumes "inner_mono g" and "\<And>x. hm_get (expiry_by_key g) k = Some x \<Longrightarrow> x < e"
  shows "inner_mono (g\<lparr>expiry_by_key := hm_insert k e (expiry_by_key g),
    insertion_order := insertion_order g @ [(k, e)]\<rparr>)"
proof -
  have "x < e" if "x \<in> set (expiries k (insertion_order g))" for x
  proof -
    from that have "expiries k (insertion_order g) \<noteq> []" by auto
    then obtain ys y where ys: "expiries k (insertion_order g) = ys @ [y]" by (metis rev_exhaust)
    moreover have "sorted_wrt (<) (ys @ [y])" "y < e"
      using assms ys by (auto simp: inner_mono_def Let_def dest!: spec [of _ k])
    ultimately show ?thesis using that by (auto simp: sorted_wrt_append)
  qed
  with assms(1) show ?thesis
    by (auto simp: inner_mono_def Let_def hm.ok_insert hm.get_insert sorted_wrt_append)
qed

definition dedup_mono :: "dedup_cache \<Rightarrow> bool" where
  "dedup_mono c \<longleftrightarrow> dedup_inv c \<and> inner_mono (inner c) \<and> 0 < ttl c"

lemma dedup_new_mono: "dedup_new cap t = Some c \<Longrightarrow> 0 < t \<Longrightarrow> dedup_mono c"
  using dedup_new_inv [of cap t c]
  by (auto simp: dedup_new_def dedup_mono_def inner_mono_def hm_ok_def hm_get_def split: if_splits)

lemma try_add_mono:
  assumes "dedup_mono c"
  shows "dedup_mono (snd (try_add c now k))"
proof (cases "dedup_live c now k")
  case True
  with assms try_add_inv [of c now k] show ?thesis
    by (auto simp: dedup_mono_def try_add_unfold intro: inner_mono_purge)
next
  case False
  define g where "g = evict_to_capacity (capacity c) (purge_expired now (inner c))"
  have mono: "inner_mono g" using assms by (simp add: g_def dedup_mono_def inner_mono_evict inner_mono_purge)
  have "x < now + ttl c" if "hm_get (expiry_by_key g) k = Some x" for x
  proof -
    have ok: "inner_ok (inner c)" using assms by (auto simp: dedup_mono_def intro: inner_mono_ok)
    then have "hm_get (expiry_by_key (inner c)) k = Some x"
      using that popped_get_Some(1) [OF ok] popped_get_Some(2) [OF inner_ok_purge [OF ok]] unfolding g_def by blast
    with False have "x \<le> now" by (auto simp: dedup_live_def not_less)
    with assms show ?thesis by (simp add: dedup_mono_def)
  qed
  with inner_mono_insert [OF mono] assms False try_add_inv [of c now k] show ?thesis
    by (auto simp: dedup_mono_def try_add_unfold Let_def g_def [symmetric])
qed

text \<open>One call, with any clock value below the expiry: the entry stays, or enough insertions have pushed it out.\<close>

lemma try_add_remembers:
  assumes "dedup_mono c" and "remembered k e n (inner c)" and "now < e"
  shows "remembered k e (if fst (try_add c now k') then Suc n else n) (inner (snd (try_add c now k'))) \<or>
    fst (try_add c now k') \<and> capacity c \<le> Suc n"
proof -
  have inv: "dedup_inv c" and mono: "inner_mono (inner c)" using assms(1) by (auto simp: dedup_mono_def)
  note purged = remembered_purge [OF mono assms(2,3)]
  show ?thesis
  proof (cases "dedup_live c now k'")
    case True
    with purged inv show ?thesis by (simp add: try_add_unfold)
  next
    case False
    have "k' \<noteq> k" using False remembered_get [OF mono assms(2)] assms(3) by (auto simp: dedup_live_def)
    moreover have "remembered k e n (evict_to_capacity (capacity c) (purge_expired now (inner c))) \<or> capacity c \<le> Suc n"
      using remembered_evict purged by blast
    ultimately show ?thesis
      using inv False remembered_snoc by (auto simp: try_add_unfold Let_def)
  qed
qed

lemma try_add_all_mono:
  "dedup_mono c \<Longrightarrow> try_add_all c es = (bs, c') \<Longrightarrow> dedup_mono c' \<and> capacity c' = capacity c \<and> ttl c' = ttl c"
proof (induction es arbitrary: c bs)
  case (Cons x es)
  obtain now k where x: "x = (now, k)" by fastforce
  obtain b c1 where bc: "try_add c now k = (b, c1)" by fastforce
  obtain bs1 where rest: "try_add_all c1 es = (bs1, c')"
    using Cons.prems(2) x bc by (auto simp: Let_def split: prod.splits)
  from Cons.IH [OF _ rest] try_add_mono [OF Cons.prems(1), of now k] try_add_frame [of c now k] bc
  show ?case by simp
qed simp

lemma try_add_all_remembers:
  assumes "dedup_mono c" and "remembered k e n (inner c)" and "\<forall>x \<in> set es. fst x < e"
    and "try_add_all c es = (bs, c')"
  shows "dedup_mono c' \<and> (remembered k e (n + length (filter (\<lambda>b. b) bs)) (inner c') \<or>
    capacity c \<le> n + length (filter (\<lambda>b. b) bs))"
  using assms
proof (induction es arbitrary: c n bs)
  case (Cons x es)
  obtain now k' where x: "x = (now, k')" by fastforce
  obtain b c1 where bc: "try_add c now k' = (b, c1)" by fastforce
  obtain bs1 where rest: "try_add_all c1 es = (bs1, c')" and bs: "bs = b # bs1"
    using Cons.prems(4) x bc by (auto simp: Let_def split: prod.splits)
  have c1: "dedup_mono c1" "capacity c1 = capacity c"
    using try_add_mono [OF Cons.prems(1), of now k'] try_add_frame(1) [of c now k'] bc by auto
  have "now < e" using Cons.prems(3) x by simp
  from try_add_remembers [OF Cons.prems(1,2) this, of k'] bc
  consider "remembered k e (if b then Suc n else n) (inner c1)" | "b" "capacity c \<le> Suc n" by auto
  then show ?case
  proof cases
    case 1
    then show ?thesis using Cons.IH [OF c1(1) 1 _ rest] Cons.prems(3) bs c1(2) by (auto split: if_splits)
  next
    case 2
    with try_add_all_mono [OF c1(1) rest] bs show ?thesis by simp
  qed
qed simp

subsection \<open>Properties\<close>

lemma dedup_new_sync: "dedup_new cap t = Some c \<Longrightarrow> dedup_sync 0 c \<and> capacity c = cap \<and> ttl c = t"
  by (auto simp: dedup_new_def dedup_sync_def inner_sync_def dedup_len_def hm_ok_def hm_len_def
      hm_get_def fun_eq_iff split: if_splits)

lemma dedup_new_not_live: "dedup_new cap t = Some c \<Longrightarrow> \<not> dedup_live c now k"
  by (auto simp: dedup_new_def dedup_live_def hm_get_def split: if_splits)

lemma accepted_twice:
  assumes "dedup_new cap t = Some c" and "0 < t"
    and "\<forall>x \<in> set mid. fst x < t1 + t" and "t2 < t1 + t"
    and "try_add_all c pre = (bs0, c0)" and "try_add c0 t1 k = (True, c1)"
    and "try_add_all c1 mid = (bs, c2)" and "try_add c2 t2 k = (True, c3)"
  shows "cap \<le> length (filter (\<lambda>b. b) bs)"
proof -
  have new: "dedup_mono c" "capacity c = cap" "ttl c = t" using dedup_new_mono [OF assms(1,2)] dedup_new_sync [OF assms(1)] by auto
  have c0: "dedup_mono c0" "capacity c0 = cap" "ttl c0 = t" using try_add_all_mono [OF new(1) assms(5)] new by auto
  have c1: "dedup_mono c1" "capacity c1 = cap"
    using try_add_mono [OF c0(1), of t1 k] try_add_frame(1) [of c0 t1 k] assms(6) c0 by auto
  have "remembered k (t1 + t) 0 (inner c1)"
    using c0 assms(6) by (auto simp: dedup_mono_def try_add_unfold Let_def remembered_def split: if_splits)
  from try_add_all_remembers [OF c1(1) this assms(3,7)] c1(2)
  have c2: "dedup_mono c2" "remembered k (t1 + t) (length (filter (\<lambda>b. b) bs)) (inner c2) \<or> cap \<le> length (filter (\<lambda>b. b) bs)"
    by auto
  have "\<not> remembered k (t1 + t) n (inner c2)" for n
  proof
    assume "remembered k (t1 + t) n (inner c2)"
    then have "dedup_live c2 t2 k"
      using remembered_get c2(1) assms(4) by (auto simp: dedup_mono_def dedup_live_def)
    with dc.accepts_iff [of c2 t2 k] c2(1) assms(8) show False by (simp add: dedup_mono_def)
  qed
  with c2(2) show ?thesis by blast
qed

text \<open>
  One call of \<^verbatim>\<open>try_add\<close>, whatever the clock value it read: it answers \<^verbatim>\<open>true\<close> exactly when
  the cache holds no unexpired entry for the key, it keeps the invariant (in particular at most
  \<^verbatim>\<open>capacity\<close> entries), and after \<^verbatim>\<open>true\<close> the key counts as seen exactly until \<^verbatim>\<open>now + ttl\<close>.
\<close>

theorem try_add_decides:
  assumes "dedup_inv c"
  shows "(fst (try_add c now k) \<longleftrightarrow> \<not> dedup_live c now k) \<and> dedup_inv (snd (try_add c now k)) \<and>
    (fst (try_add c now k) \<longrightarrow> (\<forall>t. dedup_live (snd (try_add c now k)) t k \<longleftrightarrow> t < now + ttl c))"
  using assms by (simp add: dc.accepts_iff dc.add_inv dc.live_after)

theorem try_add_decides_witness:
  "\<exists>c. dedup_new 2 600 = Some c \<and> dedup_inv c \<and> fst (try_add c 5 (str ''k1'')) \<and>
     dedup_live (snd (try_add c 5 (str ''k1''))) 604 (str ''k1'')"
proof -
  obtain c where c: "dedup_new 2 600 = Some c" by (simp add: dedup_new_def)
  note facts = dedup_new_inv [OF c] dedup_new_not_live [OF c] dedup_new_sync [OF c]
  show ?thesis
    using c facts try_add_decides [OF facts(1), of 5 "str ''k1''"] by auto
qed

text \<open>
  The cache is bounded: after any number of calls with any clock values, in any order,
  at most \<^verbatim>\<open>capacity\<close> keys are stored.
\<close>

theorem dedup_bounded:
  assumes "dedup_new cap t = Some c"
  shows "dedup_len (snd (try_add_all c es)) \<le> cap"
proof -
  have "dedup_inv (dc.after c es) \<and> capacity (dc.after c es) = capacity c" if "dedup_inv c" for c
    using that by (induction c es rule: dc.after.induct) (auto simp: try_add_inv)
  from this [OF dedup_new_inv [OF assms]] dedup_new_sync [OF assms] show ?thesis
    by (simp add: try_add_all_answers dedup_inv_def)
qed

theorem dedup_bounded_witness:
  "\<exists>c. dedup_new 2 3600 = Some c \<and>
     dedup_len (snd (try_add_all c [(1, str ''a''), (1, str ''b''), (0, str ''c''), (1, str ''a'')])) \<le> 2"
proof -
  obtain c where c: "dedup_new 2 3600 = Some c" by (simp add: dedup_new_def)
  show ?thesis using c dedup_bounded [OF c] by blast
qed

text \<open>
  No false suppression: a key is refused only if an earlier call with the same key was
  accepted and had not yet expired, again for any clock values.
\<close>

theorem dedup_no_false_drop:
  assumes "dedup_new cap t = Some c" and "try_add_all c es = (bs, c')"
    and "i < length es" and "\<not> bs ! i"
  shows "\<exists>j < i. snd (es ! j) = snd (es ! i) \<and> bs ! j \<and> fst (es ! i) < fst (es ! j) + t"
  using dc.rejected_provenance [OF dedup_new_inv [OF assms(1)] dedup_new_not_live [OF assms(1)] assms(3)]
    assms(2,4) dedup_new_sync [OF assms(1)]
  by (simp add: try_add_all_answers)

theorem dedup_no_false_drop_witness:
  "\<exists>c. dedup_new 10 600 = Some c \<and>
     fst (try_add_all c [(1, str ''k''), (7, str ''k'')]) = [True, False] \<and>
     (\<exists>j < 1. [True, False] ! j \<and> (7::nat) < fst ([(1, str ''k''), (7, str ''k'')] ! j) + 600)"
proof -
  let ?c = "the (dedup_new 10 600)"
  have run: "dedup_new 10 600 = Some ?c \<and> fst (try_add_all ?c [(1, str ''k''), (7, str ''k'')]) = [True, False]"
    by code_simp
  then obtain c' where c': "try_add_all ?c [(1, str ''k''), (7, str ''k'')] = ([True, False], c')"
    by (metis prod.collapse)
  show ?thesis
    using run dedup_no_false_drop [OF conjunct1 [OF run] c', of 1] by (intro exI [of _ ?c]) auto
qed

text \<open>
  Property C9. Refinement: with a clock that does not run backwards, one call does to the insertion
  queue, and answers, exactly what the abstract cache does, a list of unexpired entries
  in insertion order whose oldest members make room; the simulation relation is kept.
\<close>

theorem try_add_refines:
  assumes "dedup_sync t c" and "t \<le> now"
  shows "(fst (try_add c now k), insertion_order (inner (snd (try_add c now k)))) =
      spec_try_add (capacity c) (ttl c) (insertion_order (inner c)) now k \<and>
    dedup_sync now (snd (try_add c now k))"
  using try_add_spec [OF assms] by simp

theorem try_add_refines_witness:
  "\<exists>c. dedup_new 2 600 = Some c \<and> dedup_sync 0 c \<and>
     (fst (try_add c 5 (str ''a'')), insertion_order (inner (snd (try_add c 5 (str ''a''))))) =
       spec_try_add 2 600 [] 5 (str ''a'')"
proof -
  obtain c where c: "dedup_new 2 600 = Some c" by (simp add: dedup_new_def)
  then have "insertion_order (inner c) = []" by (auto simp: dedup_new_def)
  with c dedup_new_sync [OF c] try_add_refines [of 0 c 5 "str ''a''"] show ?thesis by auto
qed

text \<open>
  At most once, for any clock: after a call accepted a key at \<open>t1\<close>, as long as no later call has read a clock
  value at which that entry has expired, the same key is accepted a second time only if at least \<^verbatim>\<open>capacity\<close>
  other insertions were accepted in between. The memory bound is the only way a duplicate gets through, and
  calls that overtake each other between the clock and the lock do not change that.
\<close>

theorem dedup_at_most_once:
  assumes "dedup_new cap t = Some c" and "0 < t"
    and "\<forall>x \<in> set mid. fst x < t1 + t" and "t2 < t1 + t"
    and "try_add_all c pre = (bs0, c0)" and "try_add c0 t1 k = (True, c1)"
    and "try_add_all c1 mid = (bs, c2)" and "try_add c2 t2 k = (True, c3)"
  shows "cap \<le> length (filter (\<lambda>b. b) bs)"
  using assms by (rule accepted_twice)

theorem dedup_at_most_once_witness:
  "\<exists>c. dedup_new 1 600 = Some c \<and>
     fst (try_add_all c [(1, str ''k''), (2, str ''x''), (3, str ''k'')]) = [True, True, True] \<and>
     (1::nat) \<le> length (filter (\<lambda>b. b) [True])"
proof -
  define c where "c = the (dedup_new 1 600)"
  define c1 where "c1 = snd (try_add c 1 (str ''k''))"
  define c2 where "c2 = snd (try_add_all c1 [(2, str ''x'')])"
  define c3 where "c3 = snd (try_add c2 3 (str ''k''))"
  have run: "dedup_new 1 600 = Some c" "try_add c 1 (str ''k'') = (True, c1)"
    "try_add_all c1 [(2, str ''x'')] = ([True], c2)" "try_add c2 3 (str ''k'') = (True, c3)"
    unfolding c_def c1_def c2_def c3_def by code_simp+
  have "(1::nat) \<le> length (filter (\<lambda>b. b) [True])"
    by (rule dedup_at_most_once [OF run(1) _ _ _ _ run(2,3,4), where pre = "[]" and ?bs0.0 = "[]"])
      simp_all
  moreover have "fst (try_add_all c [(1, str ''k''), (2, str ''x''), (3, str ''k'')]) = [True, True, True]"
    using run by (simp add: Let_def split: prod.splits)
  ultimately show ?thesis using run(1) by blast
qed

text \<open>
  The purge loop's comment takes the queue to be ordered by expiry. Since the clock is read
  before the lock, two overlapping calls can insert out of order: here the second one read an
  earlier clock value, the queue is not ordered, and later the expired key \<open>b\<close> stays
  counted behind the unexpired \<open>a\<close>. A new call for \<open>b\<close> is accepted all the same.
\<close>

theorem dedup_race_unordered:
  "\<exists>c. dedup_new 10 10 = Some c \<and>
     (let c2 = snd (try_add_all c [(5, str ''a''), (3, str ''b'')]) in
      \<not> sorted (map snd (insertion_order (inner c2))) \<and>
      fst (try_add c2 14 (str ''c'')) \<and> dedup_len (snd (try_add c2 14 (str ''c''))) = 3 \<and>
      \<not> dedup_live c2 14 (str ''b'') \<and> fst (try_add c2 14 (str ''b'')))"
proof -
  define c where "c = the (dedup_new 10 10)"
  define c2 where "c2 = snd (try_add_all c [(5, str ''a''), (3, str ''b'')])"
  have c: "dedup_new 10 10 = Some c" unfolding c_def by code_simp
  have inv: "dedup_inv c2"
    unfolding c2_def try_add_all_answers snd_conv by (rule dc.after_inv [OF dedup_new_inv [OF c]])
  have facts: "\<not> sorted (map snd (insertion_order (inner c2)))" "fst (try_add c2 14 (str ''c''))"
    "dedup_len (snd (try_add c2 14 (str ''c''))) = 3" "fst (try_add c2 14 (str ''b''))"
    unfolding c2_def c_def by code_simp+
  moreover have "\<not> dedup_live c2 14 (str ''b'')" using dc.accepts_iff [OF inv] facts(4) by blast
  ultimately show ?thesis using c unfolding Let_def c2_def by blast
qed

end
