(* ===== verification/Model.thy ===== *)
theory Model
  imports Prelude
begin

section \<open>Events and acknowledgements (\<^verbatim>\<open>model.rs\<close>, \<^verbatim>\<open>ack.rs\<close>)\<close>

text \<open>
  The normalized event the pipeline consumes, and the acknowledgement it publishes. Field names
  are the source's; those of \<^verbatim>\<open>AckPayload\<close> that another struct also has are prefixed by \<open>ack\<close>.
\<close>

datatype priority = Normal | Important | Critical

datatype image_shape = Circle | Square

record image_ref =
  img_url :: rstring
  img_shape :: image_shape

record inbound_notification =
  seq :: u64
  event_id :: rstring
  user_id :: rstring
  title :: rstring
  message :: rstring
  secondary_text :: "rstring option"
  action_label :: "rstring option"
  action_url :: "rstring option"
  image :: "image_ref option"
  priority :: priority
  aggregation_key :: rstring
  deduplication_key :: rstring
  replaceable :: bool
  producer_created_at :: "datetime option"
  server_published_at :: "datetime option"
  received_at :: datetime

subsection \<open>Acknowledgements\<close>

definition OBSERVED_BY_AGENT :: rstring where
  "OBSERVED_BY_AGENT = str ''observed_by_agent''"

definition SUBMITTED_TO_WINDOWS :: rstring where
  "SUBMITTED_TO_WINDOWS = str ''submitted_to_windows''"

record ack_payload =
  ack_event_id :: rstring
  ack_device_id :: rstring
  agent_received_at :: datetime
  toast_submitted_at :: "datetime option"
  status :: rstring

text \<open>
  \<^verbatim>\<open>serialize\<close> hands the struct to \<^verbatim>\<open>serde_json::to_vec\<close>, the parameter \<open>to_vec\<close>. What the derived
  \<^verbatim>\<open>Serialize\<close> passes on is the list of the fields in declaration order under their camelCase names,
  without \<^verbatim>\<open>toast_submitted_at\<close> when it is \<^verbatim>\<open>None\<close> (the two \<^verbatim>\<open>serde\<close> attributes).
\<close>

datatype ack_value = AckString rstring | AckTime datetime

definition ack_fields :: "ack_payload \<Rightarrow> (rstring \<times> ack_value) list" where
  "ack_fields a =
     [(str ''eventId'', AckString (ack_event_id a)),
      (str ''deviceId'', AckString (ack_device_id a)),
      (str ''agentReceivedAt'', AckTime (agent_received_at a))] @
     (case toast_submitted_at a of
        None \<Rightarrow> []
      | Some t \<Rightarrow> [(str ''toastSubmittedAt'', AckTime t)]) @
     [(str ''status'', AckString (status a))]"

definition ack_serialize :: "((rstring \<times> ack_value) list \<Rightarrow> u8 list) \<Rightarrow> ack_payload \<Rightarrow> u8 list" where
  "ack_serialize to_vec a = to_vec (ack_fields a)"

text \<open>Reading the wire fields back, as a backend does: the contract of the acknowledgement.\<close>

definition ack_of_fields :: "(rstring \<times> ack_value) list \<Rightarrow> ack_payload option" where
  "ack_of_fields fs =
     (case (map_of fs (str ''eventId''), map_of fs (str ''deviceId''),
            map_of fs (str ''agentReceivedAt''), map_of fs (str ''status'')) of
        (Some (AckString e), Some (AckString d), Some (AckTime r), Some (AckString s)) \<Rightarrow>
          (case map_of fs (str ''toastSubmittedAt'') of
             None \<Rightarrow> Some \<lparr>ack_event_id = e, ack_device_id = d, agent_received_at = r,
                          toast_submitted_at = None, status = s\<rparr>
           | Some (AckTime t) \<Rightarrow> Some \<lparr>ack_event_id = e, ack_device_id = d, agent_received_at = r,
                          toast_submitted_at = Some t, status = s\<rparr>
           | Some (AckString _) \<Rightarrow> None)
      | _ \<Rightarrow> None)"

text \<open>
  The acknowledgement on the wire: four fields, five when a toast was submitted, under
  distinct names, and every field of the payload can be read back from them.
\<close>

theorem ack_roundtrip:
  "ack_of_fields (ack_fields a) = Some a \<and> distinct (map fst (ack_fields a)) \<and>
   length (ack_fields a) = (if toast_submitted_at a = None then 4 else 5)"
  by (cases "toast_submitted_at a")
    (simp_all add: ack_of_fields_def ack_fields_def str_def)

end
