(* ===== verification/Action_Url.thy ===== *)
theory Action_Url
  imports Prelude
begin

section \<open>URL policy (\<^verbatim>\<open>action_url.rs\<close>)\<close>

text \<open>
  The \<^verbatim>\<open>url\<close> crate is not part of the repository: \<^verbatim>\<open>Url::parse\<close> is the parameter \<open>url_parse\<close>, and a
  parsed URL is the record of the accessors the agent calls. \<open>url_roundtrip\<close> is the crate's
  documented law that a serialized URL parses to itself.
\<close>

datatype url_host = Domain rstring | Ipv4 "32 word" | Ipv6 "128 word"

record url =
  url_scheme :: rstring
  url_username :: rstring
  url_password :: "rstring option"
  url_host_str :: "rstring option"
  url_host :: "url_host option"
  url_as_str :: rstring

type_synonym url_parser = "rstring \<Rightarrow> url option"

definition url_roundtrip :: "url_parser \<Rightarrow> bool" where
  "url_roundtrip p \<longleftrightarrow> (\<forall>s u. p s = Some u \<longrightarrow> p (url_as_str u) = Some u)"

definition MAX_URL_LENGTH :: nat where
  "MAX_URL_LENGTH = 2048"

definition validate :: "url_parser \<Rightarrow> rstring \<Rightarrow> url option" where
  "validate url_parse value =
     (if trim value = [] \<or> utf8_len value > MAX_URL_LENGTH then None
      else case url_parse value of
        None \<Rightarrow> None
      | Some parsed \<Rightarrow>
          if url_scheme parsed \<noteq> str ''https'' then None
          else if (case url_host_str parsed of None \<Rightarrow> True | Some h \<Rightarrow> h = []) then None
          else if url_username parsed \<noteq> [] \<or> url_password parsed \<noteq> None then None
          else case url_host parsed of
              Some (Domain _) \<Rightarrow> Some parsed
            | Some (Ipv4 _) \<Rightarrow> Some parsed
            | Some (Ipv6 _) \<Rightarrow> Some parsed
            | None \<Rightarrow> None)"

text \<open>The policy as a predicate on the parsed URL.\<close>

definition safe_url :: "url \<Rightarrow> bool" where
  "safe_url u \<longleftrightarrow> url_scheme u = str ''https'' \<and> (\<exists>h. url_host_str u = Some h \<and> h \<noteq> []) \<and>
     url_username u = [] \<and> url_password u = None \<and> url_host u \<noteq> None"

lemma validate_iff:
  "validate p v = Some u \<longleftrightarrow>
     trim v \<noteq> [] \<and> utf8_len v \<le> MAX_URL_LENGTH \<and> p v = Some u \<and> safe_url u"
  by (auto simp: validate_def safe_url_def split: option.splits url_host.splits if_splits)

lemma validate_Some: "validate p v = Some u \<Longrightarrow> safe_url u"
  by (simp add: validate_iff)

text \<open>
  Property C27. The URL policy: a string is accepted exactly when it is not blank, at most 2048 bytes
  long, and parses to an https URL with a non-empty structured host and no user name or
  password; the accepted value is the parsed, normalized URL.
\<close>

theorem validate_policy:
  "validate p v = Some u \<longleftrightarrow>
     trim v \<noteq> [] \<and> utf8_len v \<le> 2048 \<and> p v = Some u \<and>
     url_scheme u = str ''https'' \<and> (\<exists>h. url_host_str u = Some h \<and> h \<noteq> []) \<and>
     url_username u = [] \<and> url_password u = None \<and>
     (\<exists>d. url_host u = Some (Domain d) \<or> (\<exists>a. url_host u = Some (Ipv4 a)) \<or> (\<exists>a. url_host u = Some (Ipv6 a)))"
proof -
  have "(\<exists>d. url_host u = Some (Domain d) \<or> (\<exists>a. url_host u = Some (Ipv4 a)) \<or> (\<exists>a. url_host u = Some (Ipv6 a)))
      \<longleftrightarrow> url_host u \<noteq> None"
    by (metis not_None_eq url_host.exhaust)
  then show ?thesis by (auto simp: validate_iff safe_url_def MAX_URL_LENGTH_def)
qed

text \<open>
  Validation is stable: the normalized form of an accepted URL is accepted again with the
  same result, unless normalizing made it longer than the length limit.
\<close>

theorem validate_idempotent:
  assumes "url_roundtrip p" and "validate p v = Some u"
    and "utf8_len (url_as_str u) \<le> MAX_URL_LENGTH" and "trim (url_as_str u) \<noteq> []"
  shows "validate p (url_as_str u) = Some u"
  using assms by (auto simp: validate_iff url_roundtrip_def)

definition example_url :: "rstring \<Rightarrow> url" where
  "example_url s = \<lparr>url_scheme = str ''https'', url_username = [], url_password = None,
     url_host_str = Some (str ''h''), url_host = Some (Domain (str ''h'')), url_as_str = s\<rparr>"

definition example_url_parse :: url_parser where
  "example_url_parse s =
     (if s = str ''https://h'' \<or> s = str ''https://h/'' then Some (example_url (str ''https://h/''))
      else None)"

lemma example_url_roundtrip: "url_roundtrip example_url_parse"
  by (auto simp: url_roundtrip_def example_url_parse_def example_url_def str_def split: if_splits)

theorem validate_idempotent_witness:
  "validate example_url_parse (str ''https://h'') = Some (example_url (str ''https://h/'')) \<and>
   validate example_url_parse (str ''https://h/'') = Some (example_url (str ''https://h/''))"
proof -
  have 1: "validate example_url_parse (str ''https://h'') = Some (example_url (str ''https://h/''))"
    by code_simp
  have 2: "utf8_len (url_as_str (example_url (str ''https://h/''))) \<le> MAX_URL_LENGTH"
    "trim (url_as_str (example_url (str ''https://h/''))) \<noteq> []" by code_simp+
  show ?thesis
    using 1 validate_idempotent [OF example_url_roundtrip 1 2] by (simp add: example_url_def)
qed

end
