(* ===== verification/Serde.thy ===== *)
theory Serde
  imports Prelude
begin

section \<open>JSON values and derived deserialization\<close>

text \<open>
  The wire structs of the agent derive \<^verbatim>\<open>serde::Deserialize\<close>, and \<^verbatim>\<open>serde_json\<close> drives the derived code. Reading the text is the library's; \<open>json\<close> is
  the tree it reads, in which objects keep their members in order and with repetitions. What the derived code does with the tree is fixed by the struct
  and its attributes, by the rules that serde documents:

  \<^item> an object gives each field by its name; unknown members are skipped; a known one that occurs twice is an error;
  \<^item> an array gives the fields by position, and has exactly as many elements as the struct has fields;
  \<^item> a field of type \<^verbatim>\<open>Option\<close> may be missing or \<^verbatim>\<open>null\<close>; any other field must be there, with a value of its type.

  The error texts of the library carry positions and are not modelled: a value that cannot be read is \<open>None\<close>.
\<close>

datatype json = JNull | JBool bool | JNum int | JReal rstring | JStr rstring | JArr "json list" | JObj "(rstring \<times> json) list"

definition json_get :: "json \<Rightarrow> rstring \<Rightarrow> json option" where
  "json_get v k = (case v of JObj fs \<Rightarrow> map_of fs k | _ \<Rightarrow> None)"

definition as_str :: "json \<Rightarrow> rstring option" where
  "as_str v = (case v of JStr s \<Rightarrow> Some s | _ \<Rightarrow> None)"

definition str_field :: "json \<Rightarrow> string \<Rightarrow> rstring option" where
  "str_field v k = Option.bind (json_get v (str k)) as_str"

subsection \<open>Fields of a struct\<close>

definition known_once :: "string list \<Rightarrow> (rstring \<times> json) list \<Rightarrow> bool" where
  "known_once names ms \<longleftrightarrow> distinct (filter (\<lambda>k. k \<in> set (map str names)) (map fst ms))"

definition fields_of :: "string list \<Rightarrow> json \<Rightarrow> json option list option" where
  "fields_of names v =
     (case v of
        JObj ms \<Rightarrow> if known_once names ms then Some (map (map_of ms \<circ> str) names) else None
      | JArr vs \<Rightarrow> if length vs = length names then Some (map Some vs) else None
      | _ \<Rightarrow> None)"

definition de_option :: "(json \<Rightarrow> 'a option) \<Rightarrow> json option \<Rightarrow> 'a option option" where
  "de_option de f =
     (case f of
        None \<Rightarrow> Some None
      | Some v \<Rightarrow> if v = JNull then Some None else map_option Some (de v))"

definition de_required :: "(json \<Rightarrow> 'a option) \<Rightarrow> json option \<Rightarrow> 'a option" where
  "de_required de f = Option.bind f de"

definition de_string :: "json \<Rightarrow> rstring option" where
  "de_string v = as_str v"

definition de_bool :: "json \<Rightarrow> bool option" where
  "de_bool v = (case v of JBool b \<Rightarrow> Some b | _ \<Rightarrow> None)"

definition de_u64 :: "json \<Rightarrow> u64 option" where
  "de_u64 v = (case v of JNum i \<Rightarrow> if 0 \<le> i \<and> i < 2 ^ 64 then Some (word_of_int i) else None | _ \<Rightarrow> None)"

text \<open>\<open>chrono\<close> reads a time from a string; that reader is the parameter \<open>rfc3339\<close>.\<close>

definition de_datetime :: "(rstring \<Rightarrow> datetime option) \<Rightarrow> json \<Rightarrow> datetime option" where
  "de_datetime rfc3339 v = (case v of JStr s \<Rightarrow> rfc3339 s | _ \<Rightarrow> None)"

subsection \<open>What every derived reader promises\<close>

text \<open>
  A struct reader sees a value only through its fields. So members it does not know do not matter, nor does the order of
  the members, and an explicit \<^verbatim>\<open>null\<close> of an optional field is as good as no member.
\<close>

locale struct_reader =
  fixes names :: "string list" and read :: "json \<Rightarrow> 'a option"
  assumes reads_fields: "fields_of names v = fields_of names w \<Longrightarrow> read v = read w"
    and needs_fields: "fields_of names v = None \<Longrightarrow> read v = None"
begin

lemma skips_unknown:
  assumes "k \<notin> set (map str names)"
  shows "read (JObj (ms @ (k, v) # ms')) = read (JObj (ms @ ms'))"
proof (rule reads_fields)
  have "map_of (ms @ (k, v) # ms') (str x) = map_of (ms @ ms') (str x)" if "x \<in> set names" for x
  proof -
    have "str x \<noteq> k" using assms that by auto
    then show ?thesis by (induction ms) auto
  qed
  then show "fields_of names (JObj (ms @ (k, v) # ms')) = fields_of names (JObj (ms @ ms'))"
    using assms by (simp add: fields_of_def known_once_def)
qed

lemma ignores_order:
  assumes "mset ms = mset ms'" and "distinct (map fst ms)"
  shows "read (JObj ms) = read (JObj ms')"
proof (rule reads_fields)
  have d: "distinct (map fst ms')" using assms by (metis mset_eq_imp_distinct_iff mset_map)
  have "map_of ms = map_of ms'"
    using assms d by (intro map_of_inject_set [THEN iffD2]) (auto dest: mset_eq_setD)
  moreover have "known_once names ms" "known_once names ms'" using assms(2) d by (auto simp: known_once_def)
  ultimately show "fields_of names (JObj ms) = fields_of names (JObj ms')" by (simp add: fields_of_def)
qed

lemma refuses_scalars: "read JNull = None" "read (JBool b) = None" "read (JNum i) = None" "read (JReal r) = None" "read (JStr s) = None"
  by (rule needs_fields, simp add: fields_of_def)+

lemma refuses_repeated:
  assumes "k \<in> set (map str names)"
  shows "read (JObj (ms @ (k, v) # ms' @ (k, v') # ms'')) = None"
  using assms by (intro needs_fields) (simp add: fields_of_def known_once_def)

end

lemma struct_readerI:
  "(\<And>v. read v = Option.bind (fields_of names v) body) \<Longrightarrow> struct_reader names read"
  by unfold_locales auto

subsection \<open>Writing an object\<close>

text \<open>The members of the fields that are present, in order; reading such an object gives the fields back.\<close>

definition obj :: "(string \<times> json option) list \<Rightarrow> json" where
  "obj nvs = JObj (map (\<lambda>(n, v). (str n, the v)) (filter (\<lambda>(n, v). v \<noteq> None) nvs))"

lemma str_eq_iff [std_simps]: "str a = str b \<longleftrightarrow> a = b"
  by (simp add: str_def inj_map_eq_map inj_def)

abbreviation present :: "(string \<times> json option) list \<Rightarrow> (rstring \<times> json) list" where
  "present nvs \<equiv> map (\<lambda>(n, v). (str n, the v)) (filter (\<lambda>(n, v). v \<noteq> None) nvs)"

lemma map_of_absent: "n \<notin> fst ` set nvs \<Longrightarrow> map_of (present nvs) (str n) = None"
  by (induction nvs) (auto simp: str_eq_iff)

lemma map_of_obj: "distinct (map fst nvs) \<Longrightarrow> (n, v) \<in> set nvs \<Longrightarrow> map_of (present nvs) (str n) = v"
proof (induction nvs)
  case (Cons x nvs)
  obtain m w where x: "x = (m, w)" by (cases x)
  show ?case
  proof (cases "m = n")
    case True
    then have "w = v" "n \<notin> fst ` set nvs" using Cons.prems x by (auto simp: image_iff)
    then show ?thesis using x True map_of_absent [of n nvs] by (cases w) auto
  next
    case False
    then show ?thesis using Cons x by (auto simp: str_eq_iff)
  qed
qed simp

lemma fields_of_obj:
  assumes "distinct (map fst nvs)" and "names = map fst nvs"
  shows "fields_of names (obj nvs) = Some (map snd nvs)"
proof -
  have "map (map_of (present nvs) \<circ> str) (map fst nvs) = map snd nvs"
    using map_of_obj [OF assms(1)] by (auto simp: o_def)
  moreover have "distinct (map fst (present nvs))"
    using assms(1) by (auto simp: distinct_map inj_on_def split_beta str_eq_iff)
  ultimately show ?thesis using assms(2) by (simp add: fields_of_def obj_def known_once_def)
qed

lemma obj_not_null [simp]: "obj nvs \<noteq> JNull"
  by (simp add: obj_def)

lemma de_option_written:
  "(\<And>y. de (enc y) = Some y \<and> enc y \<noteq> JNull) \<Longrightarrow> de_option de (map_option enc x) = Some x"
  by (cases x) (simp_all add: de_option_def)

subsection \<open>A further member somewhere inside\<close>

text \<open>\<open>insert_at path m v\<close> adds the member \<open>m\<close> to the object that the names in \<open>path\<close> lead to, if there is one.\<close>

fun insert_at :: "string list \<Rightarrow> rstring \<times> json \<Rightarrow> json \<Rightarrow> json" where
  "insert_at [] m (JObj ms) = JObj (ms @ [m])"
| "insert_at (f # path) m (JObj ms) = JObj (map (\<lambda>(k, v). (k, if k = str f then insert_at path m v else v)) ms)"
| "insert_at _ m v = v"

lemma insert_at_null [simp]: "insert_at path m v = JNull \<longleftrightarrow> v = JNull"
  by (induction path m v rule: insert_at.induct) auto

lemma insert_at_fields:
  assumes "fields_of names (JObj ms) = Some fs"
  shows "fields_of names (insert_at (f # path) m (JObj ms)) =
    Some (map (\<lambda>(n, v). if n = f then map_option (insert_at path m) v else v) (zip names fs))"
proof -
  define ms' where "ms' = map (\<lambda>(k, v). (k, if k = str f then insert_at path m v else v)) ms"
  have "map_of ms' (str n) = (if n = f then map_option (insert_at path m) (map_of ms (str n)) else map_of ms (str n))" for n
    unfolding ms'_def by (induction ms) (auto simp: str_eq_iff)
  moreover have "map fst ms' = map fst ms" unfolding ms'_def by (simp add: split_beta)
  ultimately have "fields_of names (JObj ms') =
      Some (map (\<lambda>(n, v). if n = f then map_option (insert_at path m) v else v) (zip names fs))"
    using assms by (auto simp: fields_of_def known_once_def zip_map2 zip_same_conv_map o_def split: if_splits)
  then show ?thesis by (simp add: ms'_def)
qed

lemma insert_at_no_fields:
  "fields_of names (JObj ms) = None \<Longrightarrow> fields_of names (insert_at (f # path) m (JObj ms)) = None"
  by (auto simp: fields_of_def known_once_def split_beta o_def split: if_splits)

lemma length_fields_of: "fields_of names v = Some fs \<Longrightarrow> length fs = length names"
  by (auto simp: fields_of_def split: json.splits if_splits)

lemma de_option_insert:
  "(\<And>v. de (insert_at path m v) = de v) \<Longrightarrow> de_option de (map_option (insert_at path m) f) = de_option de f"
  by (cases f) (simp_all add: de_option_def)

context struct_reader begin

lemma skips_new_member: "k \<notin> set (map str names) \<Longrightarrow> read (insert_at [] (k, x) v) = read v"
  using skips_unknown [of k _ x "[]"] by (cases v) auto

lemma insert_inside:
  assumes "\<And>ms fs. v = JObj ms \<Longrightarrow> fields_of names v = Some fs \<Longrightarrow>
      read (insert_at (f # path) m v) = read v"
  shows "read (insert_at (f # path) m v) = read v"
proof (cases v)
  case (JObj ms)
  then show ?thesis
    using assms [OF JObj] insert_at_no_fields [of names ms f path m] by (cases "fields_of names v") (auto simp: needs_fields)
qed auto

end

end
