(* ===== verification/Wire.thy ===== *)
theory Wire
  imports Serde "HOL-Library.Monad_Syntax"
begin

section \<open>The wire format of an event (the structs at the end of \<^verbatim>\<open>parser.rs\<close>)\<close>

text \<open>
  The structs an event is deserialized into, with the readers that their \<^verbatim>\<open>Deserialize\<close> derivations stand for: the names are camelCase, every
  field is optional, unknown members are skipped. The reference for a producer is \<open>wire_to_json\<close>, which writes
  the documented members of the fields that are present.
\<close>

record wire_target =
  wt_user_id :: "rstring option"

record wire_image =
  wi_url :: "rstring option"
  wi_shape :: "rstring option"

record wire_content =
  wc_title :: "rstring option"
  wc_message :: "rstring option"
  wc_secondary_text :: "rstring option"
  wc_image :: "wire_image option"

record wire_action =
  wa_label :: "rstring option"
  wa_url :: "rstring option"

record wire_classification =
  wl_priority :: "rstring option"
  wl_aggregation_key :: "rstring option"
  wl_deduplication_key :: "rstring option"
  wl_replaceable :: "bool option"

record wire_timestamps =
  wts_producer_created_at :: "datetime option"
  wts_server_published_at :: "datetime option"

record wire_event =
  w_schema_version :: "rstring option"
  w_event_id :: "rstring option"
  w_notification_type :: "rstring option"
  w_target :: "wire_target option"
  w_content :: "wire_content option"
  w_action :: "wire_action option"
  w_classification :: "wire_classification option"
  w_timestamps :: "wire_timestamps option"

text \<open>The derived \<^verbatim>\<open>Default\<close> values.\<close>

definition wire_content_default :: wire_content where
  "wire_content_default =
     \<lparr>wc_title = None, wc_message = None, wc_secondary_text = None, wc_image = None\<rparr>"

definition wire_action_default :: wire_action where
  "wire_action_default = \<lparr>wa_label = None, wa_url = None\<rparr>"

definition wire_classification_default :: wire_classification where
  "wire_classification_default = \<lparr>wl_priority = None, wl_aggregation_key = None,
     wl_deduplication_key = None, wl_replaceable = None\<rparr>"

definition wire_timestamps_default :: wire_timestamps where
  "wire_timestamps_default =
     \<lparr>wts_producer_created_at = None, wts_server_published_at = None\<rparr>"

subsection \<open>Reading\<close>

definition target_names :: "string list" where
  "target_names = [''userId'']"

definition wire_target_of :: "json \<Rightarrow> wire_target option" where
  "wire_target_of v = do {
     fs \<leftarrow> fields_of target_names v;
     uid \<leftarrow> de_option de_string (fs ! 0);
     Some \<lparr>wt_user_id = uid\<rparr> }"

definition image_names :: "string list" where
  "image_names = [''url'', ''shape'']"

definition wire_image_of :: "json \<Rightarrow> wire_image option" where
  "wire_image_of v = do {
     fs \<leftarrow> fields_of image_names v;
     url \<leftarrow> de_option de_string (fs ! 0);
     shape \<leftarrow> de_option de_string (fs ! 1);
     Some \<lparr>wi_url = url, wi_shape = shape\<rparr> }"

definition content_names :: "string list" where
  "content_names = [''title'', ''message'', ''secondaryText'', ''image'']"

definition wire_content_of :: "json \<Rightarrow> wire_content option" where
  "wire_content_of v = do {
     fs \<leftarrow> fields_of content_names v;
     ttl \<leftarrow> de_option de_string (fs ! 0);
     msg \<leftarrow> de_option de_string (fs ! 1);
     sec \<leftarrow> de_option de_string (fs ! 2);
     img \<leftarrow> de_option wire_image_of (fs ! 3);
     Some \<lparr>wc_title = ttl, wc_message = msg, wc_secondary_text = sec, wc_image = img\<rparr> }"

definition action_names :: "string list" where
  "action_names = [''label'', ''url'']"

definition wire_action_of :: "json \<Rightarrow> wire_action option" where
  "wire_action_of v = do {
     fs \<leftarrow> fields_of action_names v;
     label \<leftarrow> de_option de_string (fs ! 0);
     url \<leftarrow> de_option de_string (fs ! 1);
     Some \<lparr>wa_label = label, wa_url = url\<rparr> }"

definition classification_names :: "string list" where
  "classification_names = [''priority'', ''aggregationKey'', ''deduplicationKey'', ''replaceable'']"

definition wire_classification_of :: "json \<Rightarrow> wire_classification option" where
  "wire_classification_of v = do {
     fs \<leftarrow> fields_of classification_names v;
     prio \<leftarrow> de_option de_string (fs ! 0);
     agg \<leftarrow> de_option de_string (fs ! 1);
     ded \<leftarrow> de_option de_string (fs ! 2);
     rep \<leftarrow> de_option de_bool (fs ! 3);
     Some \<lparr>wl_priority = prio, wl_aggregation_key = agg, wl_deduplication_key = ded, wl_replaceable = rep\<rparr> }"

definition timestamps_names :: "string list" where
  "timestamps_names = [''producerCreatedAt'', ''serverPublishedAt'']"

definition wire_timestamps_of :: "(rstring \<Rightarrow> datetime option) \<Rightarrow> json \<Rightarrow> wire_timestamps option" where
  "wire_timestamps_of rfc3339 v = do {
     fs \<leftarrow> fields_of timestamps_names v;
     created \<leftarrow> de_option (de_datetime rfc3339) (fs ! 0);
     published \<leftarrow> de_option (de_datetime rfc3339) (fs ! 1);
     Some \<lparr>wts_producer_created_at = created, wts_server_published_at = published\<rparr> }"

definition event_names :: "string list" where
  "event_names = [''schemaVersion'', ''eventId'', ''notificationType'', ''target'', ''content'', ''action'',
     ''classification'', ''timestamps'']"

definition wire_event_of :: "(rstring \<Rightarrow> datetime option) \<Rightarrow> json \<Rightarrow> wire_event option" where
  "wire_event_of rfc3339 v = do {
     fs \<leftarrow> fields_of event_names v;
     ver \<leftarrow> de_option de_string (fs ! 0);
     eid \<leftarrow> de_option de_string (fs ! 1);
     typ \<leftarrow> de_option de_string (fs ! 2);
     tgt \<leftarrow> de_option wire_target_of (fs ! 3);
     con \<leftarrow> de_option wire_content_of (fs ! 4);
     act \<leftarrow> de_option wire_action_of (fs ! 5);
     cls \<leftarrow> de_option wire_classification_of (fs ! 6);
     tms \<leftarrow> de_option (wire_timestamps_of rfc3339) (fs ! 7);
     Some \<lparr>w_schema_version = ver, w_event_id = eid, w_notification_type = typ, w_target = tgt, w_content = con,
       w_action = act, w_classification = cls, w_timestamps = tms\<rparr> }"

text \<open>
  \<^verbatim>\<open>serde_json::from_slice\<close>: the library's reader of the text, then the derived reader. \<open>shape_error\<close> is the text of the library's
  error for a tree that has not the shape of the struct.
\<close>

definition wire_from_slice ::
  "(u8 list \<Rightarrow> rstring + json) \<Rightarrow> (rstring \<Rightarrow> datetime option) \<Rightarrow> (json \<Rightarrow> rstring) \<Rightarrow> u8 list \<Rightarrow> rstring + wire_event" where
  "wire_from_slice json_text rfc3339 shape_error payload =
     (case json_text payload of
        Inl e \<Rightarrow> Inl e
      | Inr v \<Rightarrow> (case wire_event_of rfc3339 v of None \<Rightarrow> Inl (shape_error v) | Some w \<Rightarrow> Inr w))"

interpretation target_reader: struct_reader target_names wire_target_of
  by (rule struct_readerI) (simp add: wire_target_of_def)

interpretation image_reader: struct_reader image_names wire_image_of
  by (rule struct_readerI) (simp add: wire_image_of_def)

interpretation content_reader: struct_reader content_names wire_content_of
  by (rule struct_readerI) (simp add: wire_content_of_def)

interpretation action_reader: struct_reader action_names wire_action_of
  by (rule struct_readerI) (simp add: wire_action_of_def)

interpretation classification_reader: struct_reader classification_names wire_classification_of
  by (rule struct_readerI) (simp add: wire_classification_of_def)

interpretation timestamps_reader: struct_reader timestamps_names "wire_timestamps_of rfc3339" for rfc3339
  by (rule struct_readerI) (simp add: wire_timestamps_of_def)

interpretation event_reader: struct_reader event_names "wire_event_of rfc3339" for rfc3339
  by (rule struct_readerI) (simp add: wire_event_of_def)

subsection \<open>Writing, as a producer does\<close>

definition target_to_json :: "wire_target \<Rightarrow> json" where
  "target_to_json t = obj [(''userId'', map_option JStr (wt_user_id t))]"

definition image_to_json :: "wire_image \<Rightarrow> json" where
  "image_to_json i = obj [(''url'', map_option JStr (wi_url i)), (''shape'', map_option JStr (wi_shape i))]"

definition content_to_json :: "wire_content \<Rightarrow> json" where
  "content_to_json c = obj [(''title'', map_option JStr (wc_title c)), (''message'', map_option JStr (wc_message c)),
     (''secondaryText'', map_option JStr (wc_secondary_text c)), (''image'', map_option image_to_json (wc_image c))]"

definition action_to_json :: "wire_action \<Rightarrow> json" where
  "action_to_json a = obj [(''label'', map_option JStr (wa_label a)), (''url'', map_option JStr (wa_url a))]"

definition classification_to_json :: "wire_classification \<Rightarrow> json" where
  "classification_to_json c = obj [(''priority'', map_option JStr (wl_priority c)),
     (''aggregationKey'', map_option JStr (wl_aggregation_key c)),
     (''deduplicationKey'', map_option JStr (wl_deduplication_key c)), (''replaceable'', map_option JBool (wl_replaceable c))]"

definition timestamps_to_json :: "(datetime \<Rightarrow> rstring) \<Rightarrow> wire_timestamps \<Rightarrow> json" where
  "timestamps_to_json fmt t = obj [(''producerCreatedAt'', map_option (JStr \<circ> fmt) (wts_producer_created_at t)),
     (''serverPublishedAt'', map_option (JStr \<circ> fmt) (wts_server_published_at t))]"

definition wire_to_json :: "(datetime \<Rightarrow> rstring) \<Rightarrow> wire_event \<Rightarrow> json" where
  "wire_to_json fmt w = obj [(''schemaVersion'', map_option JStr (w_schema_version w)),
     (''eventId'', map_option JStr (w_event_id w)), (''notificationType'', map_option JStr (w_notification_type w)),
     (''target'', map_option target_to_json (w_target w)), (''content'', map_option content_to_json (w_content w)),
     (''action'', map_option action_to_json (w_action w)),
     (''classification'', map_option classification_to_json (w_classification w)),
     (''timestamps'', map_option (timestamps_to_json fmt) (w_timestamps w))]"

lemma string_written: "de_option de_string (map_option JStr x) = Some x"
  by (rule de_option_written) (simp add: de_string_def as_str_def)

lemma bool_written: "de_option de_bool (map_option JBool x) = Some x"
  by (rule de_option_written) (simp add: de_bool_def)

lemma target_written: "wire_target_of (target_to_json t) = Some t"
  by (simp add: wire_target_of_def target_to_json_def target_names_def fields_of_obj string_written)

lemma image_written: "wire_image_of (image_to_json i) = Some i"
  by (simp add: wire_image_of_def image_to_json_def image_names_def fields_of_obj string_written)

lemma content_written: "wire_content_of (content_to_json c) = Some c"
proof -
  have "de_option wire_image_of (map_option image_to_json x) = Some x" for x
    by (rule de_option_written) (simp add: image_written, simp add: image_to_json_def)
  then show ?thesis
    by (simp add: wire_content_of_def content_to_json_def content_names_def fields_of_obj string_written numeral_nat)
qed

lemma action_written: "wire_action_of (action_to_json a) = Some a"
  by (simp add: wire_action_of_def action_to_json_def action_names_def fields_of_obj string_written)

lemma classification_written: "wire_classification_of (classification_to_json c) = Some c"
  by (simp add: wire_classification_of_def classification_to_json_def classification_names_def fields_of_obj
      string_written bool_written numeral_nat)

lemma timestamps_written:
  assumes "\<And>t. rfc3339 (fmt t) = Some t"
  shows "wire_timestamps_of rfc3339 (timestamps_to_json fmt t) = Some t"
proof -
  have "de_option (de_datetime rfc3339) (map_option (JStr \<circ> fmt) x) = Some x" for x
    by (rule de_option_written) (simp add: de_datetime_def assms)
  then show ?thesis
    by (simp add: wire_timestamps_of_def timestamps_to_json_def timestamps_names_def fields_of_obj)
qed

text \<open>
  Producer and agent agree on the wire: whatever combination of fields a producer writes under the documented names, the agent's
  derived readers give exactly those fields back and nothing else, provided that its time stamps are written the way the
  library reads them.
\<close>

lemma wire_written:
  assumes "\<And>t. rfc3339 (fmt t) = Some t"
  shows "wire_event_of rfc3339 (wire_to_json fmt w) = Some w"
proof -
  have "de_option wire_target_of (map_option target_to_json x) = Some x" for x
    by (rule de_option_written) (simp add: target_written, simp add: target_to_json_def)
  moreover have "de_option wire_content_of (map_option content_to_json x) = Some x" for x
    by (rule de_option_written) (simp add: content_written, simp add: content_to_json_def)
  moreover have "de_option wire_action_of (map_option action_to_json x) = Some x" for x
    by (rule de_option_written) (simp add: action_written, simp add: action_to_json_def)
  moreover have "de_option wire_classification_of (map_option classification_to_json x) = Some x" for x
    by (rule de_option_written) (simp add: classification_written, simp add: classification_to_json_def)
  moreover have "de_option (wire_timestamps_of rfc3339) (map_option (timestamps_to_json fmt) x) = Some x" for x
    by (rule de_option_written) (simp add: timestamps_written assms, simp add: timestamps_to_json_def)
  ultimately show ?thesis
    by (simp add: wire_event_of_def wire_to_json_def event_names_def fields_of_obj string_written numeral_nat)
qed

subsection \<open>Schema evolution\<close>

text \<open>The struct that is read at a path of member names.\<close>

definition names_at :: "string list \<Rightarrow> string list option" where
  "names_at path = map_of [([], event_names), ([''target''], target_names), ([''content''], content_names),
     ([''content'', ''image''], image_names), ([''action''], action_names), ([''classification''], classification_names),
     ([''timestamps''], timestamps_names)] path"

lemma content_insert_image:
  assumes "\<And>v. wire_image_of (insert_at path m v) = wire_image_of v"
  shows "wire_content_of (insert_at (''image'' # path) m v) = wire_content_of v"
proof (rule content_reader.insert_inside)
  fix ms fs
  assume v: "v = JObj ms" and fs: "fields_of content_names v = Some fs"
  from length_fields_of [OF fs] obtain a b c d where "fs = [a, b, c, d]"
    by (auto simp: content_names_def length_Suc_conv)
  with v fs show "wire_content_of (insert_at (''image'' # path) m v) = wire_content_of v"
    using insert_at_fields [of content_names ms fs "''image''" path m] de_option_insert [of wire_image_of path m, OF assms]
    by (simp add: wire_content_of_def content_names_def numeral_nat)
qed

lemma event_insert:
  assumes "f = ''target'' \<Longrightarrow> (\<And>v. wire_target_of (insert_at path m v) = wire_target_of v)"
    and "f = ''content'' \<Longrightarrow> (\<And>v. wire_content_of (insert_at path m v) = wire_content_of v)"
    and "f = ''action'' \<Longrightarrow> (\<And>v. wire_action_of (insert_at path m v) = wire_action_of v)"
    and "f = ''classification'' \<Longrightarrow> (\<And>v. wire_classification_of (insert_at path m v) = wire_classification_of v)"
    and "f = ''timestamps'' \<Longrightarrow> (\<And>v. wire_timestamps_of r (insert_at path m v) = wire_timestamps_of r v)"
    and "f \<in> {''target'', ''content'', ''action'', ''classification'', ''timestamps''}"
  shows "wire_event_of r (insert_at (f # path) m v) = wire_event_of r v"
proof (rule event_reader.insert_inside)
  fix ms fs
  assume v: "v = JObj ms" and fs: "fields_of event_names v = Some fs"
  from length_fields_of [OF fs] obtain a b c d e g h i where "fs = [a, b, c, d, e, g, h, i]"
    by (auto simp: event_names_def length_Suc_conv)
  with v fs show "wire_event_of r (insert_at (f # path) m v) = wire_event_of r v"
    using insert_at_fields [of event_names ms fs f path m] assms
    by (auto simp: wire_event_of_def event_names_def numeral_nat de_option_insert)
qed

lemma wire_skips_unknown:
  assumes "names_at path = Some names" and "k \<notin> set (map str names)"
  shows "wire_event_of r (insert_at path (k, x) v) = wire_event_of r v"
proof -
  from assms(1) consider "path = []" "names = event_names" | "path = [''target'']" "names = target_names"
    | "path = [''content'']" "names = content_names" | "path = [''content'', ''image'']" "names = image_names"
    | "path = [''action'']" "names = action_names" | "path = [''classification'']" "names = classification_names"
    | "path = [''timestamps'']" "names = timestamps_names"
    by (auto simp: names_at_def split: if_splits)
  then show ?thesis
  proof cases
    case 1
    with assms(2) show ?thesis by (simp add: event_reader.skips_new_member)
  next
    case 2
    with assms(2) show ?thesis unfolding 2 by (intro event_insert) (simp_all add: target_reader.skips_new_member)
  next
    case 3
    with assms(2) show ?thesis unfolding 3 by (intro event_insert) (simp_all add: content_reader.skips_new_member)
  next
    case 4
    with assms(2) show ?thesis
      unfolding 4 by (intro event_insert) (simp_all add: content_insert_image image_reader.skips_new_member)
  next
    case 5
    with assms(2) show ?thesis unfolding 5 by (intro event_insert) (simp_all add: action_reader.skips_new_member)
  next
    case 6
    with assms(2) show ?thesis unfolding 6 by (intro event_insert) (simp_all add: classification_reader.skips_new_member)
  next
    case 7
    with assms(2) show ?thesis unfolding 7 by (intro event_insert) (simp_all add: timestamps_reader.skips_new_member)
  qed
qed

end
