(* ===== verification/Event_Parser.thy ===== *)
theory Event_Parser
  imports Model Action_Url Wire
begin

section \<open>Event parsing (\<^verbatim>\<open>parser.rs\<close>)\<close>

text \<open>
  \<^verbatim>\<open>parse_event\<close> checks the size and the nesting depth of the raw payload, deserializes it and
  normalizes the result. Deserialization (\<^verbatim>\<open>serde_json::from_slice\<close> with the derived code) is the
  argument \<open>from_slice\<close>: it yields the wire record or an error text. The theorems hold for every such
  function; \<open>wire_from_slice\<close> is the one the derived code gives for a reader of JSON text. \<^verbatim>\<open>Url::parse\<close> and the Unicode
  tables are parameters too.
\<close>

definition MAX_PAYLOAD_BYTES :: nat where
  "MAX_PAYLOAD_BYTES = 32 * 1024"

definition MAX_JSON_DEPTH :: nat where
  "MAX_JSON_DEPTH = 16"

datatype parse_error =
    Empty
  | TooLarge nat
  | TooDeep
  | Json rstring
  | MissingField rstring

text \<open>The messages that the \<^verbatim>\<open>thiserror\<close> attributes give (\<^verbatim>\<open>Display\<close>).\<close>

definition parse_error_text :: "parse_error \<Rightarrow> rstring" where
  "parse_error_text e =
     (case e of
        Empty \<Rightarrow> str ''empty payload''
      | TooLarge n \<Rightarrow> str ''payload '' @ dec_str n @ str '' bytes exceeds '' @ dec_str MAX_PAYLOAD_BYTES
      | TooDeep \<Rightarrow> str ''json depth exceeds '' @ dec_str MAX_JSON_DEPTH
      | Json s \<Rightarrow> str ''invalid json: '' @ s
      | MissingField f \<Rightarrow> str ''missing '' @ f)"

definition unwrap_or :: "'a \<Rightarrow> 'a option \<Rightarrow> 'a" where
  "unwrap_or d v = (case v of None \<Rightarrow> d | Some x \<Rightarrow> x)"

definition non_blank :: "rstring option \<Rightarrow> rstring option" where
  "non_blank v = (case v of None \<Rightarrow> None | Some s \<Rightarrow> if trim s \<noteq> [] then Some s else None)"

definition require :: "rstring option \<Rightarrow> string \<Rightarrow> parse_error + rstring" where
  "require v field =
     (case non_blank v of None \<Rightarrow> Inl (MissingField (str field)) | Some s \<Rightarrow> Inr s)"

definition parse_image :: "ucd \<Rightarrow> url_parser \<Rightarrow> wire_image option \<Rightarrow> image_ref option" where
  "parse_image u url_parse wire =
     (case wire of
        None \<Rightarrow> None
      | Some w \<Rightarrow>
          (case non_blank (wi_url w) of
             None \<Rightarrow> None
           | Some url \<Rightarrow>
               (case validate url_parse url of
                  None \<Rightarrow> None
                | Some valid \<Rightarrow>
                    Some \<lparr>img_url = url_as_str valid,
                          img_shape = (if map_option (to_lowercase u) (wi_shape w) = Some (str ''square'')
                                       then Square else Circle)\<rparr>)))"

text \<open>
  The structural scan, with the three mutable variables of the loop as arguments. \<open>depth - 1\<close> on
  \<open>nat\<close> is \<^verbatim>\<open>saturating_sub(1)\<close>.
\<close>

fun depth_scan :: "nat \<Rightarrow> nat \<Rightarrow> bool \<Rightarrow> bool \<Rightarrow> u8 list \<Rightarrow> bool" where
  "depth_scan max_depth depth in_string escaped [] = False"
| "depth_scan max_depth depth in_string escaped (b # bs) =
     (if in_string then
        (if escaped then depth_scan max_depth depth True False bs
         else if b = 92 then depth_scan max_depth depth True True bs
         else if b = 34 then depth_scan max_depth depth False escaped bs
         else depth_scan max_depth depth True escaped bs)
      else if b = 34 then depth_scan max_depth depth True escaped bs
      else if b = 123 \<or> b = 91 then
        (if Suc depth > max_depth then True
         else depth_scan max_depth (Suc depth) False escaped bs)
      else if b = 125 \<or> b = 93 then depth_scan max_depth (depth - 1) False escaped bs
      else depth_scan max_depth depth False escaped bs)"

definition depth_exceeds :: "u8 list \<Rightarrow> nat \<Rightarrow> bool" where
  "depth_exceeds payload max_depth = depth_scan max_depth 0 False False payload"

definition parse_priority :: "ucd \<Rightarrow> rstring option \<Rightarrow> priority" where
  "parse_priority u p =
     (case map_option (to_lowercase u) p of
        None \<Rightarrow> Normal
      | Some s \<Rightarrow> if s = str ''critical'' then Critical
                 else if s = str ''important'' then Important
                 else Normal)"

text \<open>The body after deserialization (\<^verbatim>\<open>parse_event\<close> from line 41 on).\<close>

definition normalize :: "ucd \<Rightarrow> url_parser \<Rightarrow> wire_event \<Rightarrow> datetime \<Rightarrow> u64 \<Rightarrow> parse_error + inbound_notification" where
  "normalize u url_parse wire received sq =
     (case require (w_event_id wire) ''eventId'' of Inl e \<Rightarrow> Inl e | Inr eid \<Rightarrow>
      case require (Option.bind (w_target wire) wt_user_id) ''target.userId'' of Inl e \<Rightarrow> Inl e | Inr uid \<Rightarrow>
      let content = unwrap_or wire_content_default (w_content wire);
          img = parse_image u url_parse (wc_image content) in
      case require (wc_title content) ''content.title'' of Inl e \<Rightarrow> Inl e | Inr ttl \<Rightarrow>
      case require (wc_message content) ''content.message'' of Inl e \<Rightarrow> Inl e | Inr msg \<Rightarrow>
      let notification_type = unwrap_or (str ''unknown'') (non_blank (w_notification_type wire));
          classification = unwrap_or wire_classification_default (w_classification wire);
          prio = parse_priority u (wl_priority classification);
          action = unwrap_or wire_action_default (w_action wire);
          timestamps = unwrap_or wire_timestamps_default (w_timestamps wire)
      in Inr \<lparr>seq = sq,
          event_id = eid,
          user_id = uid,
          title = ttl,
          message = msg,
          secondary_text = non_blank (wc_secondary_text content),
          action_label = non_blank (wa_label action),
          action_url = non_blank (wa_url action),
          image = img,
          priority = prio,
          aggregation_key = unwrap_or notification_type (non_blank (wl_aggregation_key classification)),
          deduplication_key = unwrap_or eid (non_blank (wl_deduplication_key classification)),
          replaceable = unwrap_or False (wl_replaceable classification),
          producer_created_at = wts_producer_created_at timestamps,
          server_published_at = wts_server_published_at timestamps,
          received_at = received\<rparr>)"

type_synonym from_slice = "u8 list \<Rightarrow> rstring + wire_event"

definition parse_event ::
  "ucd \<Rightarrow> url_parser \<Rightarrow> from_slice \<Rightarrow> u8 list \<Rightarrow> datetime \<Rightarrow> u64 \<Rightarrow> parse_error + inbound_notification" where
  "parse_event u url_parse from_slice payload received sq =
     (if payload = [] then Inl Empty
      else if length payload > MAX_PAYLOAD_BYTES then Inl (TooLarge (length payload))
      else if depth_exceeds payload MAX_JSON_DEPTH then Inl TooDeep
      else case from_slice payload of
          Inl e \<Rightarrow> Inl (Json e)
        | Inr wire \<Rightarrow> normalize u url_parse wire received sq)"

text \<open>A small event for the examples below.\<close>

definition example_wire :: wire_event where
  "example_wire = \<lparr>w_schema_version = None, w_event_id = Some (str ''e1''),
     w_notification_type = Some (str ''a.b''), w_target = Some \<lparr>wt_user_id = Some (str ''u1'')\<rparr>,
     w_content = Some \<lparr>wc_title = Some (str ''t''), wc_message = Some (str ''m''),
       wc_secondary_text = Some (str '' ''),
       wc_image = Some \<lparr>wi_url = Some (str ''https://h''), wi_shape = Some (str ''SQUARE'')\<rparr>\<rparr>,
     w_action = None, w_classification = None, w_timestamps = None\<rparr>"

subsection \<open>The depth scan against a grammar of nested text\<close>

text \<open>
  \<open>nested d bs\<close>: \<open>bs\<close> is a text with balanced brackets outside string literals, whose
  deepest nesting is \<open>d\<close>. Every JSON text is of this form (numbers, literals, commas, colons and
  white space are plain bytes).
\<close>

fun string_body :: "u8 list \<Rightarrow> bool" where
  "string_body [] = True"
| "string_body (b # bs) =
     (if b = 92 then (case bs of [] \<Rightarrow> False | _ # rest \<Rightarrow> string_body rest)
      else b \<noteq> 34 \<and> string_body bs)"

inductive nested :: "nat \<Rightarrow> u8 list \<Rightarrow> bool" where
  nested_end: "nested 0 []"
| nested_plain: "b \<notin> {34, 91, 93, 123, 125} \<Longrightarrow> nested d bs \<Longrightarrow> nested d (b # bs)"
| nested_string: "string_body s \<Longrightarrow> nested d bs \<Longrightarrow> nested d (34 # s @ 34 # bs)"
| nested_group: "nested d1 inside \<Longrightarrow> nested d2 rest \<Longrightarrow> opn \<in> {123, 91} \<Longrightarrow> cls \<in> {125, 93} \<Longrightarrow>
    nested (max (Suc d1) d2) (opn # inside @ cls # rest)"

lemma depth_scan_string:
  "string_body s \<Longrightarrow> depth_scan m k True False (s @ 34 # rest) = depth_scan m k False False rest"
  by (induction s rule: string_body.induct) (auto split: list.splits if_splits)

lemma depth_scan_nested:
  assumes "nested d bs" and "k \<le> m"
  shows "depth_scan m k False False (bs @ rest) =
    (if m < k + d then True else depth_scan m k False False rest)"
  using assms
proof (induction arbitrary: k rest rule: nested.induct)
  case (nested_plain b d bs)
  then show ?case by auto
next
  case (nested_string s d bs)
  then show ?case by (simp add: depth_scan_string)
next
  case (nested_group d1 inside d2 tail opn cls)
  have head: "depth_scan m k False False ((opn # inside @ cls # tail) @ rest) =
      (if m < Suc k then True else depth_scan m (Suc k) False False (inside @ cls # tail @ rest))"
    using nested_group.hyps(3) by auto
  show ?case
  proof (cases "m < Suc k + d1")
    case True
    then show ?thesis
      using head nested_group.IH(1) [of "Suc k" "cls # tail @ rest"] by auto
  next
    case False
    then have "depth_scan m (Suc k) False False (inside @ cls # tail @ rest) =
        depth_scan m (Suc k) False False (cls # tail @ rest)"
      using nested_group.IH(1) [of "Suc k" "cls # tail @ rest"] by simp
    also have "\<dots> = depth_scan m k False False (tail @ rest)"
      using nested_group.hyps(4) by auto
    finally show ?thesis
      using False head nested_group.IH(2) [OF nested_group.prems] by auto
  qed
qed simp

text \<open>
  Property C22. The depth gate: on a balanced text the byte scan reports an excess exactly when
  the nesting is deeper than the limit, and brackets and escapes inside string literals do
  not count.
\<close>

theorem depth_exceeds_nested:
  assumes "nested d payload"
  shows "depth_exceeds payload m \<longleftrightarrow> m < d"
  using depth_scan_nested [OF assms, of 0 m "[]"] by (simp add: depth_exceeds_def)

theorem depth_exceeds_nested_witness:
  "nested 2 [123, 34, 92, 34, 91, 34, 58, 91, 49, 93, 125] \<and>
   depth_exceeds [123, 34, 92, 34, 91, 34, 58, 91, 49, 93, 125] 1 \<and>
   \<not> depth_exceeds [123, 34, 92, 34, 91, 34, 58, 91, 49, 93, 125] 2"
proof -
  have "nested (max (Suc 0) 0) (91 # [49] @ 93 # [])"
    by (intro nested.intros) auto
  then have "nested 1 (34 # [92, 34, 91] @ 34 # 58 # 91 # [49] @ 93 # [])"
    by (intro nested_string nested_plain [of 58]) auto
  then have "nested (max (Suc 1) 0) (123 # (34 # [92, 34, 91] @ 34 # 58 # 91 # [49] @ 93 # []) @ 125 # [])"
    by (intro nested_group nested_end) auto
  then have n: "nested 2 [123, 34, 92, 34, 91, 34, 58, 91, 49, 93, 125]" by (simp add: numeral_2_eq_2)
  show ?thesis using n depth_exceeds_nested [OF n] by simp
qed

subsection \<open>Normalization\<close>

lemma non_blank_absent [simp]: "non_blank None = None"
  by (simp add: non_blank_def)

lemma non_blank_Some: "non_blank v = Some s \<longleftrightarrow> v = Some s \<and> trim s \<noteq> []"
  by (auto simp: non_blank_def split: option.splits)

lemma non_blank_None: "non_blank v = None \<longleftrightarrow> (\<forall>s. v = Some s \<longrightarrow> trim s = [])"
  by (auto simp: non_blank_def split: option.splits)

lemma require_Inr: "require v f = Inr s \<longleftrightarrow> non_blank v = Some s"
  by (auto simp: require_def split: option.splits)

lemma require_Inl: "require v f = Inl e \<longleftrightarrow> non_blank v = None \<and> e = MissingField (str f)"
  by (auto simp: require_def split: option.splits)

text \<open>The four required values, in the order the code asks for them.\<close>

definition required_fields :: "wire_event \<Rightarrow> (rstring \<times> rstring option) list" where
  "required_fields w =
     (let content = unwrap_or wire_content_default (w_content w) in
      [(str ''eventId'', w_event_id w),
       (str ''target.userId'', Option.bind (w_target w) wt_user_id),
       (str ''content.title'', wc_title content),
       (str ''content.message'', wc_message content)])"

text \<open>The first value of a list that is present and not blank.\<close>

fun first_non_blank :: "rstring option list \<Rightarrow> rstring option" where
  "first_non_blank [] = None"
| "first_non_blank (v # vs) = (case non_blank v of None \<Rightarrow> first_non_blank vs | Some s \<Rightarrow> Some s)"

definition parsed_wf :: "inbound_notification \<Rightarrow> bool" where
  "parsed_wf n \<longleftrightarrow>
     trim (event_id n) \<noteq> [] \<and> trim (user_id n) \<noteq> [] \<and> trim (title n) \<noteq> [] \<and> trim (message n) \<noteq> [] \<and>
     trim (aggregation_key n) \<noteq> [] \<and> trim (deduplication_key n) \<noteq> [] \<and>
     (\<forall>s. secondary_text n = Some s \<longrightarrow> trim s \<noteq> []) \<and>
     (\<forall>s. action_label n = Some s \<longrightarrow> trim s \<noteq> []) \<and>
     (\<forall>s. action_url n = Some s \<longrightarrow> trim s \<noteq> []) \<and>
     (\<forall>i. image n = Some i \<longrightarrow> (\<exists>u. safe_url u \<and> img_url i = url_as_str u))"

lemma parse_image_safe:
  "parse_image u p w = Some i \<Longrightarrow> \<exists>v. safe_url v \<and> img_url i = url_as_str v"
  by (auto simp: parse_image_def split: option.splits dest: validate_Some)

lemma trim_unknown: "trim (str ''unknown'') \<noteq> []"
  by code_simp

lemma normalize_Inl:
  "normalize u p w r s = Inl e \<longleftrightarrow>
     (\<exists>f v. find (\<lambda>(f, v). non_blank v = None) (required_fields w) = Some (f, v) \<and> e = MissingField f)"
  by (auto simp: normalize_def required_fields_def Let_def require_Inl require_Inr split: sum.splits)

lemma normalize_Inr:
  assumes "normalize u p w r s = Inr n"
  defines "c \<equiv> unwrap_or wire_classification_default (w_classification w)"
    and "a \<equiv> unwrap_or wire_action_default (w_action w)"
    and "ct \<equiv> unwrap_or wire_content_default (w_content w)"
  shows "seq n = s" and "received_at n = r"
    and "non_blank (w_event_id w) = Some (event_id n)"
    and "non_blank (Option.bind (w_target w) wt_user_id) = Some (user_id n)"
    and "non_blank (wc_title ct) = Some (title n)" and "non_blank (wc_message ct) = Some (message n)"
    and "secondary_text n = non_blank (wc_secondary_text ct)"
    and "action_label n = non_blank (wa_label a)" and "action_url n = non_blank (wa_url a)"
    and "image n = parse_image u p (wc_image ct)"
    and "priority n = parse_priority u (wl_priority c)"
    and "aggregation_key n = unwrap_or (unwrap_or (str ''unknown'') (non_blank (w_notification_type w)))
      (non_blank (wl_aggregation_key c))"
    and "deduplication_key n = unwrap_or (event_id n) (non_blank (wl_deduplication_key c))"
    and "replaceable n = unwrap_or False (wl_replaceable c)"
  using assms by (auto simp: normalize_def Let_def require_Inl require_Inr split: sum.splits)

lemma unwrap_or_non_blank: "trim d \<noteq> [] \<Longrightarrow> trim (unwrap_or d (non_blank v)) \<noteq> []"
  by (auto simp: unwrap_or_def non_blank_Some split: option.splits)

lemma normalize_wf:
  assumes "normalize u p w r s = Inr n"
  shows "parsed_wf n"
proof -
  note f = normalize_Inr [OF assms]
  have "trim (event_id n) \<noteq> []" "trim (user_id n) \<noteq> []" "trim (title n) \<noteq> []" "trim (message n) \<noteq> []"
    using f(3-6) by (simp_all add: non_blank_Some)
  moreover have "trim (aggregation_key n) \<noteq> []"
    unfolding f(12) by (intro unwrap_or_non_blank trim_unknown)
  moreover have "trim (deduplication_key n) \<noteq> []"
    unfolding f(13) by (intro unwrap_or_non_blank) fact
  moreover have "\<exists>u. safe_url u \<and> img_url i = url_as_str u" if "image n = Some i" for i
    using that f(10) parse_image_safe by metis
  ultimately show ?thesis using f(7-9) by (simp add: parsed_wf_def non_blank_Some)
qed

lemma normalize_ok_iff:
  "(\<exists>n. normalize u p w r s = Inr n) \<longleftrightarrow> list_all (\<lambda>(f, v). non_blank v \<noteq> None) (required_fields w)"
proof -
  have "(\<exists>n. normalize u p w r s = Inr n) \<longleftrightarrow> (\<nexists>e. normalize u p w r s = Inl e)"
    by (metis obj_sumE sum.distinct(1))
  also have "\<dots> \<longleftrightarrow> find (\<lambda>(f, v). non_blank v = None) (required_fields w) = None"
    by (simp add: normalize_Inl) (metis not_None_eq surj_pair)
  also have "\<dots> \<longleftrightarrow> list_all (\<lambda>(f, v). non_blank v \<noteq> None) (required_fields w)"
    by (auto simp: find_None_iff list_all_iff)
  finally show ?thesis .
qed

lemma example_parses:
  "\<exists>n. parse_event ascii_ucd example_url_parse (\<lambda>_. Inr example_wire) [123, 125] 7 1 = Inr n"
proof -
  have "\<not> depth_exceeds [123, 125] 16"
    "list_all (\<lambda>(f, v). non_blank v \<noteq> None) (required_fields example_wire)"
    by code_simp+
  then show ?thesis
    using normalize_ok_iff [of ascii_ucd example_url_parse example_wire 7 1]
    by (simp add: parse_event_def MAX_PAYLOAD_BYTES_def MAX_JSON_DEPTH_def)
qed



text \<open>
  Acceptance: an event is accepted exactly when the payload is non-empty, at most 32 KiB,
  not too deep, deserializes, and its four required fields are present and not blank.
\<close>

theorem parse_event_accepts_iff:
  "(\<exists>n. parse_event u p from_slice payload r s = Inr n) \<longleftrightarrow>
     payload \<noteq> [] \<and> length payload \<le> 32768 \<and> \<not> depth_exceeds payload 16 \<and>
     (\<exists>w. from_slice payload = Inr w \<and> list_all (\<lambda>(f, v). non_blank v \<noteq> None) (required_fields w))"
  using normalize_ok_iff [of u p _ r s]
  by (auto simp: parse_event_def MAX_PAYLOAD_BYTES_def MAX_JSON_DEPTH_def split: sum.splits)

text \<open>
  Property C23. The reported reason: an empty payload, then an oversized one (with its length), then
  excessive depth, then malformed JSON, and last the first missing field in the order
  \<^verbatim>\<open>eventId\<close>, \<^verbatim>\<open>target.userId\<close>, \<^verbatim>\<open>content.title\<close>, \<^verbatim>\<open>content.message\<close>.
\<close>

theorem parse_event_error:
  "parse_event u p from_slice payload r s = Inl e \<longleftrightarrow>
     (if payload = [] then e = Empty
      else if 32768 < length payload then e = TooLarge (length payload)
      else if depth_exceeds payload 16 then e = TooDeep
      else case from_slice payload of
          Inl msg \<Rightarrow> e = Json msg
        | Inr w \<Rightarrow> (case find (\<lambda>(f, v). non_blank v = None) (required_fields w) of
              None \<Rightarrow> False
            | Some (f, v) \<Rightarrow> e = MissingField f))"
  by (auto simp: parse_event_def MAX_PAYLOAD_BYTES_def MAX_JSON_DEPTH_def normalize_Inl
      split: sum.splits option.splits)

text \<open>
  Defaults: the aggregation key is the first non-blank one of the given key, the
  notification type and \<^verbatim>\<open>unknown\<close>; the deduplication key is the given one or else the event id;
  a missing \<^verbatim>\<open>replaceable\<close> is false.
\<close>

theorem parse_event_defaults:
  assumes "parse_event u p from_slice payload r s = Inr n" and "from_slice payload = Inr w"
  shows "Some (aggregation_key n) = first_non_blank
      [Option.bind (w_classification w) wl_aggregation_key, w_notification_type w, Some (str ''unknown'')] \<and>
    Some (deduplication_key n) = first_non_blank
      [Option.bind (w_classification w) wl_deduplication_key, w_event_id w] \<and>
    (replaceable n \<longleftrightarrow> Option.bind (w_classification w) wl_replaceable = Some True)"
proof -
  have n: "normalize u p w r s = Inr n"
    using assms by (simp add: parse_event_def split: if_splits)
  note f = normalize_Inr [OF n]
  have unknown: "non_blank (Some (str ''unknown'')) = Some (str ''unknown'')"
    by (simp add: non_blank_Some trim_unknown)
  show ?thesis
    unfolding f(12-14) using f(3) unknown
    by (auto simp: unwrap_or_def wire_classification_default_def
        split: option.splits)
qed

theorem parse_event_defaults_witness:
  "\<exists>n. parse_event ascii_ucd example_url_parse (\<lambda>_. Inr example_wire) [123, 125] 7 1 = Inr n \<and>
     aggregation_key n = str ''a.b'' \<and> deduplication_key n = str ''e1'' \<and> \<not> replaceable n"
proof -
  let ?r = "parse_event ascii_ucd example_url_parse (\<lambda>_. Inr example_wire) [123, 125] 7 1"
  obtain n where n: "?r = Inr n" using example_parses by blast
  have keys: "first_non_blank [Option.bind (w_classification example_wire) wl_aggregation_key,
      w_notification_type example_wire, Some (str ''unknown'')] = Some (str ''a.b'')"
    "first_non_blank [Option.bind (w_classification example_wire) wl_deduplication_key,
      w_event_id example_wire] = Some (str ''e1'')"
    "Option.bind (w_classification example_wire) wl_replaceable = None"
    by code_simp+
  show ?thesis using n parse_event_defaults [OF n refl] unfolding keys by auto
qed

text \<open>
  The priority words are matched without regard to case, as the ASCII words
  \<^verbatim>\<open>critical\<close> and \<^verbatim>\<open>important\<close>; everything else, absent or unknown, is normal.
\<close>

theorem parse_priority_words:
  assumes "ucd_ok u"
  shows "(parse_priority u (Some s) = Critical \<longleftrightarrow> map ascii_lower s = str ''critical'') \<and>
    (parse_priority u (Some s) = Important \<longleftrightarrow> map ascii_lower s = str ''important'') \<and>
    parse_priority u None = Normal"
proof -
  have "to_lowercase u s = str ''critical'' \<longleftrightarrow> map ascii_lower s = str ''critical''"
    and "to_lowercase u s = str ''important'' \<longleftrightarrow> map ascii_lower s = str ''important''"
    by (rule to_lowercase_eq_ascii_iff [OF assms]; simp add: str_def)+
  moreover have "str ''critical'' \<noteq> str ''important''" by (simp add: str_def)
  ultimately show ?thesis by (auto simp: parse_priority_def)
qed

theorem parse_priority_words_witness:
  "ucd_ok ascii_ucd \<and> parse_priority ascii_ucd (Some (str ''CritiCAL'')) = Critical"
proof -
  have "map ascii_lower (str ''CritiCAL'') = str ''critical''" by code_simp
  then show ?thesis using ascii_ucd_ok parse_priority_words [OF ascii_ucd_ok] by blast
qed

text \<open>
  An image is best-effort: whatever the event's image is, the event is accepted or refused
  as it would be without one, and an accepted event differs in its image only.
\<close>

theorem image_never_affects_event:
  "normalize u p (w\<lparr>w_content := map_option (\<lambda>c. c\<lparr>wc_image := None\<rparr>) (w_content w)\<rparr>) r s =
     map_sum id (\<lambda>n. n\<lparr>image := None\<rparr>) (normalize u p w r s)"
proof (cases "w_content w")
  case None
  then show ?thesis
    by (simp add: normalize_def Let_def unwrap_or_def wire_content_default_def parse_image_def require_def
        non_blank_def split: sum.splits option.splits)
next
  case (Some c)
  then show ?thesis
    by (simp add: normalize_def Let_def unwrap_or_def parse_image_def split: sum.splits)
qed

subsection \<open>Producers\<close>

text \<open>Members added to a producer's event, each with the path of the object it is added to.\<close>

definition grown :: "(string list \<times> rstring \<times> json) list \<Rightarrow> json \<Rightarrow> json" where
  "grown extras v = foldr (\<lambda>(path, m) v. insert_at path m v) extras v"

definition unknown_members :: "(string list \<times> rstring \<times> json) list \<Rightarrow> bool" where
  "unknown_members extras = list_all (\<lambda>(path, k, x).
     case names_at path of None \<Rightarrow> False | Some names \<Rightarrow> k \<notin> set (map str names)) extras"

lemma wire_grown: "unknown_members extras \<Longrightarrow> wire_event_of r (grown extras v) = wire_event_of r v"
proof (induction extras)
  case (Cons e extras)
  obtain path k x where e: "e = (path, k, x)" by (metis prod.exhaust)
  from Cons.prems e obtain names where "names_at path = Some names" "k \<notin> set (map str names)" "unknown_members extras"
    by (auto simp: unknown_members_def split: option.splits)
  with Cons.IH show ?case by (simp add: e grown_def wire_skips_unknown)
qed (simp add: grown_def)

text \<open>
  Property C20. Producers are understood: an event that a producer writes under the documented names, whichever fields it leaves out, and
  whatever members of newer schemas it adds to any of the objects, is parsed exactly as the fields it wrote, if its
  payload is not empty, has at most 32 KiB and is not nested deeper than 16 levels; an added member may take it beyond these limits, and then the event is refused for the first of
  them that it exceeds.
\<close>

theorem producer_understood:
  assumes "\<And>t. rfc3339 (fmt t) = Some t"
    and "json_text payload = Inr (grown extras (wire_to_json fmt w))" and "unknown_members extras"
  shows "parse_event u url_parse (wire_from_slice json_text rfc3339 shape_error) payload received sq =
    (if payload = [] then Inl Empty
     else if 32 * 1024 < length payload then Inl (TooLarge (length payload))
     else if depth_exceeds payload 16 then Inl TooDeep
     else normalize u url_parse w received sq)"
  using assms wire_grown [OF assms(3)] wire_written [OF assms(1)]
  by (simp add: parse_event_def wire_from_slice_def MAX_PAYLOAD_BYTES_def MAX_JSON_DEPTH_def)

definition decimal_time :: "rstring \<Rightarrow> datetime option" where
  "decimal_time s = (case s of [c] \<Rightarrow> Some (int c) | [_, c] \<Rightarrow> Some (- int c - 1) | _ \<Rightarrow> None)"

definition print_time :: "datetime \<Rightarrow> rstring" where
  "print_time t = (if 0 \<le> t then [nat t] else [45, nat (- t - 1)])"

theorem producer_understood_witness:
  "\<exists>n. parse_event ascii_ucd (\<lambda>_. None)
     (wire_from_slice (\<lambda>_. Inr (grown [([''content''], str ''priority'', JNum 3), ([], str ''schema'', JNull)] (wire_to_json print_time example_wire)))
        decimal_time (\<lambda>_. [])) [123, 125] 7 1 = Inr n \<and> aggregation_key n = str ''a.b''"
proof -
  have time: "decimal_time (print_time t) = Some t" for t
    by (cases "0 \<le> t") (simp_all add: decimal_time_def print_time_def)
  have unk: "unknown_members [([''content''], str ''priority'', JNum 3), ([], str ''schema'', JNull)]" by code_simp
  have flat: "\<not> depth_exceeds [123, 125] 16" by code_simp
  obtain n where n: "normalize ascii_ucd (\<lambda>_. None) example_wire 7 1 = Inr n" "aggregation_key n = str ''a.b''"
    by (simp add: normalize_def example_wire_def require_def non_blank_def unwrap_or_def trim_def is_whitespace_def str_def
        Let_def wire_classification_default_def)
  show ?thesis
    using n producer_understood [where json_text = "\<lambda>_. Inr (grown [([''content''], str ''priority'', JNum 3), ([], str ''schema'', JNull)]
      (wire_to_json print_time example_wire))" and u = ascii_ucd and url_parse = "\<lambda>_. None" and shape_error = "\<lambda>_. []" and received = 7
      and sq = 1, OF time refl unk] flat by simp
qed

end
