(* ===== verification/Toast.thy ===== *)
theory Toast
  imports Model
begin

section \<open>Toast content (\<^verbatim>\<open>grapheme.rs\<close>, \<^verbatim>\<open>toast.rs\<close>)\<close>

text \<open>
  Segmentation into extended grapheme clusters is the \<^verbatim>\<open>unicode_segmentation\<close> crate's, the parameter
  \<open>graphemes\<close>. \<open>grapheme_laws\<close> states what UAX 29 promises of it: the clusters partition the
  text, a prefix that ends at a boundary is segmented alike, and one more character starts at
  most one more cluster (boundaries depend on what precedes them and the next character only).
  Assertions that fail are panics (\<open>None\<close>).
\<close>

type_synonym segmenter = "rstring \<Rightarrow> rstring list"

definition grapheme_laws :: "segmenter \<Rightarrow> bool" where
  "grapheme_laws g \<longleftrightarrow>
     (\<forall>s. concat (g s) = s) \<and>
     (\<forall>s k. g (concat (take k (g s))) = take k (g s)) \<and>
     (\<forall>s c. length (g (s @ [c])) \<le> Suc (length (g s)))"

definition truncate_text :: "segmenter \<Rightarrow> rstring \<Rightarrow> nat \<Rightarrow> rstring option" where
  "truncate_text graphemes value max_graphemes =
     (if \<not> max_graphemes \<ge> 1 then None
      else if length (graphemes value) \<le> max_graphemes then Some value
      else let kept = concat (take (max_graphemes - 1) (graphemes value)) in
        Some (kept @ [8230]))"

definition MAX_TITLE_GRAPHEMES :: nat where
  "MAX_TITLE_GRAPHEMES = 120"

definition MAX_MESSAGE_GRAPHEMES :: nat where
  "MAX_MESSAGE_GRAPHEMES = 500"

record toast_request =
  t_title :: rstring
  t_message :: rstring
  attribution :: "rstring option"
  t_action_label :: "rstring option"
  t_action_url :: "rstring option"
  t_image :: "image_ref option"
  sources :: "inbound_notification list"

definition from_single :: "segmenter \<Rightarrow> inbound_notification \<Rightarrow> toast_request option" where
  "from_single g n =
     Option.bind (truncate_text g (title n) MAX_TITLE_GRAPHEMES) (\<lambda>ttl.
     Option.bind (truncate_text g (message n) MAX_MESSAGE_GRAPHEMES) (\<lambda>msg.
       Some \<lparr>t_title = ttl, t_message = msg, attribution = secondary_text n,
             t_action_label = action_label n, t_action_url = action_url n, t_image = image n,
             sources = [n]\<rparr>))"

definition batch_title :: "nat \<Rightarrow> rstring \<Rightarrow> rstring" where
  "batch_title len key = dec_str len @ str '' notifications '' @ [8212] @ str '' '' @ key"

definition from_batch :: "segmenter \<Rightarrow> inbound_notification list \<Rightarrow> toast_request option" where
  "from_batch g batch =
     (if batch = [] then None
      else if length batch = 1 then from_single g (batch ! 0)
      else Option.bind (max_by_key seq batch) (\<lambda>latest.
        Option.bind (truncate_text g (batch_title (length batch) (aggregation_key latest))
            MAX_TITLE_GRAPHEMES) (\<lambda>ttl.
        Option.bind (truncate_text g (str ''Latest: '' @ message latest) MAX_MESSAGE_GRAPHEMES) (\<lambda>msg.
          Some \<lparr>t_title = ttl, t_message = msg, attribution = secondary_text latest,
                t_action_label = action_label latest, t_action_url = action_url latest,
                t_image = image latest, sources = batch\<rparr>))))"

subsection \<open>Truncation\<close>

lemma truncate_Some: "1 \<le> m \<Longrightarrow> \<exists>r. truncate_text g v m = Some r"
  by (simp add: truncate_text_def Let_def)

lemma truncate_bound:
  assumes "grapheme_laws g" and "truncate_text g v m = Some r"
  shows "length (g r) \<le> m"
proof (cases "length (g v) \<le> m")
  case True
  with assms(2) show ?thesis by (simp add: truncate_text_def split: if_splits)
next
  case False
  let ?kept = "concat (take (m - 1) (g v))"
  from False assms(2) have r: "r = ?kept @ [8230]" and m: "1 \<le> m"
    by (auto simp: truncate_text_def Let_def split: if_splits)
  have "length (g r) \<le> Suc (length (g ?kept))"
    using assms(1) unfolding r grapheme_laws_def by blast
  also have "length (g ?kept) \<le> m - 1" using assms(1) by (simp add: grapheme_laws_def)
  finally show ?thesis using m by simp
qed

text \<open>One cluster per character, except that CR LF stays together (rule GB3).\<close>

fun crlf_graphemes :: "rstring \<Rightarrow> rstring list" where
  "crlf_graphemes (c # d # s) =
     (if c = 13 \<and> d = 10 then [c, d] # crlf_graphemes s else [c] # crlf_graphemes (d # s))"
| "crlf_graphemes s = map (\<lambda>c. [c]) s"

lemma crlf_concat: "concat (crlf_graphemes s) = s"
  by (induction s rule: crlf_graphemes.induct) auto

lemma crlf_prefix: "crlf_graphemes (concat (take k (crlf_graphemes s))) = take k (crlf_graphemes s)"
proof (induction s arbitrary: k rule: crlf_graphemes.induct [case_names pair empty single])
  case (pair c d s)
  show ?case
  proof (cases k)
    case (Suc j)
    show ?thesis
    proof (cases "c = 13 \<and> d = 10")
      case True
      then show ?thesis using pair(1) Suc by simp
    next
      case False
      then have IH: "crlf_graphemes (concat (take j (crlf_graphemes (d # s)))) = take j (crlf_graphemes (d # s))"
        by (rule pair(2))
      show ?thesis
      proof (cases j)
        case (Suc i)
        have "\<exists>ys xs. crlf_graphemes (d # s) = (d # ys) # xs" by (cases s) auto
        with False IH Suc \<open>k = Suc j\<close> show ?thesis by auto
      qed (simp add: False \<open>k = Suc j\<close>)
    qed
  qed simp
next
  case empty
  then show ?case by simp
next
  case (single c)
  then show ?case by (cases k) auto
qed

lemma crlf_snoc: "length (crlf_graphemes (s @ [c])) \<le> Suc (length (crlf_graphemes s))"
  by (induction s rule: crlf_graphemes.induct) auto

lemma crlf_laws: "grapheme_laws crlf_graphemes"
  by (simp add: grapheme_laws_def crlf_concat crlf_prefix crlf_snoc)

text \<open>
  Property C37. Truncation: with a limit of at least one it does not panic, the result has at most the
  limit of grapheme clusters, a text within the limit is unchanged, and a longer one is cut
  at a cluster boundary and ends in an ellipsis.
\<close>

theorem truncate_correct:
  assumes "grapheme_laws g" and "1 \<le> m"
  shows "\<exists>r. truncate_text g v m = Some r \<and> length (g r) \<le> m \<and>
    (if length (g v) \<le> m then r = v
     else \<exists>kept rest. g v = kept @ rest \<and> length kept = m - 1 \<and> r = concat kept @ [8230])"
proof -
  obtain r where r: "truncate_text g v m = Some r" using truncate_Some [OF assms(2)] by blast
  have "\<exists>kept rest. g v = kept @ rest \<and> length kept = m - 1 \<and> r = concat kept @ [8230]"
    if "\<not> length (g v) \<le> m"
    using r that assms(2)
    by (intro exI [of _ "take (m - 1) (g v)"] exI [of _ "drop (m - 1) (g v)"])
      (auto simp: truncate_text_def Let_def)
  moreover have "length (g v) \<le> m \<Longrightarrow> r = v"
    using r assms(2) by (simp add: truncate_text_def)
  ultimately show ?thesis using r truncate_bound [OF assms(1) r] by simp
qed

theorem truncate_correct_witness:
  "\<exists>r. truncate_text crlf_graphemes (str ''abcdef'') 5 = Some r \<and> length (crlf_graphemes r) \<le> 5"
  using truncate_correct [OF crlf_laws, of 5 "str ''abcdef''"] by auto

subsection \<open>Single and batched toasts\<close>

lemma from_single_Some: "\<exists>t. from_single g n = Some t"
  using truncate_Some [of MAX_TITLE_GRAPHEMES g "title n"]
    truncate_Some [of MAX_MESSAGE_GRAPHEMES g "message n"]
  by (auto simp: from_single_def MAX_TITLE_GRAPHEMES_def MAX_MESSAGE_GRAPHEMES_def)

lemma from_single_sources: "from_single g n = Some t \<Longrightarrow> sources t = [n]"
  by (auto simp: from_single_def bind_eq_Some_conv)

lemma from_batch_Some_iff: "(\<exists>t. from_batch g b = Some t) \<longleftrightarrow> b \<noteq> []"
proof (cases "length b = 1 \<or> b = []")
  case True
  then show ?thesis using from_single_Some [of g] by (auto simp: from_batch_def)
next
  case False
  then obtain m where m: "max_by_key seq b = Some m" by (metis max_by_key_None_iff not_Some_eq)
  obtain t1 t2 where
    "truncate_text g (batch_title (length b) (aggregation_key m)) MAX_TITLE_GRAPHEMES = Some t1"
    "truncate_text g (str ''Latest: '' @ message m) MAX_MESSAGE_GRAPHEMES = Some t2"
    using truncate_Some [of MAX_TITLE_GRAPHEMES g] truncate_Some [of MAX_MESSAGE_GRAPHEMES g]
    by (metis MAX_TITLE_GRAPHEMES_def MAX_MESSAGE_GRAPHEMES_def one_le_numeral)
  with False m show ?thesis by (simp add: from_batch_def)
qed

lemma from_batch_sources: "from_batch g b = Some t \<Longrightarrow> sources t = b"
proof -
  assume a: "from_batch g b = Some t"
  show "sources t = b"
  proof (cases "length b = 1")
    case True
    then obtain n where "b = [n]" by (cases b) auto
    with a show ?thesis by (simp add: from_batch_def from_single_sources)
  next
    case False
    with a show ?thesis by (auto simp: from_batch_def bind_eq_Some_conv split: if_splits)
  qed
qed

text \<open>
  A toast never exceeds the product limits of 120 and 500 grapheme clusters,
  whether built from one event or a batch.
\<close>

theorem toast_text_bounds:
  assumes "grapheme_laws g" and "from_batch g b = Some t"
  shows "length (g (t_title t)) \<le> 120 \<and> length (g (t_message t)) \<le> 500"
  using assms(2) truncate_bound [OF assms(1)]
  by (force simp: from_batch_def from_single_def bind_eq_Some_conv MAX_TITLE_GRAPHEMES_def
      MAX_MESSAGE_GRAPHEMES_def split: if_splits)

definition example_event :: "u64 \<Rightarrow> string \<Rightarrow> inbound_notification" where
  "example_event s m = \<lparr>seq = s, event_id = str ''e'', user_id = str ''u'', title = str ''T'',
     message = str m, secondary_text = Some (str ''App''), action_label = None, action_url = None,
     image = None, priority = Normal, aggregation_key = str ''agg.key'', deduplication_key = str ''e'',
     replaceable = False, producer_created_at = None, server_published_at = None, received_at = 0\<rparr>"

theorem toast_text_bounds_witness:
  "\<exists>t. from_batch crlf_graphemes [example_event 1 ''a'', example_event 2 ''b''] = Some t \<and>
     length (crlf_graphemes (t_title t)) \<le> 120"
proof -
  obtain t where t: "from_batch crlf_graphemes [example_event 1 ''a'', example_event 2 ''b''] = Some t"
    using from_batch_Some_iff [of crlf_graphemes "[example_event 1 ''a'', example_event 2 ''b'']"] by auto
  show ?thesis using t toast_text_bounds [OF crlf_laws t] by blast
qed

text \<open>
  Property C38. A batch toast: it is built for every non-empty batch, lists exactly the batch as its
  sources, and everything else it shows is taken from one event of the batch with the highest
  arrival stamp, wherever in the batch that event stands; a batch of one is the single toast.
\<close>

theorem from_batch_latest:
  assumes "b \<noteq> []"
  shows "\<exists>t latest. from_batch g b = Some t \<and> sources t = b \<and> latest \<in> set b \<and>
    list_all (\<lambda>e. seq e \<le> seq latest) b \<and>
    attribution t = secondary_text latest \<and> t_action_label t = action_label latest \<and>
    t_action_url t = action_url latest \<and> t_image t = image latest \<and>
    (if length b = 1 then Some t = from_single g latest
     else truncate_text g (str ''Latest: '' @ message latest) 500 = Some (t_message t) \<and>
       truncate_text g (batch_title (length b) (aggregation_key latest)) 120 = Some (t_title t))"
proof -
  obtain t where t: "from_batch g b = Some t" using assms from_batch_Some_iff by metis
  note src = from_batch_sources [OF t]
  show ?thesis
  proof (cases "length b = 1")
    case True
    then obtain n where "b = [n]" by (cases b) auto
    with t src show ?thesis
      by (auto simp: from_batch_def from_single_def bind_eq_Some_conv intro!: exI [of _ n])
  next
    case False
    then obtain m where m: "max_by_key seq b = Some m" by (metis assms max_by_key_None_iff not_Some_eq)
    note latest = max_by_key_Some [OF m]
    from False assms t m obtain ttl msg where
      "truncate_text g (batch_title (length b) (aggregation_key m)) 120 = Some ttl"
      "truncate_text g (str ''Latest: '' @ message m) 500 = Some msg"
      "t = \<lparr>t_title = ttl, t_message = msg, attribution = secondary_text m,
        t_action_label = action_label m, t_action_url = action_url m, t_image = image m, sources = b\<rparr>"
      by (auto simp: from_batch_def bind_eq_Some_conv MAX_TITLE_GRAPHEMES_def MAX_MESSAGE_GRAPHEMES_def)
    with False t latest show ?thesis
      by (intro exI [of _ t] exI [of _ m]) (simp add: list_all_iff)
  qed
qed

theorem from_batch_latest_witness:
  "\<exists>t. from_batch crlf_graphemes [example_event 1 ''first'', example_event 3 ''third'', example_event 2 ''second'']
      = Some t \<and> t_message t = str ''Latest: third''"
proof -
  let ?b = "[example_event 1 ''first'', example_event 3 ''third'', example_event 2 ''second'']"
  obtain t where t: "from_batch crlf_graphemes ?b = Some t"
    using from_batch_latest [of ?b crlf_graphemes] by blast
  have "map_option t_message (from_batch crlf_graphemes ?b) = Some (str ''Latest: third'')" by code_simp
  with t show ?thesis by simp
qed

end
