(* ===== verification/Aggregator.thy ===== *)
theory Aggregator
  imports Toast
begin

section \<open>Aggregation (\<^verbatim>\<open>aggregator.rs\<close>)\<close>

text \<open>
  The aggregator keeps one open bucket per (aggregation key, priority). A bucket's timer task is an entry
  of \<open>timers\<close>: it sleeps until its deadline, and once woken it can no longer be aborted, so
  waking and flushing are separate steps that may interleave with calls of \<^verbatim>\<open>add\<close> and with the flushes
  of \<^verbatim>\<open>shutdown\<close>. The deadline is a lower bound: the sleep starts when the runtime first polls the task, and may end at any time from the deadline on. A spawned render is an entry of \<open>renders\<close>. The mutex makes \<^verbatim>\<open>add\<close> and
  \<^verbatim>\<open>flush\<close> atomic.
\<close>

record aggregator_config =
  max_buckets :: nat
  important_window :: duration
  normal_window :: duration
  drain_timeout :: duration

definition aggregator_config_default :: aggregator_config where
  "aggregator_config_default = \<lparr>max_buckets = 100, important_window = from_secs 2,
     normal_window = from_secs 10, drain_timeout = from_secs 5\<rparr>"

type_synonym key = "rstring \<times> priority"

record bucket =
  events :: "inbound_notification list"
  timer :: nat

record timer_task =
  tm_id :: nat
  tm_key :: key
  tm_deadline :: instant
  tm_woken :: bool

record aggregator =
  config :: aggregator_config
  buckets :: "(key, bucket) hashmap"
  renders :: "toast_request list"
  renders_closed :: bool
  dropped_bucket_overflow :: u64
  timers :: "timer_task list"
  next_timer :: nat

definition aggregator_new :: "aggregator_config \<Rightarrow> aggregator" where
  "aggregator_new cfg = \<lparr>config = cfg, buckets = [], renders = [], renders_closed = False,
     dropped_bucket_overflow = 0, timers = [], next_timer = 0\<rparr>"

definition agg_dropped :: "aggregator \<Rightarrow> u64" where
  "agg_dropped a = dropped_bucket_overflow a"

definition apply_to_bucket :: "inbound_notification list \<Rightarrow> inbound_notification \<Rightarrow> inbound_notification list" where
  "apply_to_bucket evs n =
     (if replaceable n then
        (let newest = (case iter_max (map seq evs) of None \<Rightarrow> 0 | Some m \<Rightarrow> m) in
         if seq n \<ge> newest then [n] else evs)
      else evs @ [n])"

definition window_of :: "aggregator_config \<Rightarrow> priority \<Rightarrow> duration" where
  "window_of cfg p = (case p of Important \<Rightarrow> important_window cfg | _ \<Rightarrow> normal_window cfg)"

definition agg_add :: "segmenter \<Rightarrow> instant \<Rightarrow> inbound_notification \<Rightarrow> aggregator \<Rightarrow> aggregator option" where
  "agg_add g now n a =
     (if priority n = Critical then
        Option.bind (from_single g n) (\<lambda>toast. Some (a\<lparr>renders := renders a @ [toast]\<rparr>))
      else
        let key = (aggregation_key n, priority n) in
        case hm_get (buckets a) key of
          Some bucket \<Rightarrow>
            Some (a\<lparr>buckets := hm_insert key (bucket\<lparr>events := apply_to_bucket (events bucket) n\<rparr>) (buckets a)\<rparr>)
        | None \<Rightarrow>
            if hm_len (buckets a) \<ge> max_buckets (config a)
            then Some (a\<lparr>dropped_bucket_overflow := dropped_bucket_overflow a + 1\<rparr>)
            else
              let window = window_of (config a) (priority n);
                  tid = next_timer a
              in Some (a\<lparr>timers := timers a @ [\<lparr>tm_id = tid, tm_key = key, tm_deadline = now + window,
                                               tm_woken = False\<rparr>],
                        next_timer := Suc tid,
                        buckets := hm_insert key \<lparr>events = [n], timer = tid\<rparr> (buckets a)\<rparr>))"

text \<open>\<^verbatim>\<open>JoinHandle::abort\<close>: a task that is past its only await point runs to its end.\<close>

definition abort_timer :: "nat \<Rightarrow> timer_task list \<Rightarrow> timer_task list" where
  "abort_timer tid ts = filter (\<lambda>t. \<not> (tm_id t = tid \<and> \<not> tm_woken t)) ts"

definition agg_flush :: "segmenter \<Rightarrow> key \<Rightarrow> aggregator \<Rightarrow> aggregator option" where
  "agg_flush g key a =
     (let bucket = hm_get (buckets a) key;
          a = a\<lparr>buckets := hm_remove key (buckets a)\<rparr> in
      case bucket of
        None \<Rightarrow> Some a
      | Some bucket \<Rightarrow>
          let a = a\<lparr>timers := abort_timer (timer bucket) (timers a)\<rparr>;
              evs = events bucket in
          if evs = [] then Some a
          else
            let evs = sort_by_key seq evs in
            Option.bind (from_batch g evs) (\<lambda>toast. Some (a\<lparr>renders := renders a @ [toast]\<rparr>)))"

text \<open>The timer task: the sleep ends no earlier than the deadline, then the bucket is flushed.\<close>

definition timer_wake :: "instant \<Rightarrow> nat \<Rightarrow> aggregator \<Rightarrow> aggregator" where
  "timer_wake now tid a = a\<lparr>timers :=
     map (\<lambda>t. if tm_id t = tid \<and> tm_deadline t \<le> now then t\<lparr>tm_woken := True\<rparr> else t) (timers a)\<rparr>"

definition timer_fire :: "segmenter \<Rightarrow> nat \<Rightarrow> aggregator \<Rightarrow> aggregator option" where
  "timer_fire g tid a =
     (case find (\<lambda>t. tm_id t = tid \<and> tm_woken t) (timers a) of
        None \<Rightarrow> Some a
      | Some t \<Rightarrow> agg_flush g (tm_key t) (a\<lparr>timers := filter (\<lambda>t. tm_id t \<noteq> tid) (timers a)\<rparr>))"

text \<open>
  \<^verbatim>\<open>shutdown\<close>. \<open>ks\<close> is the snapshot of the keys in the order the hash map yields them. \<open>finish\<close> lists
  after how long each in-flight render ends, \<open>None\<close> for one that never does; the second
  result is the time spent waiting and whether the wait timed out.
\<close>

fun flush_all :: "segmenter \<Rightarrow> key list \<Rightarrow> aggregator \<Rightarrow> aggregator option" where
  "flush_all g [] a = Some a"
| "flush_all g (k # ks) a = Option.bind (agg_flush g k a) (flush_all g ks)"

definition renders_wait :: "duration option list \<Rightarrow> duration option" where
  "renders_wait finish = (if None \<in> set finish then None else Some (fold max (map the finish) 0))"

definition agg_shutdown ::
  "segmenter \<Rightarrow> key list \<Rightarrow> duration option list \<Rightarrow> aggregator \<Rightarrow> (aggregator \<times> duration \<times> bool) option" where
  "agg_shutdown g ks finish a =
     Option.bind (flush_all g ks a) (\<lambda>a.
       let a = a\<lparr>renders_closed := True\<rparr> in
       case renders_wait finish of
         None \<Rightarrow> Some (a, drain_timeout (config a), True)
       | Some d \<Rightarrow> if d \<le> drain_timeout (config a) then Some (a, d, False)
                   else Some (a, drain_timeout (config a), True))"

subsection \<open>What a bucket keeps\<close>

definition bucket_of :: "inbound_notification list \<Rightarrow> inbound_notification list" where
  "bucket_of offered = foldl apply_to_bucket [] offered"

lemma bucket_of_Nil [simp]: "bucket_of [] = []"
  by (simp add: bucket_of_def)

lemma bucket_of_snoc [simp]: "bucket_of (ns @ [n]) = apply_to_bucket (bucket_of ns) n"
  by (simp add: bucket_of_def)

lemma apply_to_bucket_Nil [simp]: "apply_to_bucket [] n = [n]"
  by (simp add: apply_to_bucket_def)

lemma apply_to_bucket_not_Nil: "evs \<noteq> [] \<Longrightarrow> apply_to_bucket evs n \<noteq> []"
  by (simp add: apply_to_bucket_def Let_def)

lemma apply_to_bucket_cases:
  "apply_to_bucket evs n =
     (if replaceable n then (if \<forall>e \<in> set evs. seq e \<le> seq n then [n] else evs) else evs @ [n])"
  by (cases "evs = []") (auto simp: apply_to_bucket_def Let_def iter_max_eq)

lemma mset_apply_to_bucket: "mset (apply_to_bucket evs n) \<subseteq># add_mset n (mset evs)"
  by (auto simp: apply_to_bucket_cases)

lemma set_apply_to_bucket: "set (apply_to_bucket evs n) \<subseteq> insert n (set evs)"
  using set_mset_mono [OF mset_apply_to_bucket] by fastforce

lemma bucket_of_not_Nil: "ns \<noteq> [] \<Longrightarrow> bucket_of ns \<noteq> []"
  by (induction ns rule: rev_induct) (auto simp: apply_to_bucket_cases)

text \<open>Nothing newer than the newest kept event is ever lost.\<close>

lemma bucket_of_dominates: "n \<in> set ns \<Longrightarrow> \<exists>e \<in> set (bucket_of ns). seq n \<le> seq e"
proof (induction ns rule: rev_induct)
  case (snoc m ns)
  then show ?case by (auto simp: apply_to_bucket_cases) (meson order_trans linear)+
qed simp

lemma bucket_of_subset: "set (bucket_of ns) \<subseteq> set ns"
  by (induction ns rule: rev_induct) (auto simp: apply_to_bucket_cases split: if_splits)

lemma bucket_bound_iff:
  "(\<forall>e \<in> set (bucket_of ns). seq e \<le> s) \<longleftrightarrow> (\<forall>e \<in> set ns. seq e \<le> s)"
  using bucket_of_dominates bucket_of_subset by (meson order_trans subsetD)

text \<open>
  The reference: position \<open>i\<close> takes over when it is replaceable and no older position has a
  higher stamp; kept are the last position that takes over and the non-replaceable ones after it.
\<close>

definition takes_over :: "inbound_notification list \<Rightarrow> nat \<Rightarrow> bool" where
  "takes_over ns i \<longleftrightarrow> replaceable (ns ! i) \<and> (\<forall>j < i. seq (ns ! j) \<le> seq (ns ! i))"

definition kept_at :: "inbound_notification list \<Rightarrow> nat \<Rightarrow> bool" where
  "kept_at ns i \<longleftrightarrow> (\<not> replaceable (ns ! i) \<or> takes_over ns i) \<and>
     (\<forall>j < length ns. i < j \<longrightarrow> \<not> takes_over ns j)"

lemma takes_over_append: "i < length ns \<Longrightarrow> takes_over (ns @ [n]) i \<longleftrightarrow> takes_over ns i"
  by (auto simp: takes_over_def nth_append)

lemma takes_over_last:
  "takes_over (ns @ [n]) (length ns) \<longleftrightarrow> replaceable n \<and> (\<forall>e \<in> set ns. seq e \<le> seq n)"
  by (auto simp: takes_over_def nth_append all_set_conv_all_nth)

lemma kept_at_append:
  "i < length ns \<Longrightarrow> kept_at (ns @ [n]) i \<longleftrightarrow> kept_at ns i \<and> \<not> takes_over (ns @ [n]) (length ns)"
  by (auto simp: kept_at_def takes_over_append nth_append less_Suc_eq all_conj_distrib)

lemma kept_at_last:
  "kept_at (ns @ [n]) (length ns) \<longleftrightarrow> \<not> replaceable n \<or> takes_over (ns @ [n]) (length ns)"
  by (auto simp: kept_at_def)

lemma nths_cong_below: "(\<And>i. i < length xs \<Longrightarrow> i \<in> A \<longleftrightarrow> i \<in> B) \<Longrightarrow> nths xs A = nths xs B"
  unfolding nths_def by (rule arg_cong [of _ _ "map fst"], rule filter_cong) (auto dest: set_zip_rightD)

lemma bucket_of_nths: "bucket_of ns = nths ns {i. kept_at ns i}"
proof (induction ns rule: rev_induct)
  case (snoc n ns)
  let ?over = "takes_over (ns @ [n]) (length ns)"
  have "nths (ns @ [n]) {i. kept_at (ns @ [n]) i} =
      nths ns {i. kept_at ns i \<and> \<not> ?over} @ (if \<not> replaceable n \<or> ?over then [n] else [])"
    by (simp add: nths_append nths_singleton kept_at_last)
      (rule nths_cong_below, simp add: kept_at_append)
  also have "\<dots> = apply_to_bucket (nths ns {i. kept_at ns i}) n"
    unfolding snoc.IH [symmetric] apply_to_bucket_cases bucket_bound_iff
    by (auto simp: takes_over_last snoc.IH [symmetric])
  finally show ?case by (simp add: snoc.IH)
qed simp

text \<open>
  Property C16. What a bucket holds after any sequence of events: exactly the last replaceable
  event that was at least as new as everything before it, followed by the non-replaceable
  events that came after it, in arrival order. A stale replaceable event is not kept,
  and the newest stamp offered is always among those kept.
\<close>

theorem bucket_contents:
  "bucket_of ns = nths ns {i. kept_at ns i} \<and>
   Max (insert 0 (seq ` set (bucket_of ns))) = Max (insert 0 (seq ` set ns))"
proof -
  have "Max (insert 0 (seq ` set (bucket_of ns))) = Max (insert 0 (seq ` set ns))"
    by (rule Max_eq_if) (use bucket_of_dominates bucket_of_subset in fastforce)+
  then show ?thesis using bucket_of_nths by blast
qed

lemma bucket_of_replaceable:
  assumes "list_all replaceable ns" and "ns \<noteq> []"
  shows "\<exists>n. bucket_of ns = [n] \<and> n \<in> set ns \<and> (\<forall>e \<in> set ns. seq e \<le> seq n)"
  using assms
proof (induction ns rule: rev_induct)
  case (snoc m ns)
  show ?case
  proof (cases "ns = []")
    case False
    with snoc obtain n where "bucket_of ns = [n]" "n \<in> set ns" "\<forall>e \<in> set ns. seq e \<le> seq n" by auto
    with snoc.prems show ?thesis by (auto simp: apply_to_bucket_cases)
  qed (simp add: bucket_of_def)
qed simp

lemma bucket_of_plain: "list_all (\<lambda>n. \<not> replaceable n) ns \<Longrightarrow> bucket_of ns = ns"
  by (induction ns rule: rev_induct) (auto simp: apply_to_bucket_cases)


definition example_state :: "u64 \<Rightarrow> string \<Rightarrow> inbound_notification" where
  "example_state s m = (example_event s m)\<lparr>replaceable := True\<rparr>"


subsection \<open>The outcomes of \<^verbatim>\<open>add\<close> and \<^verbatim>\<open>flush\<close>\<close>

abbreviation key_of :: "inbound_notification \<Rightarrow> key" where
  "key_of n \<equiv> (aggregation_key n, priority n)"

lemma agg_add_Some: "\<exists>a'. agg_add g now n a = Some a'"
  using from_single_Some [of g n] by (auto simp: agg_add_def Let_def split: option.split)

lemma agg_addE:
  assumes "agg_add g now n a = Some a'"
  obtains (critical) toast where "priority n = Critical" "from_single g n = Some toast"
      "a' = a\<lparr>renders := renders a @ [toast]\<rparr>"
  | (join) b where "priority n \<noteq> Critical" "hm_get (buckets a) (key_of n) = Some b"
      "a' = a\<lparr>buckets := hm_insert (key_of n) (b\<lparr>events := apply_to_bucket (events b) n\<rparr>) (buckets a)\<rparr>"
  | (overflow) "priority n \<noteq> Critical" "hm_get (buckets a) (key_of n) = None"
      "max_buckets (config a) \<le> hm_len (buckets a)"
      "a' = a\<lparr>dropped_bucket_overflow := dropped_bucket_overflow a + 1\<rparr>"
  | (opened) "priority n \<noteq> Critical" "hm_get (buckets a) (key_of n) = None"
      "hm_len (buckets a) < max_buckets (config a)"
      "a' = a\<lparr>timers := timers a @ [\<lparr>tm_id = next_timer a, tm_key = key_of n,
            tm_deadline = now + window_of (config a) (priority n), tm_woken = False\<rparr>],
          next_timer := Suc (next_timer a),
          buckets := hm_insert (key_of n) \<lparr>events = [n], timer = next_timer a\<rparr> (buckets a)\<rparr>"
proof (cases "priority n = Critical")
  case True
  with assms critical show thesis by (auto simp: agg_add_def bind_eq_Some_conv)
next
  case False
  show thesis
  proof (cases "hm_get (buckets a) (key_of n)")
    case None
    with False assms overflow opened show thesis
      by (cases "max_buckets (config a) \<le> hm_len (buckets a)") (auto simp: agg_add_def Let_def)
  next
    case (Some b)
    with False assms join show thesis by (auto simp: agg_add_def Let_def)
  qed
qed

lemma agg_flush_Some: "\<exists>a'. agg_flush g k a = Some a'"
proof (cases "hm_get (buckets a) k")
  case (Some b)
  then show ?thesis
    using from_batch_Some_iff [of g "sort_by_key seq (events b)"]
    by (cases "events b = []") (auto simp: agg_flush_def Let_def)
qed (simp add: agg_flush_def)

lemma agg_flushE:
  assumes "agg_flush g k a = Some a'"
  obtains (absent) "hm_get (buckets a) k = None" "a' = a"
  | (hollow) b where "hm_get (buckets a) k = Some b" "events b = []"
      "a' = a\<lparr>buckets := hm_remove k (buckets a), timers := abort_timer (timer b) (timers a)\<rparr>"
  | (flushed) b toast where "hm_get (buckets a) k = Some b" "events b \<noteq> []"
      "from_batch g (sort_by_key seq (events b)) = Some toast"
      "a' = a\<lparr>buckets := hm_remove k (buckets a), timers := abort_timer (timer b) (timers a),
              renders := renders a @ [toast]\<rparr>"
proof (cases "hm_get (buckets a) k")
  case None
  with assms have "a' = a" by (simp add: agg_flush_def hm_remove_absent)
  with None show thesis by (rule absent)
next
  case (Some b)
  show thesis
  proof (cases "events b = []")
    case True
    with assms Some have "a' = a\<lparr>buckets := hm_remove k (buckets a), timers := abort_timer (timer b) (timers a)\<rparr>"
      by (simp add: agg_flush_def Let_def)
    with Some True show thesis by (rule hollow)
  next
    case False
    with assms Some obtain toast where "from_batch g (sort_by_key seq (events b)) = Some toast"
      "a' = a\<lparr>buckets := hm_remove k (buckets a), timers := abort_timer (timer b) (timers a),
              renders := renders a @ [toast]\<rparr>"
      by (simp add: agg_flush_def Let_def bind_eq_Some_conv) metis
    with Some False show thesis by (rule flushed)
  qed
qed

lemma timer_fire_Some: "\<exists>a'. timer_fire g tid a = Some a'"
  using agg_flush_Some by (auto simp: timer_fire_def split: option.split)

subsection \<open>The invariant\<close>

definition has_timer :: "timer_task list \<Rightarrow> key \<Rightarrow> bucket \<Rightarrow> bool" where
  "has_timer ts k b \<longleftrightarrow> (\<exists>t \<in> set ts. tm_id t = timer b \<and> tm_key t = k)"

definition bucket_ok :: "key \<Rightarrow> bucket \<Rightarrow> bool" where
  "bucket_ok k b \<longleftrightarrow> events b \<noteq> [] \<and> snd k \<noteq> Critical \<and> (\<forall>e \<in> set (events b). key_of e = k)"

definition timers_ok :: "aggregator \<Rightarrow> bool" where
  "timers_ok a \<longleftrightarrow> distinct (map tm_id (timers a)) \<and> (\<forall>t \<in> set (timers a). tm_id t < next_timer a)"

text \<open>\<open>agg_inv_but K\<close>: the invariant, except that the buckets under the keys in \<open>K\<close> may lack a timer.\<close>

definition agg_inv_but :: "key set \<Rightarrow> aggregator \<Rightarrow> bool" where
  "agg_inv_but K a \<longleftrightarrow> hm_ok (buckets a) \<and> hm_len (buckets a) \<le> max_buckets (config a) \<and> timers_ok a \<and>
     (\<forall>k b. hm_get (buckets a) k = Some b \<longrightarrow> bucket_ok k b \<and>
       (k \<in> K \<and> timer b \<notin> tm_id ` set (timers a) \<or> has_timer (timers a) k b))"

abbreviation agg_inv :: "aggregator \<Rightarrow> bool" where
  "agg_inv \<equiv> agg_inv_but {}"

lemma agg_inv_new: "agg_inv (aggregator_new cfg)"
  by (simp add: agg_inv_but_def aggregator_new_def timers_ok_def hm_ok_def hm_len_def hm_get_def)

lemma agg_inv_bucket: "agg_inv_but K a \<Longrightarrow> hm_get (buckets a) k = Some b \<Longrightarrow> bucket_ok k b"
  unfolding agg_inv_but_def by blast

lemma agg_inv_ok: "agg_inv_but K a \<Longrightarrow> hm_ok (buckets a)"
  by (simp add: agg_inv_but_def)

lemma agg_inv_renders [simp]: "agg_inv_but K (a\<lparr>renders := r\<rparr>) \<longleftrightarrow> agg_inv_but K a"
  by (simp add: agg_inv_but_def timers_ok_def)

lemma agg_inv_closed [simp]: "agg_inv_but K (a\<lparr>renders_closed := r\<rparr>) \<longleftrightarrow> agg_inv_but K a"
  by (simp add: agg_inv_but_def timers_ok_def)

lemma agg_inv_dropped [simp]: "agg_inv_but K (a\<lparr>dropped_bucket_overflow := r\<rparr>) \<longleftrightarrow> agg_inv_but K a"
  by (simp add: agg_inv_but_def timers_ok_def)

lemma bucket_ok_apply:
  "bucket_ok (key_of n) b \<Longrightarrow> bucket_ok (key_of n) (b\<lparr>events := apply_to_bucket (events b) n\<rparr>)"
  using set_apply_to_bucket [of "events b" n] apply_to_bucket_not_Nil [of "events b" n]
  by (auto simp: bucket_ok_def)

lemma agg_add_inv:
  assumes "agg_inv a" and "agg_add g now n a = Some a'"
  shows "agg_inv a'"
  using assms(2)
proof (cases rule: agg_addE)
  case (join b)
  with assms(1) bucket_ok_apply [OF agg_inv_bucket [OF assms(1) join(2)]] show ?thesis
    by (auto simp: agg_inv_but_def timers_ok_def hm.ok_insert hm.len_insert hm.get_insert has_timer_def
        split: if_splits)
next
  case opened
  with assms(1) show ?thesis
    by (auto simp: agg_inv_but_def timers_ok_def hm.ok_insert hm.len_insert hm.get_insert has_timer_def
        bucket_ok_def split: if_splits)
qed (use assms(1) in simp_all)

text \<open>Timer identities are unique, so aborting one bucket's timer leaves the others theirs.\<close>

lemma timers_unique:
  "timers_ok a \<Longrightarrow> t \<in> set (timers a) \<Longrightarrow> t' \<in> set (timers a) \<Longrightarrow> tm_id t = tm_id t' \<Longrightarrow> t = t'"
  by (auto simp: timers_ok_def distinct_map inj_on_def)

lemma timers_ok_filter: "timers_ok a \<Longrightarrow> timers_ok (a\<lparr>timers := filter P (timers a)\<rparr>)"
  by (auto simp: timers_ok_def distinct_map_filter)

lemma has_timer_abort:
  assumes "has_timer (timers a) k b" and "timers_ok a" and "k \<noteq> k'"
    and "timer b' \<notin> tm_id ` set (timers a) \<or> has_timer (timers a) k' b'"
  shows "has_timer (abort_timer (timer b') (timers a)) k b"
proof -
  obtain t where t: "t \<in> set (timers a)" "tm_id t = timer b" "tm_key t = k"
    using assms(1) by (auto simp: has_timer_def)
  have "timer b' \<noteq> timer b"
  proof
    assume same: "timer b' = timer b"
    with assms(4) t obtain t' where "t' \<in> set (timers a)" "tm_id t' = timer b" "tm_key t' = k'"
      by (auto simp: has_timer_def image_iff)
    with t timers_unique [OF assms(2)] assms(3) show False by metis
  qed
  with t show ?thesis by (auto simp: has_timer_def abort_timer_def)
qed

lemma agg_inv_removed:
  assumes "agg_inv_but {k} a" and "hm_get (buckets a) k = Some b"
  shows "agg_inv (a\<lparr>buckets := hm_remove k (buckets a), timers := abort_timer (timer b) (timers a)\<rparr>)"
proof -
  have ok: "hm_ok (buckets a)" "timers_ok a" "hm_len (buckets a) \<le> max_buckets (config a)"
    and bk: "\<And>k' b'. hm_get (buckets a) k' = Some b' \<Longrightarrow> bucket_ok k' b' \<and>
       (k' = k \<and> timer b' \<notin> tm_id ` set (timers a) \<or> has_timer (timers a) k' b')"
    using assms(1) unfolding agg_inv_but_def by blast+
  have "has_timer (abort_timer (timer b) (timers a)) k' b'"
    if "hm_get (buckets a) k' = Some b'" "k' \<noteq> k" for k' b'
    using bk [OF that(1)] bk [OF assms(2)] that(2)
    by (intro has_timer_abort [OF _ ok(2)]) auto
  moreover have "timers_ok (a\<lparr>buckets := hm_remove k (buckets a), timers := abort_timer (timer b) (timers a)\<rparr>)"
    using timers_ok_filter [OF ok(2)] by (simp add: abort_timer_def timers_ok_def)
  ultimately show ?thesis
    using ok bk by (auto simp: agg_inv_but_def hm.ok_remove hm.get_remove
        intro: order_trans [OF hm.len_remove_le])
qed

lemma agg_flush_inv:
  assumes "agg_inv_but {k} a" and "agg_flush g k a = Some a'"
  shows "agg_inv a'"
  using assms(2)
proof (cases rule: agg_flushE)
  case absent
  with assms(1) show ?thesis
    unfolding agg_inv_but_def by (metis option.distinct(1) singletonD)
next
  case (hollow b)
  with agg_inv_removed [OF assms(1)] show ?thesis by simp
next
  case (flushed b toast)
  with agg_inv_removed [OF assms(1), of b]
    agg_inv_renders [of "{}" _ "a\<lparr>buckets := hm_remove k (buckets a), timers := abort_timer (timer b) (timers a)\<rparr>"]
  show ?thesis by simp
qed

lemma agg_inv_weaken: "agg_inv a \<Longrightarrow> agg_inv_but K a"
  by (auto simp: agg_inv_but_def)

lemma agg_inv_timers:
  assumes "agg_inv a" and same: "map (\<lambda>t. (tm_id t, tm_key t)) ts = map (\<lambda>t. (tm_id t, tm_key t)) (timers a)"
  shows "agg_inv (a\<lparr>timers := ts\<rparr>)"
proof -
  have ids: "map tm_id ts = map tm_id (timers a)"
    using arg_cong [OF same, of "map fst"] by (simp add: o_def)
  have "has_timer xs k b \<longleftrightarrow> (timer b, k) \<in> set (map (\<lambda>t. (tm_id t, tm_key t)) xs)" for xs k b
    unfolding has_timer_def by force
  with same have timer: "has_timer ts k b \<longleftrightarrow> has_timer (timers a) k b" for k b by metis
  have "tm_id ` set ts = tm_id ` set (timers a)" using ids by (metis set_map)
  then have "\<forall>t \<in> set ts. tm_id t < next_timer a"
    using assms(1) unfolding agg_inv_but_def timers_ok_def by (metis image_iff)
  with assms(1) ids show ?thesis by (simp add: agg_inv_but_def timers_ok_def timer)
qed

lemma timer_wake_inv: "agg_inv a \<Longrightarrow> agg_inv (timer_wake now tid a)"
  unfolding timer_wake_def by (rule agg_inv_timers) auto

lemma timer_fire_inv:
  assumes "agg_inv a" and "timer_fire g tid a = Some a'"
  shows "agg_inv a'"
proof (cases "find (\<lambda>t. tm_id t = tid \<and> tm_woken t) (timers a)")
  case None
  with assms show ?thesis by (simp add: timer_fire_def)
next
  case (Some t)
  then have t: "t \<in> set (timers a)" "tm_id t = tid" by (auto simp: find_Some_iff)
  let ?a = "a\<lparr>timers := filter (\<lambda>t. tm_id t \<noteq> tid) (timers a)\<rparr>"
  have ok: "timers_ok a" using assms(1) by (simp add: agg_inv_but_def)
  have "k = tm_key t \<and> timer b \<notin> tm_id ` set (timers ?a) \<or> has_timer (timers ?a) k b"
    if "has_timer (timers a) k b" for k b
    using that t timers_unique [OF ok] by (auto simp: has_timer_def)
  with assms(1) timers_ok_filter [OF ok] have "agg_inv_but {tm_key t} ?a"
    by (simp add: agg_inv_but_def)
  with Some assms(2) show ?thesis by (auto simp: timer_fire_def intro: agg_flush_inv)
qed

subsection \<open>Runs, and what the aggregator holds\<close>

datatype agg_op = Add instant inbound_notification | Wake instant nat | Fire nat | FlushKey key

definition agg_exec :: "segmenter \<Rightarrow> agg_op \<Rightarrow> aggregator \<Rightarrow> aggregator option" where
  "agg_exec g op a = (case op of
     Add now n \<Rightarrow> agg_add g now n a
   | Wake now tid \<Rightarrow> Some (timer_wake now tid a)
   | Fire tid \<Rightarrow> timer_fire g tid a
   | FlushKey k \<Rightarrow> agg_flush g k a)"

fun op_offers :: "agg_op \<Rightarrow> inbound_notification multiset" where
  "op_offers (Add now n) = {#n#}"
| "op_offers _ = {#}"

definition waiting :: "aggregator \<Rightarrow> inbound_notification multiset" where
  "waiting a = (\<Sum>p \<in># mset (buckets a). mset (events (snd p)))"

definition rendering :: "aggregator \<Rightarrow> inbound_notification multiset" where
  "rendering a = (\<Sum>t \<in># mset (renders a). mset (sources t))"

definition held :: "aggregator \<Rightarrow> inbound_notification multiset" where
  "held a = waiting a + rendering a"

lemma held_empty: "held (aggregator_new cfg) = {#}"
  by (simp add: held_def waiting_def rendering_def aggregator_new_def)

lemma waiting_update [simp]:
  "waiting (a\<lparr>renders := r\<rparr>) = waiting a" "waiting (a\<lparr>timers := ts\<rparr>) = waiting a"
  "waiting (a\<lparr>renders_closed := c\<rparr>) = waiting a" "waiting (a\<lparr>dropped_bucket_overflow := d\<rparr>) = waiting a"
  "waiting (a\<lparr>next_timer := i\<rparr>) = waiting a"
  by (simp_all add: waiting_def)

lemma rendering_update [simp]:
  "rendering (a\<lparr>buckets := bs\<rparr>) = rendering a" "rendering (a\<lparr>timers := ts\<rparr>) = rendering a"
  "rendering (a\<lparr>renders_closed := c\<rparr>) = rendering a" "rendering (a\<lparr>dropped_bucket_overflow := d\<rparr>) = rendering a"
  "rendering (a\<lparr>next_timer := i\<rparr>) = rendering a"
  by (simp_all add: rendering_def)

lemma rendering_spawn [simp]: "rendering (a\<lparr>renders := renders a @ [t]\<rparr>) = rendering a + mset (sources t)"
  by (simp add: rendering_def)

lemma waiting_remove:
  "hm_ok (buckets a) \<Longrightarrow> hm_get (buckets a) k = Some b \<Longrightarrow>
     waiting a = waiting (a\<lparr>buckets := hm_remove k (buckets a)\<rparr>) + mset (events b)"
  by (simp add: waiting_def mset_hm_get)

lemma waiting_insert:
  "hm_ok (buckets a) \<Longrightarrow>
     waiting (a\<lparr>buckets := hm_insert k b (buckets a)\<rparr>) =
     waiting (a\<lparr>buckets := hm_remove k (buckets a)\<rparr>) + mset (events b)"
  by (simp add: waiting_def mset_hm_insert)

lemma agg_add_held:
  assumes "agg_inv a" and "agg_add g now n a = Some a'"
  shows "held a' \<subseteq># add_mset n (held a)"
  using assms(2)
proof (cases rule: agg_addE)
  case (critical toast)
  then show ?thesis by (simp add: held_def from_single_sources)
next
  case (join b)
  note ok = agg_inv_ok [OF assms(1)]
  show ?thesis
    unfolding join(3) held_def waiting_insert [OF ok] waiting_remove [OF ok join(2)]
    using mset_apply_to_bucket [of "events b" n] by simp
next
  case opened
  note ok = agg_inv_ok [OF assms(1)]
  have "waiting a' = add_mset n (waiting a)"
    using opened(2) ok by (simp add: opened(4) waiting_def mset_hm_insert hm_remove_absent)
  then show ?thesis by (simp add: held_def opened(4))
qed (simp add: held_def)

lemma agg_flush_held:
  assumes "hm_ok (buckets a)" and "agg_flush g k a = Some a'"
  shows "held a' = held a"
  using assms(2)
proof (cases rule: agg_flushE)
  case (hollow b)
  then show ?thesis by (simp add: held_def waiting_remove [OF assms(1) hollow(1)])
next
  case (flushed b toast)
  have "rendering a' = rendering a + mset (events b)"
    using from_batch_sources [OF flushed(3)] by (simp add: rendering_def flushed(4))
  then show ?thesis
    by (simp add: held_def flushed(4) waiting_remove [OF assms(1) flushed(1)])
qed simp

lemma timer_fire_held:
  assumes "agg_inv a" and "timer_fire g tid a = Some a'"
  shows "held a' = held a"
proof (cases "find (\<lambda>t. tm_id t = tid \<and> tm_woken t) (timers a)")
  case (Some t)
  let ?a = "a\<lparr>timers := filter (\<lambda>t. tm_id t \<noteq> tid) (timers a)\<rparr>"
  have "agg_flush g (tm_key t) ?a = Some a'" using Some assms(2) by (simp add: timer_fire_def)
  then have "held a' = held ?a" using agg_inv_ok [OF assms(1)] by (intro agg_flush_held) auto
  then show ?thesis by (simp add: held_def)
qed (use assms(2) in \<open>simp add: timer_fire_def\<close>)

lemma timer_wake_held [simp]: "held (timer_wake now tid a) = held a"
  by (simp add: timer_wake_def held_def)

text \<open>
  The contract of a component that takes events in and only ever passes them on: what a client
  may conclude from the laws of single operations about whole runs.
\<close>

locale event_store =
  fixes exec :: "'op \<Rightarrow> 's \<Rightarrow> 's option"
    and offers :: "'op \<Rightarrow> 'e multiset"
    and content :: "'s \<Rightarrow> 'e multiset"
    and inv :: "'s \<Rightarrow> bool"
  assumes exec_total: "inv s \<Longrightarrow> \<exists>s'. exec op s = Some s'"
    and exec_inv: "inv s \<Longrightarrow> exec op s = Some s' \<Longrightarrow> inv s'"
    and exec_content: "inv s \<Longrightarrow> exec op s = Some s' \<Longrightarrow> content s' \<subseteq># content s + offers op"
begin

fun run :: "'op list \<Rightarrow> 's \<Rightarrow> 's option" where
  "run [] s = Some s"
| "run (op # ops) s = Option.bind (exec op s) (run ops)"

lemma run_safe:
  assumes "inv s"
  shows "\<exists>s'. run ops s = Some s' \<and> inv s' \<and> content s' \<subseteq># content s + (\<Sum>op \<in># mset ops. offers op)"
  using assms
proof (induction ops arbitrary: s)
  case (Cons op ops)
  obtain s1 where s1: "exec op s = Some s1" using exec_total [OF Cons.prems] by blast
  obtain s' where "run ops s1 = Some s'" "inv s'"
    and c: "content s' \<subseteq># content s1 + (\<Sum>op \<in># mset ops. offers op)"
    using Cons.IH [OF exec_inv [OF Cons.prems s1]] by blast
  moreover have "content s1 \<subseteq># content s + offers op" using exec_content [OF Cons.prems s1] .
  then have "content s' \<subseteq># content s + (\<Sum>op \<in># mset (op # ops). offers op)"
    using subset_mset.order_trans [OF c subset_mset.add_right_mono] by (simp add: add.assoc [symmetric])
  ultimately show ?case using s1 by auto
qed simp

end

lemma agg_exec_Some: "\<exists>a'. agg_exec g op a = Some a'"
  using agg_add_Some agg_flush_Some timer_fire_Some by (cases op) (auto simp: agg_exec_def)

lemma agg_exec_inv:
  assumes "agg_inv a" and "agg_exec g op a = Some a'"
  shows "agg_inv a'"
proof (cases op)
  case (Add now n)
  with assms show ?thesis by (auto simp: agg_exec_def intro: agg_add_inv)
next
  case (Wake now tid)
  with assms show ?thesis by (auto simp: agg_exec_def intro: timer_wake_inv)
next
  case (Fire tid)
  with assms show ?thesis by (auto simp: agg_exec_def intro: timer_fire_inv)
next
  case (FlushKey k)
  with assms show ?thesis by (auto simp: agg_exec_def intro: agg_flush_inv agg_inv_weaken)
qed

lemma agg_exec_held:
  assumes "agg_inv a" and "agg_exec g op a = Some a'"
  shows "held a' \<subseteq># held a + op_offers op"
proof (cases op)
  case (Add now n)
  with assms agg_add_held [OF assms(1)] show ?thesis by (simp add: agg_exec_def)
next
  case (Wake now tid)
  with assms(2) show ?thesis by (auto simp: agg_exec_def)
next
  case (Fire tid)
  with assms(2) timer_fire_held [OF assms(1)] show ?thesis by (auto simp: agg_exec_def)
next
  case (FlushKey k)
  with assms(2) agg_flush_held [OF agg_inv_ok [OF assms(1)]] show ?thesis by (auto simp: agg_exec_def)
qed

interpretation agg: event_store "agg_exec g" op_offers held agg_inv for g
  using agg_exec_Some agg_exec_inv agg_exec_held by unfold_locales blast+

fun agg_run :: "segmenter \<Rightarrow> agg_op list \<Rightarrow> aggregator \<Rightarrow> aggregator option" where
  "agg_run g [] a = Some a"
| "agg_run g (op # ops) a = Option.bind (agg_exec g op a) (agg_run g ops)"

lemma agg_run_eq: "agg_run g ops a = agg.run g ops a"
  by (induction ops arbitrary: a) (auto split: bind_splits)

lemma agg_exec_config: "agg_exec g op a = Some a' \<Longrightarrow> config a' = config a"
  by (auto simp: agg_exec_def timer_wake_def timer_fire_def elim!: agg_addE agg_flushE
      split: agg_op.splits option.splits)

lemma agg_run_config: "agg_run g ops a = Some a' \<Longrightarrow> config a' = config a"
  by (induction ops arbitrary: a) (auto simp: bind_eq_Some_conv dest: agg_exec_config)

lemma agg_run_inv: "agg_inv a \<Longrightarrow> agg_run g ops a = Some a' \<Longrightarrow> agg_inv a'"
  by (induction ops arbitrary: a) (auto simp: bind_eq_Some_conv intro: agg_exec_inv)

text \<open>
  Property C18. Whatever the interleaving of \<^verbatim>\<open>add\<close>, timer wake-ups, timer flushes and flushes by key, the
  aggregator never panics, keeps its invariant (the number of open buckets is bounded, no bucket is empty or
  holds a critical or foreign event, every open bucket has a timer of its own), and neither
  invents nor duplicates an event.
\<close>

theorem aggregator_run_safe:
  "\<exists>a. agg_run g ops (aggregator_new cfg) = Some a \<and> agg_inv a \<and>
     hm_len (buckets a) \<le> max_buckets cfg \<and> held a \<subseteq># (\<Sum>op \<in># mset ops. op_offers op)"
proof -
  obtain a where a: "agg_run g ops (aggregator_new cfg) = Some a" "agg_inv a"
    "held a \<subseteq># (\<Sum>op \<in># mset ops. op_offers op)"
    using agg.run_safe [OF agg_inv_new, of g ops cfg] by (auto simp: agg_run_eq held_empty)
  moreover have "config a = cfg" using agg_run_config [OF a(1)] by (simp add: aggregator_new_def)
  ultimately show ?thesis by (auto simp: agg_inv_but_def)
qed

text \<open>
  A critical event is never batched, delayed or dropped: \<^verbatim>\<open>add\<close> spawns exactly one render with
  this event as its only source and changes nothing else, whatever the state.
\<close>

theorem critical_immediate:
  assumes "priority n = Critical"
  shows "\<exists>toast. agg_add g now n a = Some (a\<lparr>renders := renders a @ [toast]\<rparr>) \<and>
    from_single g n = Some toast \<and> sources toast = [n]"
proof -
  obtain toast where "from_single g n = Some toast" using from_single_Some by blast
  with assms from_single_sources show ?thesis by (auto simp: agg_add_def)
qed

theorem critical_immediate_witness:
  "\<exists>toast. agg_add crlf_graphemes 0 ((example_event 1 ''m'')\<lparr>priority := Critical\<rparr>)
       (aggregator_new aggregator_config_default) =
     Some ((aggregator_new aggregator_config_default)\<lparr>renders := [toast]\<rparr>)"
  using critical_immediate [of "(example_event 1 ''m'')\<lparr>priority := Critical\<rparr>" crlf_graphemes 0
      "aggregator_new aggregator_config_default"]
  by (auto simp: aggregator_new_def)

text \<open>
  The other outcomes of \<^verbatim>\<open>add\<close>: an event joins the open bucket of its key and priority without
  touching timers or renders; with no such bucket and the limit reached it is dropped and counted;
  otherwise a bucket with this event alone is opened, with one new timer that ends after the
  priority's window.
\<close>

theorem add_outcomes:
  assumes "agg_inv a" and "priority n \<noteq> Critical" and "agg_add g now n a = Some a'"
  shows "renders a' = renders a \<and>
    (case hm_get (buckets a) (key_of n) of
       Some b \<Rightarrow> hm_get (buckets a') = (hm_get (buckets a))(key_of n \<mapsto> b\<lparr>events := apply_to_bucket (events b) n\<rparr>) \<and>
         timers a' = timers a \<and> dropped_bucket_overflow a' = dropped_bucket_overflow a
     | None \<Rightarrow>
         if hm_len (buckets a) = max_buckets (config a)
         then a' = a\<lparr>dropped_bucket_overflow := dropped_bucket_overflow a + 1\<rparr>
         else hm_get (buckets a') = (hm_get (buckets a))(key_of n \<mapsto> \<lparr>events = [n], timer = next_timer a\<rparr>) \<and>
           timers a' = timers a @ [\<lparr>tm_id = next_timer a, tm_key = key_of n,
             tm_deadline = now + (if priority n = Important then important_window (config a)
                                  else normal_window (config a)), tm_woken = False\<rparr>])"
proof -
  have len: "hm_len (buckets a) \<le> max_buckets (config a)" using assms(1) by (simp add: agg_inv_but_def)
  have window: "window_of (config a) (priority n) =
      (if priority n = Important then important_window (config a) else normal_window (config a))"
    by (cases "priority n") (auto simp: window_of_def)
  from assms(3) show ?thesis
    by (cases rule: agg_addE)
      (use assms(2) len in \<open>simp_all add: hm.get_insert [OF agg_inv_ok [OF assms(1)]] window\<close>)
qed

theorem add_outcomes_witness:
  "\<exists>a'. agg_add crlf_graphemes 5 (example_event 1 ''m'') (aggregator_new aggregator_config_default) = Some a' \<and>
     map tm_deadline (timers a') = [10000000005]"
proof -
  let ?a = "aggregator_new aggregator_config_default"
  obtain a' where a': "agg_add crlf_graphemes 5 (example_event 1 ''m'') ?a = Some a'"
    using agg_add_Some by blast
  have "priority (example_event 1 ''m'') \<noteq> Critical" by (simp add: example_event_def)
  from add_outcomes [OF agg_inv_new this a'] a' show ?thesis
    by (simp add: aggregator_new_def aggregator_config_default_def hm_get_def hm_len_def
        example_event_def from_secs_def)
qed

subsection \<open>Refinement: batches of offered events\<close>

text \<open>
  The specification is a function of the calls alone. It keeps for every open key everything offered since it was opened, and emits
  batches: a critical event alone, and per closed key the kept events ordered by stamp. Windows are numbered as they are
  opened; a window that has run out while its key was open is \<open>awake\<close> until its task runs, and closes its key then, whichever window
  the key has by that time.
\<close>

record batch_spec =
  offered :: "key \<Rightarrow> (nat \<times> inbound_notification list) option"
  openings :: "(key \<times> instant) list"
  awake :: "nat set"
  emitted :: "inbound_notification list list"
  refused :: u64

definition batch_spec_empty :: batch_spec where
  "batch_spec_empty = \<lparr>offered = (\<lambda>_. None), openings = [], awake = {}, emitted = [], refused = 0\<rparr>"

definition kept_events :: "inbound_notification list \<Rightarrow> inbound_notification list" where
  "kept_events ns = nths ns {i. kept_at ns i}"

definition spec_close :: "key \<Rightarrow> batch_spec \<Rightarrow> batch_spec" where
  "spec_close k s = (case offered s k of
     None \<Rightarrow> s
   | Some (i, ns) \<Rightarrow> s\<lparr>offered := (offered s)(k := None), emitted := emitted s @ [sort_by_key seq (kept_events ns)]\<rparr>)"

definition spec_offer :: "aggregator_config \<Rightarrow> instant \<Rightarrow> inbound_notification \<Rightarrow> batch_spec \<Rightarrow> batch_spec" where
  "spec_offer cfg now n s =
     (if priority n = Critical then s\<lparr>emitted := emitted s @ [[n]]\<rparr>
      else case offered s (key_of n) of
        Some (i, ns) \<Rightarrow> s\<lparr>offered := (offered s)(key_of n \<mapsto> (i, ns @ [n]))\<rparr>
      | None \<Rightarrow>
          if max_buckets cfg \<le> card (dom (offered s)) then s\<lparr>refused := refused s + 1\<rparr>
          else s\<lparr>offered := (offered s)(key_of n \<mapsto> (length (openings s), [n])),
                 openings := openings s @ [(key_of n, now + (if priority n = Important then important_window cfg else normal_window cfg))]\<rparr>)"

fun spec_op :: "aggregator_config \<Rightarrow> agg_op \<Rightarrow> batch_spec \<Rightarrow> batch_spec" where
  "spec_op cfg (Add now n) s = spec_offer cfg now n s"
| "spec_op cfg (Wake now i) s =
     (if i < length (openings s) \<and> snd (openings s ! i) \<le> now \<and>
         map_option fst (offered s (fst (openings s ! i))) = Some i
      then s\<lparr>awake := insert i (awake s)\<rparr> else s)"
| "spec_op cfg (Fire i) s =
     (if i \<in> awake s then spec_close (fst (openings s ! i)) (s\<lparr>awake := awake s - {i}\<rparr>) else s)"
| "spec_op cfg (FlushKey k) s = spec_close k s"

definition timer_rel :: "aggregator \<Rightarrow> batch_spec \<Rightarrow> timer_task \<Rightarrow> bool" where
  "timer_rel a s t \<longleftrightarrow> openings s ! tm_id t = (tm_key t, tm_deadline t) \<and> (tm_woken t \<longleftrightarrow> tm_id t \<in> awake s) \<and>
     (\<not> tm_woken t \<longrightarrow> (\<exists>b. hm_get (buckets a) (tm_key t) = Some b \<and> timer b = tm_id t))"

definition batch_rel :: "aggregator \<Rightarrow> batch_spec \<Rightarrow> bool" where
  "batch_rel a s \<longleftrightarrow> next_timer a = length (openings s) \<and>
     (\<forall>k. map_option (\<lambda>b. (timer b, events b)) (hm_get (buckets a) k) =
        map_option (\<lambda>(i, ns). (i, bucket_of ns)) (offered s k)) \<and>
     (\<forall>t \<in> set (timers a). timer_rel a s t) \<and> awake s \<subseteq> tm_id ` set (timers a) \<and>
     map sources (renders a) = emitted s \<and> dropped_bucket_overflow a = refused s"

lemma batch_rel_get:
  assumes "batch_rel a s" and "hm_get (buckets a) k = Some b"
  shows "\<exists>ns. offered s k = Some (timer b, ns) \<and> events b = bucket_of ns"
proof -
  have "map_option (\<lambda>(i, ns). (i, bucket_of ns)) (offered s k) = Some (timer b, events b)"
    using assms unfolding batch_rel_def by (metis (no_types, lifting) option.simps(9))
  then show ?thesis by auto
qed

lemma batch_rel_None: "batch_rel a s \<Longrightarrow> hm_get (buckets a) k = None \<longleftrightarrow> offered s k = None"
  unfolding batch_rel_def by (metis (no_types, lifting) map_option_is_None)

lemma batch_rel_len:
  assumes "batch_rel a s" and "hm_ok (buckets a)"
  shows "hm_len (buckets a) = card (dom (offered s))"
proof -
  have "dom (hm_get (buckets a)) = dom (offered s)" using batch_rel_None [OF assms(1)] by (auto simp: dom_def)
  with assms(2) show ?thesis by (simp add: hm.len_card)
qed

lemma batch_rel_add:
  assumes inv: "agg_inv a" and rel: "batch_rel a s" and "agg_add g now n a = Some a'"
  shows "batch_rel a' (spec_op (config a) (Add now n) s)"
proof -
  have ok: "hm_ok (buckets a)" using inv by (rule agg_inv_ok)
  have ids: "\<forall>t \<in> set (timers a). tm_id t < length (openings s)"
    using inv rel by (simp add: agg_inv_but_def timers_ok_def batch_rel_def)
  from assms(3) show ?thesis
  proof (cases rule: agg_addE)
    case (critical toast)
    with rel from_single_sources show ?thesis by (auto simp: batch_rel_def timer_rel_def spec_offer_def)
  next
    case (join b)
    obtain ns where ns: "offered s (key_of n) = Some (timer b, ns)" "events b = bucket_of ns"
      using batch_rel_get [OF rel join(2)] by blast
    have "timer_rel a' s t" if "timer_rel a s t" for t
      using that join(2) by (auto simp: timer_rel_def join(3) hm.get_insert [OF ok])
    with rel ns join(1) show ?thesis
      by (auto simp: batch_rel_def timer_rel_def spec_offer_def join(3) hm.get_insert [OF ok])
  next
    case overflow
    with rel batch_rel_None [OF rel] batch_rel_len [OF rel ok] show ?thesis
      by (auto simp: batch_rel_def timer_rel_def spec_offer_def)
  next
    case opened
    have window: "window_of (config a) (priority n) =
        (if priority n = Important then important_window (config a) else normal_window (config a))"
      by (cases "priority n") (auto simp: window_of_def)
    have num: "next_timer a = length (openings s)" using rel by (simp add: batch_rel_def)
    have "awake s \<subseteq> tm_id ` set (timers a)" using rel by (simp add: batch_rel_def)
    with ids have fresh: "length (openings s) \<notin> awake s" by fastforce
    let ?s = "spec_op (config a) (Add now n) s"
    have s: "spec_offer (config a) now n s = s\<lparr>offered := (offered s)(key_of n \<mapsto> (length (openings s), [n])),
        openings := openings s @ [(key_of n, now + window_of (config a) (priority n))]\<rparr>"
      using opened(1-3) batch_rel_None [OF rel] batch_rel_len [OF rel ok] by (simp add: spec_offer_def window)
    have "timer_rel a' ?s t" if "t \<in> set (timers a)" for t
      using that rel ids opened(2)
      by (auto simp: batch_rel_def timer_rel_def s opened(4) hm.get_insert [OF ok] nth_append)
    moreover have "timer_rel a' ?s \<lparr>tm_id = next_timer a, tm_key = key_of n,
        tm_deadline = now + window_of (config a) (priority n), tm_woken = False\<rparr>"
      using fresh by (simp add: timer_rel_def s num opened(4) hm.get_insert [OF ok])
    ultimately show ?thesis
      using rel num by (auto simp: batch_rel_def s opened(4) hm.get_insert [OF ok] bucket_of_def)
  qed
qed

lemma batch_rel_flush:
  assumes rel: "batch_rel a s" and ok: "hm_ok (buckets a)"
    and filled: "\<And>b. hm_get (buckets a) k = Some b \<Longrightarrow> events b \<noteq> []" and "agg_flush g k a = Some a'"
  shows "batch_rel a' (spec_close k s)"
  using assms(4)
proof (cases rule: agg_flushE)
  case absent
  with rel batch_rel_None [OF rel, of k] show ?thesis by (simp add: spec_close_def)
next
  case (flushed b toast)
  obtain ns where ns: "offered s k = Some (timer b, ns)" "events b = bucket_of ns"
    using batch_rel_get [OF rel flushed(1)] by blast
  have s: "spec_close k s = s\<lparr>offered := (offered s)(k := None), emitted := emitted s @ [sort_by_key seq (kept_events ns)]\<rparr>"
    using ns(1) by (simp add: spec_close_def)
  have timers: "timer_rel a s t" if "t \<in> set (timers a)" for t using that rel by (simp add: batch_rel_def)
  have "timer_rel a' (spec_close k s) t" if "t \<in> set (timers a')" for t
  proof -
    from that have t: "t \<in> set (timers a)" "tm_id t = timer b \<Longrightarrow> tm_woken t"
      by (auto simp: flushed(4) abort_timer_def)
    with timers [OF t(1)] flushed(1) show ?thesis
      by (auto simp: timer_rel_def s flushed(4) hm.get_remove [OF ok])
  qed
  moreover have "awake s \<subseteq> tm_id ` set (timers a')"
  proof
    fix i
    assume i: "i \<in> awake s"
    with rel obtain t where "t \<in> set (timers a)" "tm_id t = i" by (auto simp: batch_rel_def)
    with timers [of t] i show "i \<in> tm_id ` set (timers a')" by (auto simp: timer_rel_def flushed(4) abort_timer_def)
  qed
  moreover have "sources toast = sort_by_key seq (kept_events ns)"
    using from_batch_sources [OF flushed(3)] ns(2) by (simp add: kept_events_def bucket_of_nths)
  ultimately show ?thesis
    using rel unfolding batch_rel_def by (auto simp: s flushed(4) hm.get_remove [OF ok])
qed (use filled in blast)

lemma batch_rel_wake:
  assumes inv: "agg_inv a" and rel: "batch_rel a s"
  shows "batch_rel (timer_wake now i a) (spec_op cfg (Wake now i) s)"
proof -
  let ?due = "\<exists>t \<in> set (timers a). tm_id t = i \<and> tm_deadline t \<le> now \<and> \<not> tm_woken t"
  have timers: "timer_rel a s t" if "t \<in> set (timers a)" for t using that rel by (simp add: batch_rel_def)
  have ids: "tm_id t < length (openings s)" if "t \<in> set (timers a)" for t
    using that inv rel by (simp add: agg_inv_but_def timers_ok_def batch_rel_def)
  have unique: "t = t'" if "t \<in> set (timers a)" "t' \<in> set (timers a)" "tm_id t = tm_id t'" for t t'
    using timers_unique [of a] that inv by (simp add: agg_inv_but_def)
  show ?thesis
  proof (cases ?due)
    case True
    then obtain t where t: "t \<in> set (timers a)" "tm_id t = i" "tm_deadline t \<le> now" "\<not> tm_woken t" by blast
    then obtain b where b: "hm_get (buckets a) (tm_key t) = Some b" "timer b = i" using timers [OF t(1)] by (auto simp: timer_rel_def)
    have due: "tm_deadline t' \<le> now" if "t' \<in> set (timers a)" "tm_id t' = i" for t'
      using unique [OF that(1) t(1)] that(2) t(2,3) by simp
    have "spec_op cfg (Wake now i) s = s\<lparr>awake := insert i (awake s)\<rparr>"
      using timers [OF t(1)] ids [OF t(1)] t(2,3) batch_rel_get [OF rel b(1)] b(2) by (auto simp: timer_rel_def)
    moreover have "timer_rel (timer_wake now i a) (s\<lparr>awake := insert i (awake s)\<rparr>) t'"
      if t': "t' \<in> set (timers (timer_wake now i a))" for t'
    proof -
      from t' obtain u where "u \<in> set (timers a)" "t' = (if tm_id u = i \<and> tm_deadline u \<le> now then u\<lparr>tm_woken := True\<rparr> else u)"
        by (auto simp: timer_wake_def)
      with timers [of u] due show ?thesis by (auto simp: timer_rel_def timer_wake_def)
    qed
    moreover have "map tm_id (timers (timer_wake now i a)) = map tm_id (timers a)" by (simp add: timer_wake_def)
    then have "tm_id ` set (timers (timer_wake now i a)) = tm_id ` set (timers a)" by (metis set_map)
    ultimately show ?thesis
      using rel t(1,2) unfolding batch_rel_def by (auto simp: timer_wake_def)
  next
    case False
    then have "timers (timer_wake now i a) = timers a" by (auto simp: timer_wake_def intro!: map_idI)
    then have same: "timer_wake now i a = a" by (simp add: timer_wake_def)
    have "i \<in> awake s" if wakes: "i < length (openings s)" "snd (openings s ! i) \<le> now"
      "map_option fst (offered s (fst (openings s ! i))) = Some i"
    proof -
      obtain ns where ns: "offered s (fst (openings s ! i)) = Some (i, ns)" using wakes(3) by auto
      then obtain b where b: "hm_get (buckets a) (fst (openings s ! i)) = Some b"
        using batch_rel_None [OF rel] by (metis not_Some_eq)
      with inv have "has_timer (timers a) (fst (openings s ! i)) b" unfolding agg_inv_but_def by blast
      with batch_rel_get [OF rel b] ns obtain t where t: "t \<in> set (timers a)" "tm_id t = i"
        by (auto simp: has_timer_def)
      with timers [OF t(1)] wakes(2) have "tm_deadline t \<le> now" by (simp add: timer_rel_def)
      with False t timers [OF t(1)] show ?thesis by (auto simp: timer_rel_def)
    qed
    then have "spec_op cfg (Wake now i) s = s" by (auto simp: insert_absorb)
    with rel same show ?thesis by simp
  qed
qed

lemma batch_rel_fire:
  assumes inv: "agg_inv a" and rel: "batch_rel a s" and "timer_fire g i a = Some a'"
  shows "batch_rel a' (spec_op cfg (Fire i) s)"
proof (cases "find (\<lambda>t. tm_id t = i \<and> tm_woken t) (timers a)")
  case None
  have "i \<notin> awake s"
  proof
    assume i: "i \<in> awake s"
    with rel obtain t where "t \<in> set (timers a)" "tm_id t = i" "timer_rel a s t" by (auto simp: batch_rel_def)
    with i None show False by (auto simp: timer_rel_def find_None_iff)
  qed
  moreover have "a' = a" using None assms(3) by (simp add: timer_fire_def)
  ultimately show ?thesis using rel by simp
next
  case (Some t)
  then have t: "t \<in> set (timers a)" "tm_id t = i" "tm_woken t" by (auto simp: find_Some_iff)
  let ?a = "a\<lparr>timers := filter (\<lambda>t. tm_id t \<noteq> i) (timers a)\<rparr>" and ?s = "s\<lparr>awake := awake s - {i}\<rparr>"
  have tr: "timer_rel a s t" using rel t(1) by (simp add: batch_rel_def)
  have "batch_rel ?a ?s" using rel by (auto simp: batch_rel_def timer_rel_def)
  moreover have "events b \<noteq> []" if "hm_get (buckets a) k = Some b" for k b
    using agg_inv_bucket [OF inv that] by (simp add: bucket_ok_def)
  moreover have "agg_flush g (tm_key t) ?a = Some a'" using Some assms(3) by (simp add: timer_fire_def)
  ultimately have "batch_rel a' (spec_close (tm_key t) ?s)"
    using agg_inv_ok [OF inv] by (intro batch_rel_flush [of ?a]) auto
  with tr t show ?thesis by (simp add: timer_rel_def)
qed

lemma batch_rel_exec:
  assumes inv: "agg_inv a" and rel: "batch_rel a s" and "agg_exec g op a = Some a'"
  shows "batch_rel a' (spec_op (config a) op s)"
proof (cases op)
  case (Add now n)
  with assms batch_rel_add [OF inv rel] show ?thesis by (simp add: agg_exec_def del: spec_op.simps)
next
  case (Wake now i)
  with assms(3) have "a' = timer_wake now i a" by (simp add: agg_exec_def)
  with Wake batch_rel_wake [OF inv rel] show ?thesis by metis
next
  case (Fire i)
  with assms batch_rel_fire [OF inv rel] show ?thesis by (simp add: agg_exec_def del: spec_op.simps)
next
  case (FlushKey k)
  with assms(3) agg_inv_bucket [OF inv] batch_rel_flush [OF rel agg_inv_ok [OF inv]] show ?thesis
    by (fastforce simp: agg_exec_def bucket_ok_def)
qed

lemma batch_rel_run:
  assumes "agg_inv a" and "batch_rel a s" and "agg_run g ops a = Some a'"
  shows "batch_rel a' (fold (spec_op (config a)) ops s)"
  using assms
proof (induction ops arbitrary: a s)
  case (Cons op ops)
  then obtain a1 where a1: "agg_exec g op a = Some a1" "agg_run g ops a1 = Some a'"
    by (auto simp: bind_eq_Some_conv)
  from Cons.IH [OF agg_exec_inv [OF Cons.prems(1) a1(1)] batch_rel_exec [OF Cons.prems(1,2) a1(1)] a1(2)]
  show ?case using agg_exec_config [OF a1(1)] by simp
qed simp

text \<open>
  Property C7. Refinement: after any sequence of calls and timer actions, in any interleaving, the aggregator has spawned renders for exactly the
  batches, in the order, that the specification emits for this sequence, has counted the events it refuses, and holds under every key
  exactly the kept ones of all events offered there since it was opened. The pending timers are those of the open windows and of the awake ones, with
  their deadlines.
\<close>

theorem aggregator_refines:
  "\<exists>a. agg_run g ops (aggregator_new cfg) = Some a \<and>
     (let s = fold (spec_op cfg) ops batch_spec_empty in
      map sources (renders a) = emitted s \<and> dropped_bucket_overflow a = refused s \<and>
      (\<forall>k. map_option events (hm_get (buckets a) k) = map_option (kept_events \<circ> snd) (offered s k)) \<and>
      list_all (\<lambda>t. openings s ! tm_id t = (tm_key t, tm_deadline t) \<and> (tm_woken t \<longleftrightarrow> tm_id t \<in> awake s)) (timers a))"
proof -
  obtain a where a: "agg_run g ops (aggregator_new cfg) = Some a"
    using agg.run_safe [OF agg_inv_new, of g ops cfg] by (auto simp: agg_run_eq)
  let ?s = "fold (spec_op cfg) ops batch_spec_empty"
  have "batch_rel (aggregator_new cfg) batch_spec_empty"
    by (simp add: batch_rel_def batch_spec_empty_def aggregator_new_def hm_get_def)
  from batch_rel_run [OF agg_inv_new this a] have rel: "batch_rel a ?s" by (simp add: aggregator_new_def)
  have "map_option events (hm_get (buckets a) k) = map_option (kept_events \<circ> snd) (offered ?s k)" for k
    using batch_rel_None [OF rel, of k] batch_rel_get [OF rel, of k]
    by (cases "hm_get (buckets a) k") (auto simp: kept_events_def bucket_of_nths)
  then show ?thesis using a rel by (auto simp: batch_rel_def timer_rel_def Let_def list_all_iff)
qed

subsection \<open>Shutdown and timers\<close>

lemma agg_flush_gone:
  assumes "hm_ok (buckets a)" and "agg_flush g k a = Some a'"
  shows "hm_ok (buckets a') \<and> hm_get (buckets a') = (hm_get (buckets a))(k := None)"
  using assms(2)
  by (cases rule: agg_flushE) (use assms(1) in \<open>auto simp: hm.ok_remove hm.get_remove\<close>)

lemma flush_all_Some: "\<exists>a'. flush_all g ks a = Some a'"
proof (induction ks arbitrary: a)
  case (Cons k ks)
  then show ?case using agg_flush_Some [of g k a] by auto
qed simp

lemma flush_all_run: "flush_all g ks a = agg_run g (map FlushKey ks) a"
  by (induction ks arbitrary: a) (auto simp: agg_exec_def split: bind_splits)

lemma flush_all_result:
  assumes "hm_ok (buckets a)" and "flush_all g ks a = Some a'"
  shows "hm_ok (buckets a') \<and> held a' = held a \<and> (\<forall>k. hm_get (buckets a') k = (if k \<in> set ks then None else hm_get (buckets a) k))"
  using assms
proof (induction ks arbitrary: a)
  case (Cons k ks)
  then obtain a1 where a1: "agg_flush g k a = Some a1" "flush_all g ks a1 = Some a'"
    by (auto simp: bind_eq_Some_conv)
  with Cons.IH [OF _ a1(2)] agg_flush_gone [OF Cons.prems(1) a1(1)] agg_flush_held [OF Cons.prems(1) a1(1)]
  show ?case by auto
qed simp

lemma no_buckets:
  assumes "hm_ok (buckets a)" and "\<And>k. hm_get (buckets a) k = None"
  shows "buckets a = []"
proof -
  have "hm_len (buckets a) = 0" using assms by (simp add: hm.len_0 fun_eq_iff)
  then show ?thesis by (simp add: hm_len_def)
qed

lemma renders_wait_late:
  "(case renders_wait finish of None \<Rightarrow> True | Some d \<Rightarrow> \<not> d \<le> m) \<longleftrightarrow>
     \<not> list_all (\<lambda>d. \<exists>t. d = Some t \<and> t \<le> m) finish"
proof (cases "None \<in> set finish")
  case True
  then show ?thesis by (auto simp: renders_wait_def list_all_iff)
next
  case False
  have "fold max (map the finish) 0 \<le> m \<longleftrightarrow> (\<forall>d \<in> set finish. the d \<le> m)"
    using fold_max_eq_Max [of "map the finish" 0] by simp
  moreover have "(\<exists>t. d = Some t \<and> t \<le> m) \<longleftrightarrow> the d \<le> m" if "d \<in> set finish" for d
    using that False by (metis option.collapse option.sel)
  ultimately show ?thesis using False by (auto simp: renders_wait_def list_all_iff)
qed

lemma agg_shutdown_flushes:
  assumes "agg_inv a" and "mset ks = mset (hm_keys (buckets a))"
  shows "\<exists>a' spent late. agg_shutdown g ks finish a = Some (a', spent, late) \<and>
    buckets a' = [] \<and> rendering a' = rendering a + waiting a \<and> renders_closed a' \<and> agg_inv a' \<and>
    spent \<le> drain_timeout (config a) \<and>
    (late \<longleftrightarrow> \<not> list_all (\<lambda>d. \<exists>t. d = Some t \<and> t \<le> drain_timeout (config a)) finish)"
proof -
  note ok = agg_inv_ok [OF assms(1)]
  obtain b where b: "flush_all g ks a = Some b" using flush_all_Some by blast
  note res = flush_all_result [OF ok b]
  have "set ks = dom (hm_get (buckets a))"
    using assms(2) hm.set_keys [OF ok] by (metis set_mset_mset)
  with res have empty: "buckets b = []" by (intro no_buckets) auto
  have moved: "rendering b = rendering a + waiting a"
    using res empty by (simp add: held_def waiting_def add.commute)
  have inv: "agg_inv b" and cfg: "config b = config a"
    using agg_run_inv [OF assms(1)] agg_run_config b unfolding flush_all_run by blast+
  define spent late where "spent = (case renders_wait finish of None \<Rightarrow> drain_timeout (config a)
      | Some d \<Rightarrow> min d (drain_timeout (config a)))"
    and "late \<longleftrightarrow> (case renders_wait finish of None \<Rightarrow> True | Some d \<Rightarrow> \<not> d \<le> drain_timeout (config a))"
  have "agg_shutdown g ks finish a = Some (b\<lparr>renders_closed := True\<rparr>, spent, late)"
    using b by (auto simp: agg_shutdown_def Let_def cfg spent_def late_def split: option.splits)
  moreover have "spent \<le> drain_timeout (config a)" by (simp add: spent_def split: option.splits)
  ultimately show ?thesis
    using empty moved inv renders_wait_late [of "drain_timeout (config a)" finish]
    by (intro exI [of _ "b\<lparr>renders_closed := True\<rparr>"] exI [of _ spent] exI [of _ late]) (simp add: late_def)
qed

text \<open>
  Shutdown: in whatever order the hash map lists its keys, every open bucket is flushed, every
  event that waited is now a source of a spawned render and none is lost or duplicated; the wait
  for the renders never exceeds the drain timeout, and it reports a timeout exactly when some
  render takes longer.
\<close>

theorem shutdown_flushes_all:
  assumes "agg_inv a" and "mset ks = mset (hm_keys (buckets a))"
  shows "\<exists>a' spent late. agg_shutdown g ks finish a = Some (a', spent, late) \<and>
    buckets a' = [] \<and> rendering a' = rendering a + waiting a \<and> renders_closed a' \<and> agg_inv a' \<and>
    spent \<le> drain_timeout (config a) \<and>
    (late \<longleftrightarrow> \<not> list_all (\<lambda>d. \<exists>t. d = Some t \<and> t \<le> drain_timeout (config a)) finish)"
  using assms by (rule agg_shutdown_flushes)

theorem shutdown_flushes_all_witness:
  "\<exists>a. agg_run crlf_graphemes [Add 0 (example_event 1 ''m''), Add 1 (example_event 2 ''n'')]
         (aggregator_new aggregator_config_default) = Some a \<and>
     (\<exists>a' spent late. agg_shutdown crlf_graphemes (hm_keys (buckets a)) [Some 1, None] a = Some (a', spent, late) \<and>
        buckets a' = [] \<and> late)"
proof -
  obtain a where a: "agg_run crlf_graphemes [Add 0 (example_event 1 ''m''), Add 1 (example_event 2 ''n'')]
      (aggregator_new aggregator_config_default) = Some a"
    using agg.run_safe [OF agg_inv_new] unfolding agg_run_eq by blast
  have "agg_inv a" using agg_run_inv [OF agg_inv_new a] .
  from shutdown_flushes_all [OF this refl, of crlf_graphemes "[Some 1, None]"] a show ?thesis by auto
qed

text \<open>Deadlines, and the effect of letting one timer end.\<close>

definition due_by :: "instant \<Rightarrow> aggregator \<Rightarrow> bool" where
  "due_by d a \<longleftrightarrow> (\<forall>t \<in> set (timers a). tm_deadline t \<le> d)"

fun added_by :: "instant \<Rightarrow> agg_op \<Rightarrow> bool" where
  "added_by T (Add now n) = (now \<le> T)"
| "added_by T _ = True"

definition longest_window :: "aggregator_config \<Rightarrow> duration" where
  "longest_window cfg = max (important_window cfg) (normal_window cfg)"

lemma window_le: "window_of cfg p \<le> longest_window cfg"
  by (cases p) (auto simp: window_of_def longest_window_def)

lemma agg_flush_timers: "agg_flush g k a = Some a' \<Longrightarrow> set (timers a') \<subseteq> set (timers a)"
  by (auto elim!: agg_flushE simp: abort_timer_def)

lemma timer_fire_timers: "timer_fire g tid a = Some a' \<Longrightarrow> set (timers a') \<subseteq> set (timers a)"
  by (auto simp: timer_fire_def split: option.splits dest!: agg_flush_timers)

lemma due_by_exec:
  assumes "due_by (T + longest_window (config a)) a" and "added_by T op" and "agg_exec g op a = Some a'"
  shows "due_by (T + longest_window (config a)) a'"
proof (cases op)
  case (Add now n)
  with assms have "agg_add g now n a = Some a'" "now \<le> T" by (simp_all add: agg_exec_def)
  moreover have "now + window_of (config a) (priority n) \<le> T + longest_window (config a)"
    using \<open>now \<le> T\<close> window_le by (simp add: add_mono)
  ultimately show ?thesis using assms(1) by (auto simp: due_by_def elim!: agg_addE)
next
  case (Wake now tid)
  with assms show ?thesis by (auto simp: due_by_def agg_exec_def timer_wake_def)
next
  case (Fire tid)
  with assms timer_fire_timers show ?thesis by (fastforce simp: due_by_def agg_exec_def)
next
  case (FlushKey k)
  with assms agg_flush_timers show ?thesis by (fastforce simp: due_by_def agg_exec_def)
qed

lemma due_by_run:
  assumes "due_by (T + longest_window (config a)) a" and "list_all (added_by T) ops"
    and "agg_run g ops a = Some a'"
  shows "due_by (T + longest_window (config a)) a'"
  using assms
proof (induction ops arbitrary: a)
  case (Cons op ops)
  then obtain a1 where a1: "agg_exec g op a = Some a1" "agg_run g ops a1 = Some a'"
    by (auto simp: bind_eq_Some_conv)
  then have "due_by (T + longest_window (config a1)) a1"
    using Cons.prems due_by_exec agg_exec_config [OF a1(1)] by auto
  from Cons.IH [OF this _ a1(2)] show ?case using Cons.prems(2) agg_exec_config [OF a1(1)] by simp
qed simp

definition ring :: "instant \<Rightarrow> nat list \<Rightarrow> agg_op list" where
  "ring d tids = concat (map (\<lambda>i. [Wake d i, Fire i]) tids)"

lemma ring_Cons: "ring d (i # is) = Wake d i # Fire i # ring d is"
  by (simp add: ring_def)

lemma wake_fire:
  assumes due: "due_by d a" and fire: "timer_fire g i (timer_wake d i a) = Some a'"
  shows "due_by d a'" and "tm_id ` set (timers a') \<subseteq> tm_id ` set (timers a) - {i}"
proof -
  let ?w = "timer_wake d i a"
  have "map tm_id (timers ?w) = map tm_id (timers a)" by (simp add: timer_wake_def)
  then have ids: "tm_id ` set (timers ?w) = tm_id ` set (timers a)" by (metis set_map)
  have due': "due_by d ?w" using due by (auto simp: timer_wake_def due_by_def)
  with timer_fire_timers [OF fire] show "due_by d a'" by (auto simp: due_by_def)
  show "tm_id ` set (timers a') \<subseteq> tm_id ` set (timers a) - {i}"
  proof (cases "find (\<lambda>t. tm_id t = i \<and> tm_woken t) (timers ?w)")
    case None
    have "t\<lparr>tm_woken := True\<rparr> \<in> set (timers ?w)" if "t \<in> set (timers a)" "tm_id t = i" for t
      using that due by (force simp: timer_wake_def due_by_def)
    moreover have "\<not> (tm_id t = i \<and> tm_woken t)" if "t \<in> set (timers ?w)" for t
      using None that by (simp add: find_None_iff)
    ultimately have "\<forall>t \<in> set (timers a). tm_id t \<noteq> i"
      by (metis timer_task.select_convs(1,4) timer_task.surjective timer_task.update_convs(4))
    moreover have "a' = ?w" using None fire by (simp add: timer_fire_def)
    ultimately show ?thesis using ids by (metis Diff_empty Diff_insert0 image_iff order_refl)
  next
    case (Some t)
    with fire have "agg_flush g (tm_key t) (?w\<lparr>timers := filter (\<lambda>t. tm_id t \<noteq> i) (timers ?w)\<rparr>) = Some a'"
      by (simp add: timer_fire_def)
    from agg_flush_timers [OF this] have "tm_id ` set (timers a') \<subseteq> tm_id ` set (timers ?w) - {i}" by auto
    with ids show ?thesis by simp
  qed
qed

lemma ring_timers:
  assumes "due_by d a" and "agg_run g (ring d is) a = Some a'"
  shows "tm_id ` set (timers a') \<subseteq> tm_id ` set (timers a) - set is"
  using assms
proof (induction "is" arbitrary: a)
  case Nil
  then show ?case by (simp add: ring_def)
next
  case (Cons i "is")
  then obtain a1 where a1: "timer_fire g i (timer_wake d i a) = Some a1" "agg_run g (ring d is) a1 = Some a'"
    by (auto simp: ring_Cons agg_exec_def bind_eq_Some_conv)
  note step = wake_fire [OF Cons.prems(1) a1(1)]
  from Cons.IH [OF step(1) a1(2)] step(2) show ?case by auto
qed

lemma ring_held:
  assumes "agg_inv a" and "agg_run g (ring d is) a = Some a'"
  shows "held a' = held a"
  using assms
proof (induction "is" arbitrary: a)
  case Nil
  then show ?case by (simp add: ring_def)
next
  case (Cons i "is")
  then obtain a1 where a1: "timer_fire g i (timer_wake d i a) = Some a1" "agg_run g (ring d is) a1 = Some a'"
    by (auto simp: ring_Cons agg_exec_def bind_eq_Some_conv)
  note inv = timer_wake_inv [OF Cons.prems(1), of d i]
  from Cons.IH [OF timer_fire_inv [OF inv a1(1)] a1(2)] timer_fire_held [OF inv a1(1)] show ?case by simp
qed

text \<open>
  Property C17. No event is held back for longer than a window: after any run whose events were added
  by time \<open>T\<close>, once the longest window has passed and the pending timers have run, in any order, no bucket
  is open and everything that was held is a source of a spawned render.
\<close>

theorem buckets_drain_in_time:
  assumes "agg_run g ops (aggregator_new cfg) = Some a" and "list_all (added_by T) ops"
    and "set (map tm_id (timers a)) \<subseteq> set order"
    and "T + max (important_window cfg) (normal_window cfg) \<le> late"
  shows "\<exists>a'. agg_run g (ring late order) a = Some a' \<and> buckets a' = [] \<and> timers a' = [] \<and>
    rendering a' = held a"
proof -
  have inv: "agg_inv a" using agg_run_inv [OF agg_inv_new assms(1)] .
  have start: "config (aggregator_new cfg) = cfg" "due_by d (aggregator_new cfg)" for d
    by (simp_all add: aggregator_new_def due_by_def)
  have "due_by (T + longest_window cfg) a"
    using due_by_run [OF _ assms(2,1)] unfolding start(1) using start(2) by blast
  then have due: "due_by late a"
    using assms(4) by (fastforce simp: due_by_def longest_window_def)
  obtain a' where a': "agg_run g (ring late order) a = Some a'"
    using agg.run_safe [OF inv] unfolding agg_run_eq by blast
  from assms(3) have "tm_id ` set (timers a) - set order = {}" by simp
  with ring_timers [OF due a'] have none: "timers a' = []" by simp
  have inv': "agg_inv a'" using agg_run_inv [OF inv a'] .
  have "hm_get (buckets a') k = None" for k
  proof (rule ccontr)
    assume "hm_get (buckets a') k \<noteq> None"
    then obtain b where "hm_get (buckets a') k = Some b" by blast
    with inv' have "has_timer (timers a') k b" unfolding agg_inv_but_def by blast
    with none show False by (simp add: has_timer_def)
  qed
  with agg_inv_ok [OF inv'] have "buckets a' = []" by (rule no_buckets)
  moreover have "rendering a' = held a"
    using ring_held [OF inv a'] \<open>buckets a' = []\<close> by (simp add: held_def waiting_def)
  ultimately show ?thesis using a' none by blast
qed

theorem buckets_drain_in_time_witness:
  "\<exists>a a'. agg_run crlf_graphemes [Add 3 (example_event 1 ''m'')] (aggregator_new aggregator_config_default) = Some a \<and>
     agg_run crlf_graphemes (ring 10000000003 [0]) a = Some a' \<and> buckets a' = []"
proof -
  let ?a0 = "aggregator_new aggregator_config_default"
  obtain a where a: "agg_run crlf_graphemes [Add 3 (example_event 1 ''m'')] ?a0 = Some a"
    using agg.run_safe [OF agg_inv_new] unfolding agg_run_eq by blast
  have "map_option (map tm_id \<circ> timers) (agg_run crlf_graphemes [Add 3 (example_event 1 ''m'')] ?a0) = Some [0]"
    by code_simp
  with a have "set (map tm_id (timers a)) \<subseteq> set [0]" by simp
  from buckets_drain_in_time [OF a _ this, of 3 10000000003] a show ?thesis
    by (auto simp: aggregator_config_default_def from_secs_def)
qed

end
