(* ===== verification/Pipeline.thy ===== *)
theory Pipeline
  imports Dedup Event_Parser Aggregator
begin

section \<open>The intake pipeline and the acknowledging sink (\<^verbatim>\<open>pipeline.rs\<close>)\<close>

text \<open>
  The sequential handlers come first: \<^verbatim>\<open>process\<close>, \<^verbatim>\<open>AckingRenderSink::render\<close>, \<^verbatim>\<open>publish_ack\<close>,
  \<^verbatim>\<open>try_enqueue\<close>. Then the agent as a whole is a step relation in which the workers, the timers,
  the render tasks, the producers and the clock interleave at the points where the code takes a
  lock or awaits. What is outside of the repository is collected in \<open>env\<close>; the
  behaviour of the telemetry service and of the toast platform is chosen anew at every call.
\<close>

record env =
  env_ucd :: ucd
  env_url_parse :: url_parser
  env_from_slice :: from_slice
  env_graphemes :: segmenter

record received_event =
  re_payload :: "u8 list"
  re_received_at :: datetime
  re_seq :: u64

record pipeline_config =
  queue_capacity :: nat
  workers :: nat

definition ACK_PUBLISH_TIMEOUT :: duration where
  "ACK_PUBLISH_TIMEOUT = from_secs 5"

definition pipeline_config_default :: pipeline_config where
  "pipeline_config_default = \<lparr>queue_capacity = 500, workers = 2\<rparr>"

subsection \<open>Publishing acknowledgements\<close>

text \<open>A telemetry publisher answers a payload with a result after some time, or never.\<close>

type_synonym telemetry = "ack_payload \<Rightarrow> (rstring + unit) \<times> duration option"

datatype publish_outcome = Published | Publish_Failed rstring | Publish_Timed_Out

type_synonym ack_log = "(ack_payload \<times> publish_outcome) list"

definition publish_ack :: "telemetry \<Rightarrow> ack_payload \<Rightarrow> ack_log \<Rightarrow> ack_log \<times> duration" where
  "publish_ack telemetry ack lg =
     (case telemetry ack of
        (result, Some d) \<Rightarrow>
          if d \<le> ACK_PUBLISH_TIMEOUT
          then (lg @ [(ack, case result of Inr _ \<Rightarrow> Published | Inl e \<Rightarrow> Publish_Failed e)], d)
          else (lg @ [(ack, Publish_Timed_Out)], ACK_PUBLISH_TIMEOUT)
      | (_, None) \<Rightarrow> (lg @ [(ack, Publish_Timed_Out)], ACK_PUBLISH_TIMEOUT))"

definition observed_ack :: "rstring \<Rightarrow> inbound_notification \<Rightarrow> ack_payload" where
  "observed_ack dev n = \<lparr>ack_event_id = event_id n, ack_device_id = dev,
     agent_received_at = received_at n, toast_submitted_at = None, status = OBSERVED_BY_AGENT\<rparr>"

definition submitted_ack :: "rstring \<Rightarrow> datetime \<Rightarrow> inbound_notification \<Rightarrow> ack_payload" where
  "submitted_ack dev submitted_at n = \<lparr>ack_event_id = event_id n, ack_device_id = dev,
     agent_received_at = received_at n, toast_submitted_at = Some submitted_at,
     status = SUBMITTED_TO_WINDOWS\<rparr>"

subsection \<open>The handlers\<close>

text \<open>
  \<^verbatim>\<open>process\<close>: \<open>t1\<close> is the clock value \<^verbatim>\<open>try_add\<close> reads. The publication is awaited, so \<^verbatim>\<open>add\<close> is called later by its duration and by \<open>lag\<close>, the time
  that passes between the other steps.
\<close>

definition process ::
  "env \<Rightarrow> rstring \<Rightarrow> telemetry \<Rightarrow> instant \<Rightarrow> duration \<Rightarrow> received_event \<Rightarrow>
     dedup_cache \<times> aggregator \<times> ack_log \<Rightarrow> (dedup_cache \<times> aggregator \<times> ack_log) option" where
  "process E device_id telemetry t1 lag evt st =
     (case st of (dedup, aggr, lg) \<Rightarrow>
      case parse_event (env_ucd E) (env_url_parse E) (env_from_slice E)
             (re_payload evt) (re_received_at evt) (re_seq evt) of
        Inl e \<Rightarrow> Some (dedup, aggr, lg)
      | Inr n \<Rightarrow>
          (case try_add dedup t1 (deduplication_key n) of
             (False, dedup) \<Rightarrow> Some (dedup, aggr, lg)
           | (True, dedup) \<Rightarrow>
               let (lg, published_after) = publish_ack telemetry (observed_ack device_id n) lg in
               Option.bind (agg_add (env_graphemes E) (t1 + published_after + lag) n aggr) (\<lambda>aggr. Some (dedup, aggr, lg))))"

fun ack_sources ::
  "rstring \<Rightarrow> telemetry \<Rightarrow> datetime \<Rightarrow> inbound_notification list \<Rightarrow> ack_log \<Rightarrow> ack_log" where
  "ack_sources dev telemetry submitted_at [] lg = lg"
| "ack_sources dev telemetry submitted_at (source # rest) lg =
     ack_sources dev telemetry submitted_at rest
       (fst (publish_ack telemetry (submitted_ack dev submitted_at source) lg))"

text \<open>\<open>show\<close> is what \<^verbatim>\<open>ToastRenderer::show\<close> returns for this toast.\<close>

definition acking_render ::
  "rstring \<Rightarrow> telemetry \<Rightarrow> (toast_request \<Rightarrow> rstring + datetime) \<Rightarrow> toast_request \<Rightarrow> ack_log \<Rightarrow> ack_log" where
  "acking_render dev telemetry show toast lg =
     (case show toast of
        Inl e \<Rightarrow> lg
      | Inr submitted_at \<Rightarrow> ack_sources dev telemetry submitted_at (sources toast) lg)"

subsection \<open>The agent's state\<close>

text \<open>
  A worker of the pool between two atomic actions of \<^verbatim>\<open>process\<close>: waiting for an event, past the
  parser, past the clock read of \<^verbatim>\<open>try_add\<close> (but not yet holding the lock), past the duplicate check,
  past the publication of the observed acknowledgement, or ended.
\<close>

datatype worker =
    Idle
  | Parsed inbound_notification
  | Clock_Read inbound_notification instant
  | Fresh inbound_notification
  | Observed inbound_notification
  | Stopped

record agent =
  queue :: "received_event list"
  q_capacity :: nat
  tx_alive :: bool
  handles :: nat
  dropped_queue_full :: u64
  pool :: "worker list"
  dedup :: dedup_cache
  aggr :: aggregator
  acking :: "(datetime \<times> inbound_notification list) list"
  log :: ack_log
  clock :: instant
  device_id :: rstring

definition channel_open :: "agent \<Rightarrow> bool" where
  "channel_open s \<longleftrightarrow> tx_alive s \<or> 0 < handles s"

text \<open>\<^verbatim>\<open>Pipeline::start\<close> within \<^verbatim>\<open>build_agent\<close>; \<^verbatim>\<open>mpsc::channel\<close> panics on a capacity of zero.\<close>

definition pipeline_start ::
  "pipeline_config \<Rightarrow> dedup_cache \<Rightarrow> aggregator \<Rightarrow> instant \<Rightarrow> rstring \<Rightarrow> agent option" where
  "pipeline_start cfg dd ag now dev =
     (if queue_capacity cfg = 0 then None
      else Some \<lparr>queue = [], q_capacity = queue_capacity cfg, tx_alive = True, handles = 0,
        dropped_queue_full = 0, pool = map (\<lambda>_. Idle) [0..<workers cfg], dedup = dd,
        aggr = ag, acking = [], log = [], clock = now, device_id = dev\<rparr>)"

definition build_agent ::
  "pipeline_config \<Rightarrow> aggregator_config \<Rightarrow> dedup_cache \<Rightarrow> instant \<Rightarrow> rstring \<Rightarrow> agent option" where
  "build_agent pcfg acfg dd now dev = pipeline_start pcfg dd (aggregator_new acfg) now dev"

text \<open>
  \<^verbatim>\<open>try_send\<close> fails when the channel is full; the receiver lives as long as the pipeline, so it is
  not closed while a sender exists.
\<close>

definition try_enqueue :: "received_event \<Rightarrow> agent \<Rightarrow> bool \<times> agent" where
  "try_enqueue evt s =
     (if length (queue s) < q_capacity s
      then (True, s\<lparr>queue := queue s @ [evt]\<rparr>)
      else (False, s\<lparr>dropped_queue_full := dropped_queue_full s + 1\<rparr>))"

definition handle_enqueue :: "received_event \<Rightarrow> agent \<Rightarrow> bool \<times> agent" where
  "handle_enqueue evt s =
     (if length (queue s) < q_capacity s
      then (True, s\<lparr>queue := queue s @ [evt]\<rparr>)
      else (False, s\<lparr>dropped_queue_full := dropped_queue_full s + 1\<rparr>))"

lemma handle_enqueue_eq: "handle_enqueue evt s = try_enqueue evt s"
  by (simp add: handle_enqueue_def try_enqueue_def)

definition pipeline_dropped :: "agent \<Rightarrow> u64" where
  "pipeline_dropped s = dropped_queue_full s"

definition intake_handle :: "agent \<Rightarrow> agent" where
  "intake_handle s = s\<lparr>handles := Suc (handles s)\<rparr>"

definition drop_handle :: "agent \<Rightarrow> agent" where
  "drop_handle s = s\<lparr>handles := handles s - 1\<rparr>"

text \<open>\<^verbatim>\<open>Pipeline::shutdown\<close> drops the pipeline's own sender and then awaits the workers.\<close>

definition pipeline_close :: "agent \<Rightarrow> agent" where
  "pipeline_close s = s\<lparr>tx_alive := False\<rparr>"

definition pipeline_joined :: "agent \<Rightarrow> bool" where
  "pipeline_joined s \<longleftrightarrow> \<not> tx_alive s \<and> list_all (\<lambda>w. w = Stopped) (pool s)"

subsection \<open>Steps\<close>

abbreviation set_worker :: "nat \<Rightarrow> worker \<Rightarrow> agent \<Rightarrow> agent" where
  "set_worker i w s \<equiv> s\<lparr>pool := (pool s)[i := w]\<rparr>"

abbreviation worker_is :: "nat \<Rightarrow> worker \<Rightarrow> agent \<Rightarrow> bool" where
  "worker_is i w s \<equiv> i < length (pool s) \<and> pool s ! i = w"

text \<open>One atomic action of a worker: the loop of \<^verbatim>\<open>Pipeline::start\<close> around \<^verbatim>\<open>process\<close>.\<close>

inductive worker_step :: "env \<Rightarrow> agent \<Rightarrow> agent \<Rightarrow> bool" for E where
  recv_bad: "worker_is i Idle s \<Longrightarrow> queue s = evt # q \<Longrightarrow>
    parse_event (env_ucd E) (env_url_parse E) (env_from_slice E) (re_payload evt) (re_received_at evt)
      (re_seq evt) = Inl e \<Longrightarrow>
    worker_step E s (s\<lparr>queue := q\<rparr>)"
| recv_ok: "worker_is i Idle s \<Longrightarrow> queue s = evt # q \<Longrightarrow>
    parse_event (env_ucd E) (env_url_parse E) (env_from_slice E) (re_payload evt) (re_received_at evt)
      (re_seq evt) = Inr n \<Longrightarrow>
    worker_step E s (set_worker i (Parsed n) (s\<lparr>queue := q\<rparr>))"
| recv_closed: "worker_is i Idle s \<Longrightarrow> queue s = [] \<Longrightarrow> \<not> channel_open s \<Longrightarrow>
    worker_step E s (set_worker i Stopped s)"
| read_clock: "worker_is i (Parsed n) s \<Longrightarrow>
    worker_step E s (set_worker i (Clock_Read n (clock s)) s)"
| duplicate: "worker_is i (Clock_Read n t) s \<Longrightarrow>
    try_add (dedup s) t (deduplication_key n) = (False, d') \<Longrightarrow>
    worker_step E s (set_worker i Idle (s\<lparr>dedup := d'\<rparr>))"
| admitted: "worker_is i (Clock_Read n t) s \<Longrightarrow>
    try_add (dedup s) t (deduplication_key n) = (True, d') \<Longrightarrow>
    worker_step E s (set_worker i (Fresh n) (s\<lparr>dedup := d'\<rparr>))"
| observe: "worker_is i (Fresh n) s \<Longrightarrow>
    publish_ack telemetry (observed_ack (device_id s) n) (log s) = (lg, d) \<Longrightarrow>
    worker_step E s (set_worker i (Observed n) (s\<lparr>log := lg\<rparr>))"
| aggregate: "worker_is i (Observed n) s \<Longrightarrow>
    agg_add (env_graphemes E) (clock s) n (aggr s) = Some a' \<Longrightarrow>
    worker_step E s (set_worker i Idle (s\<lparr>aggr := a'\<rparr>))"

text \<open>
  The rest of the agent: producers, the clock, timers, the flushes of a shutdown, and the render
  tasks, which submit a toast and then acknowledge its sources one by one.
\<close>

inductive agent_step :: "env \<Rightarrow> agent \<Rightarrow> agent \<Rightarrow> bool" for E where
  work: "worker_step E s s' \<Longrightarrow> agent_step E s s'"
| enqueue: "tx_alive s \<Longrightarrow> agent_step E s (snd (try_enqueue evt s))"
| handle_enqueue: "0 < handles s \<Longrightarrow> agent_step E s (snd (handle_enqueue evt s))"
| new_handle: "tx_alive s \<Longrightarrow> agent_step E s (intake_handle s)"
| end_handle: "0 < handles s \<Longrightarrow> agent_step E s (drop_handle s)"
| close: "agent_step E s (pipeline_close s)"
| tick: "agent_step E s (s\<lparr>clock := clock s + d\<rparr>)"
| wake: "agent_step E s (s\<lparr>aggr := timer_wake (clock s) tid (aggr s)\<rparr>)"
| fire: "timer_fire (env_graphemes E) tid (aggr s) = Some a' \<Longrightarrow> agent_step E s (s\<lparr>aggr := a'\<rparr>)"
| flush: "agg_flush (env_graphemes E) k (aggr s) = Some a' \<Longrightarrow> agent_step E s (s\<lparr>aggr := a'\<rparr>)"
| show_failed: "renders (aggr s) = ts @ toast # us \<Longrightarrow>
    agent_step E s (s\<lparr>aggr := (aggr s)\<lparr>renders := ts @ us\<rparr>\<rparr>)"
| show_ok: "renders (aggr s) = ts @ toast # us \<Longrightarrow>
    agent_step E s (s\<lparr>aggr := (aggr s)\<lparr>renders := ts @ us\<rparr>, acking := acking s @ [(at, sources toast)]\<rparr>)"
| submit: "acking s = xs @ (at, n # ns) # ys \<Longrightarrow>
    publish_ack telemetry (submitted_ack (device_id s) at n) (log s) = (lg, d) \<Longrightarrow>
    agent_step E s (s\<lparr>acking := xs @ (at, ns) # ys, log := lg\<rparr>)"
| render_done: "acking s = xs @ (at, []) # ys \<Longrightarrow> agent_step E s (s\<lparr>acking := xs @ ys\<rparr>)"

inductive reachable :: "env \<Rightarrow> agent \<Rightarrow> agent \<Rightarrow> bool" for E s0 where
  start: "reachable E s0 s0"
| step: "reachable E s0 s \<Longrightarrow> agent_step E s s' \<Longrightarrow> reachable E s0 s'"

inductive_cases worker_stepE: "worker_step E s s'"
inductive_cases agent_stepE: "agent_step E s s'"

subsection \<open>Accounting: what is in flight and what is acknowledged\<close>

fun worker_events :: "worker \<Rightarrow> inbound_notification multiset" where
  "worker_events (Observed n) = {#n#}"
| "worker_events _ = {#}"

definition pool_events :: "worker list \<Rightarrow> inbound_notification multiset" where
  "pool_events ws = (\<Sum>w \<in># mset ws. worker_events w)"

definition acking_events :: "(datetime \<times> inbound_notification list) list \<Rightarrow> inbound_notification multiset" where
  "acking_events xs = (\<Sum>x \<in># mset xs. mset (snd x))"

definition in_flight :: "agent \<Rightarrow> inbound_notification multiset" where
  "in_flight s = pool_events (pool s) + held (aggr s) + acking_events (acking s)"

abbreviation ident :: "inbound_notification \<Rightarrow> rstring \<times> datetime" where
  "ident n \<equiv> (event_id n, received_at n)"

definition acks_with :: "rstring \<Rightarrow> ack_log \<Rightarrow> (rstring \<times> datetime) multiset" where
  "acks_with st lg = image_mset (\<lambda>p. (ack_event_id (fst p), agent_received_at (fst p)))
     (filter_mset (\<lambda>p. status (fst p) = st) (mset lg))"

lemma status_differ [simp]:
  "OBSERVED_BY_AGENT \<noteq> SUBMITTED_TO_WINDOWS" "SUBMITTED_TO_WINDOWS \<noteq> OBSERVED_BY_AGENT"
  by (simp_all add: OBSERVED_BY_AGENT_def SUBMITTED_TO_WINDOWS_def str_def)

lemma acks_with_Nil [simp]: "acks_with st [] = {#}"
  by (simp add: acks_with_def)

lemma acks_with_snoc [simp]:
  "acks_with st (lg @ [(a, r)]) =
     acks_with st lg + (if status a = st then {#(ack_event_id a, agent_received_at a)#} else {#})"
  by (simp add: acks_with_def)

lemma publish_ack_log: "publish_ack tel ack lg = (lg', d) \<Longrightarrow> \<exists>r. lg' = lg @ [(ack, r)]"
  by (auto simp: publish_ack_def split: prod.splits option.splits if_splits)

lemma publish_ack_appends: "\<exists>r d. publish_ack tel ack lg = (lg @ [(ack, r)], d)"
  by (metis publish_ack_log surj_pair)

text \<open>
  Publishing an acknowledgement never takes longer than the timeout of five seconds, never fails the
  caller, and hands the payload to the telemetry service exactly once whatever the service does.
\<close>

theorem publish_ack_bounded:
  "\<exists>r d. publish_ack tel ack lg = (lg @ [(ack, r)], d) \<and> d \<le> from_secs 5 \<and>
     (r = Published \<longleftrightarrow> (\<exists>t. tel ack = (Inr (), Some t) \<and> t \<le> from_secs 5))"
  by (cases "tel ack"; cases "snd (tel ack)"; cases "fst (tel ack)")
    (auto simp: publish_ack_def ACK_PUBLISH_TIMEOUT_def)

lemma pool_events_update:
  "i < length ws \<Longrightarrow> pool_events (ws[i := w]) + worker_events (ws ! i) = pool_events ws + worker_events w"
proof (induction ws arbitrary: i)
  case (Cons v ws)
  then show ?case by (cases i) (auto simp: pool_events_def ac_simps)
qed simp

lemma pool_events_quiet:
  assumes "i < length ws" and "worker_events (ws ! i) = {#}" and "worker_events w = {#}"
  shows "pool_events (ws[i := w]) = pool_events ws"
  using pool_events_update [OF assms(1), of w] assms(2,3) by simp

text \<open>At every moment no event was acknowledged as submitted more often than as observed.\<close>

definition acks_ordered :: "ack_log \<Rightarrow> bool" where
  "acks_ordered lg \<longleftrightarrow>
     (\<forall>k. acks_with SUBMITTED_TO_WINDOWS (take k lg) \<subseteq># acks_with OBSERVED_BY_AGENT (take k lg))"

lemma acks_ordered_snoc:
  assumes "acks_ordered lg"
    and "acks_with SUBMITTED_TO_WINDOWS (lg @ [x]) \<subseteq># acks_with OBSERVED_BY_AGENT (lg @ [x])"
  shows "acks_ordered (lg @ [x])"
  unfolding acks_ordered_def
proof
  fix k
  show "acks_with SUBMITTED_TO_WINDOWS (take k (lg @ [x])) \<subseteq># acks_with OBSERVED_BY_AGENT (take k (lg @ [x]))"
  proof (cases "k \<le> length lg")
    case True
    with assms(1) show ?thesis by (simp add: acks_ordered_def)
  next
    case False
    with assms(2) show ?thesis by simp
  qed
qed

definition accounts_ok :: "agent \<Rightarrow> bool" where
  "accounts_ok s \<longleftrightarrow> acks_ordered (log s) \<and>
     image_mset ident (in_flight s) + acks_with SUBMITTED_TO_WINDOWS (log s) \<subseteq>#
       acks_with OBSERVED_BY_AGENT (log s)"

lemma accounts_less:
  assumes "accounts_ok s" and "in_flight s' \<subseteq># in_flight s" and "log s' = log s"
  shows "accounts_ok s'"
proof -
  have "image_mset ident (in_flight s') \<subseteq># image_mset ident (in_flight s)"
    using assms(2) by (rule image_mset_subseteq_mono)
  then have "image_mset ident (in_flight s') + acks_with SUBMITTED_TO_WINDOWS (log s) \<subseteq>#
      image_mset ident (in_flight s) + acks_with SUBMITTED_TO_WINDOWS (log s)"
    by (rule subset_mset.add_right_mono)
  from subset_mset.order_trans [OF this] assms(1,3) show ?thesis by (simp add: accounts_ok_def)
qed

lemma accounts_log:
  assumes "accounts_ok s" and "log s' = log s @ [(a, r)]"
    and "image_mset ident (in_flight s') + acks_with SUBMITTED_TO_WINDOWS (log s') \<subseteq># acks_with OBSERVED_BY_AGENT (log s')"
  shows "accounts_ok s'"
proof -
  have "acks_with SUBMITTED_TO_WINDOWS (log s') \<subseteq># acks_with OBSERVED_BY_AGENT (log s')"
    using assms(3) by (rule subset_mset.order_trans [OF mset_subset_eq_add_right])
  with assms show ?thesis by (simp add: accounts_ok_def acks_ordered_snoc)
qed

subsection \<open>The invariant\<close>

definition agent_inv :: "agent \<Rightarrow> bool" where
  "agent_inv s \<longleftrightarrow> length (queue s) \<le> q_capacity s \<and> dedup_inv (dedup s) \<and> agg_inv (aggr s) \<and>
     accounts_ok s \<and> (\<forall>p \<in> set (log s). ack_device_id (fst p) = device_id s) \<and>
     (Stopped \<in> set (pool s) \<longrightarrow> queue s = [] \<and> \<not> channel_open s)"

lemma worker_step_frame:
  assumes "worker_step E s s'"
  shows "q_capacity s' = q_capacity s \<and> device_id s' = device_id s \<and> length (pool s') = length (pool s) \<and>
    (channel_open s' \<longleftrightarrow> channel_open s) \<and> length (queue s') \<le> length (queue s)"
  using assms by cases (simp_all add: channel_open_def)

lemma worker_step_parts:
  assumes "worker_step E s s'" and "agent_inv s"
  shows "dedup_inv (dedup s') \<and> agg_inv (aggr s')"
  using assms(1)
proof cases
  case (duplicate i n t d')
  then show ?thesis using assms(2) dc.add_inv [of "dedup s" t "deduplication_key n"] by (simp add: agent_inv_def)
next
  case (admitted i n t d')
  then show ?thesis using assms(2) dc.add_inv [of "dedup s" t "deduplication_key n"] by (simp add: agent_inv_def)
next
  case (aggregate i n a')
  then show ?thesis using assms(2) agg_add_inv by (auto simp: agent_inv_def)
qed (use assms(2) in \<open>simp_all add: agent_inv_def\<close>)

lemma worker_step_accounts:
  assumes "worker_step E s s'" and "agent_inv s"
  shows "accounts_ok s'"
proof -
  have acc: "accounts_ok s" using assms(2) by (simp add: agent_inv_def)
  from assms(1) show ?thesis
  proof cases
    case (observe i n tel lg d)
    obtain r where lg: "lg = log s @ [(observed_ack (device_id s) n, r)]"
      using publish_ack_log [OF observe(3)] by blast
    have "in_flight s' = add_mset n (in_flight s)"
      using pool_events_update [of i "pool s" "Observed n"] observe by (simp add: in_flight_def)
    with acc show ?thesis
      by (intro accounts_log [OF acc])
        (auto simp: observe(1) lg observed_ack_def accounts_ok_def)
  next
    case (aggregate i n a')
    have "pool_events (pool s) = add_mset n (pool_events (pool s'))"
      using pool_events_update [of i "pool s" Idle] aggregate by simp
    moreover have "held a' \<subseteq># add_mset n (held (aggr s))"
      using agg_add_held [OF _ aggregate(3)] assms(2) by (simp add: agent_inv_def)
    ultimately have "in_flight s' \<subseteq># in_flight s"
      using subset_mset.add_right_mono [of "held a'" "add_mset n (held (aggr s))"
          "pool_events (pool s') + acking_events (acking s)"]
      by (simp add: in_flight_def aggregate(1) ac_simps)
    then show ?thesis by (rule accounts_less [OF acc]) (simp add: aggregate(1))
  qed (auto intro!: accounts_less [OF acc] simp: in_flight_def pool_events_quiet)
qed

lemma worker_step_inv:
  assumes "worker_step E s s'" and "agent_inv s"
  shows "agent_inv s'"
proof -
  have "\<forall>p \<in> set (log s'). ack_device_id (fst p) = device_id s"
    using assms(1)
  proof cases
    case (observe i n tel lg d)
    then obtain r where "lg = log s @ [(observed_ack (device_id s) n, r)]" using publish_ack_log by blast
    with observe(1) assms(2) show ?thesis by (auto simp: agent_inv_def observed_ack_def)
  qed (use assms(2) in \<open>simp_all add: agent_inv_def\<close>)
  moreover have "Stopped \<in> set (pool s') \<longrightarrow> queue s' = [] \<and> \<not> channel_open s'"
    using assms(1)
  proof cases
    case (recv_closed i)
    then show ?thesis by (simp add: channel_open_def)
  qed (use assms(2) in \<open>auto simp: agent_inv_def channel_open_def dest!: subsetD [OF set_update_subset_insert]\<close>)
  ultimately show ?thesis
    using assms(2) worker_step_frame [OF assms(1)] worker_step_parts [OF assms] worker_step_accounts [OF assms]
    by (simp add: agent_inv_def)
qed

text \<open>Steps of the aggregator alone, through its contract.\<close>

lemma aggr_step_inv:
  assumes "agent_inv s" and "agg_exec g op (aggr s) = Some a'" and "op_offers op = {#}"
  shows "agent_inv (s\<lparr>aggr := a'\<rparr>)"
proof -
  have inv: "agg_inv (aggr s)" using assms(1) by (simp add: agent_inv_def)
  have "held a' \<subseteq># held (aggr s)" using agg.exec_content [OF inv assms(2)] assms(3) by simp
  then have "in_flight (s\<lparr>aggr := a'\<rparr>) \<subseteq># in_flight s" by (simp add: in_flight_def)
  then have "accounts_ok (s\<lparr>aggr := a'\<rparr>)"
    by (rule accounts_less [rotated]) (use assms(1) in \<open>simp_all add: agent_inv_def\<close>)
  with assms(1) agg.exec_inv [OF inv assms(2)] show ?thesis by (simp add: agent_inv_def channel_open_def)
qed

lemma held_render: "renders a = ts @ toast # us \<Longrightarrow> held a = held (a\<lparr>renders := ts @ us\<rparr>) + mset (sources toast)"
  by (simp add: held_def rendering_def)

lemma acking_events_split:
  "acking_events (xs @ (at, ns) # ys) = acking_events (xs @ ys) + mset ns"
  by (simp add: acking_events_def ac_simps)

lemma show_inv:
  assumes "agent_inv s" and "renders (aggr s) = ts @ toast # us"
    and "acking' = acking s \<or> acking' = acking s @ [(at, sources toast)]"
  shows "agent_inv (s\<lparr>aggr := (aggr s)\<lparr>renders := ts @ us\<rparr>, acking := acking'\<rparr>)"
proof -
  let ?s = "s\<lparr>aggr := (aggr s)\<lparr>renders := ts @ us\<rparr>, acking := acking'\<rparr>"
  have "acking_events acking' \<subseteq># acking_events (acking s) + mset (sources toast)"
    using assms(3) by (auto simp: acking_events_def)
  then have "in_flight ?s \<subseteq># in_flight s"
    using subset_mset.add_left_mono [of "acking_events acking'" _ "pool_events (pool s) + held ((aggr s)\<lparr>renders := ts @ us\<rparr>)"]
    by (simp add: in_flight_def held_render [OF assms(2)] ac_simps)
  then have "accounts_ok ?s"
    by (rule accounts_less [rotated]) (use assms(1) in \<open>simp_all add: agent_inv_def\<close>)
  with assms(1) show ?thesis by (simp add: agent_inv_def channel_open_def)
qed

lemma submit_inv:
  assumes "agent_inv s" and "acking s = xs @ (at, n # ns) # ys"
    and "publish_ack tel (submitted_ack (device_id s) at n) (log s) = (lg, d)"
  shows "agent_inv (s\<lparr>acking := xs @ (at, ns) # ys, log := lg\<rparr>)"
proof -
  let ?s = "s\<lparr>acking := xs @ (at, ns) # ys, log := lg\<rparr>"
  obtain r where lg: "lg = log s @ [(submitted_ack (device_id s) at n, r)]"
    using publish_ack_log [OF assms(3)] by blast
  have acc: "accounts_ok s" using assms(1) by (simp add: agent_inv_def)
  have "in_flight s = add_mset n (in_flight ?s)"
    by (simp add: in_flight_def assms(2) acking_events_split)
  then have "accounts_ok ?s"
    using acc by (intro accounts_log [OF acc]) (auto simp: lg submitted_ack_def accounts_ok_def)
  with assms(1) lg show ?thesis by (auto simp: agent_inv_def channel_open_def submitted_ack_def)
qed

lemma intake_inv:
  assumes "agent_inv s" and "in_flight s' = in_flight s" and "log s' = log s"
    and "device_id s' = device_id s" and "dedup s' = dedup s" and "aggr s' = aggr s"
    and "length (queue s') \<le> q_capacity s'" and "pool s' = pool s"
    and "Stopped \<in> set (pool s) \<longrightarrow> queue s' = [] \<and> \<not> channel_open s'"
  shows "agent_inv s'"
  using assms by (simp add: agent_inv_def accounts_ok_def)

lemma agent_step_inv:
  assumes "agent_step E s s'" and inv: "agent_inv s"
  shows "agent_inv s'"
  using assms(1)
proof cases
  case work
  then show ?thesis using inv by (rule worker_step_inv)
next
  case (enqueue evt)
  have "Stopped \<notin> set (pool s)" using enqueue(2) inv by (auto simp: agent_inv_def channel_open_def)
  with inv show ?thesis
    by (intro intake_inv [OF inv]) (auto simp: enqueue(1) try_enqueue_def in_flight_def agent_inv_def)
next
  case (handle_enqueue evt)
  have "Stopped \<notin> set (pool s)" using handle_enqueue(2) inv by (auto simp: agent_inv_def channel_open_def)
  with inv show ?thesis
    by (intro intake_inv [OF inv])
      (auto simp: handle_enqueue(1) handle_enqueue_eq try_enqueue_def in_flight_def agent_inv_def)
next
  case (wake tid)
  then show ?thesis using aggr_step_inv [OF inv, where op = "Wake (clock s) tid"] by (simp add: agg_exec_def)
next
  case (fire tid a')
  then show ?thesis using aggr_step_inv [OF inv, where op = "Fire tid"] by (simp add: agg_exec_def)
next
  case (flush k a')
  then show ?thesis using aggr_step_inv [OF inv, where op = "FlushKey k"] by (simp add: agg_exec_def)
next
  case (show_failed ts toast us)
  then show ?thesis using show_inv [OF inv show_failed(2), of "acking s"] by simp
next
  case (show_ok ts toast us at)
  then show ?thesis using show_inv [OF inv show_ok(2)] by simp
next
  case (submit xs at n ns ys tel lg d)
  then show ?thesis using submit_inv [OF inv] by simp
next
  case (render_done xs at ys)
  then show ?thesis
    using inv by (intro intake_inv [OF inv])
      (auto simp: in_flight_def acking_events_split agent_inv_def channel_open_def)
qed (use inv in \<open>auto simp: intake_handle_def drop_handle_def pipeline_close_def agent_inv_def channel_open_def
      accounts_ok_def in_flight_def\<close>)

lemma reachable_inv: "reachable E s0 s \<Longrightarrow> agent_inv s0 \<Longrightarrow> agent_inv s"
  by (induction rule: reachable.induct) (auto intro: agent_step_inv)

lemma agent_step_frame:
  assumes "agent_step E s s'"
  shows "q_capacity s' = q_capacity s \<and> device_id s' = device_id s \<and> length (pool s') = length (pool s)"
  using assms
  by cases (auto simp: handle_enqueue_eq try_enqueue_def intake_handle_def drop_handle_def pipeline_close_def
      dest: worker_step_frame)

lemma reachable_frame:
  "reachable E s0 s \<Longrightarrow> q_capacity s = q_capacity s0 \<and> device_id s = device_id s0 \<and> length (pool s) = length (pool s0)"
  by (induction rule: reachable.induct) (auto dest: agent_step_frame)

lemma build_agent_inv:
  assumes "build_agent pcfg acfg dd now dev = Some s" and "dedup_inv dd"
  shows "agent_inv s"
proof -
  have "pool_events (map (\<lambda>_. Idle) xs) = {#}" for xs :: "nat list"
    by (induction xs) (auto simp: pool_events_def)
  with assms held_empty [of acfg] agg_inv_new [of acfg] show ?thesis
    by (auto simp: build_agent_def pipeline_start_def agent_inv_def accounts_ok_def acks_ordered_def in_flight_def
        acking_events_def split: if_splits)
qed

text \<open>The limits themselves never change.\<close>

lemma try_add_capacity: "try_add d t k = (b, d') \<Longrightarrow> capacity d' = capacity d"
  using try_add_frame(1) [of d t k] by simp

lemma agg_add_config: "agg_add g t n a = Some a' \<Longrightarrow> config a' = config a"
  using agg_exec_config [of g "Add t n"] by (simp add: agg_exec_def)

lemma agent_step_limits:
  assumes "agent_step E s s'"
  shows "capacity (dedup s') = capacity (dedup s) \<and> config (aggr s') = config (aggr s)"
  using assms
proof cases
  case work
  then show ?thesis by cases (auto dest: try_add_capacity agg_add_config)
next
  case (fire tid a')
  then show ?thesis using agg_exec_config [of "env_graphemes E" "Fire tid"] by (simp add: agg_exec_def)
next
  case (flush k a')
  then show ?thesis using agg_exec_config [of "env_graphemes E" "FlushKey k"] by (simp add: agg_exec_def)
qed (auto simp: handle_enqueue_eq try_enqueue_def intake_handle_def drop_handle_def pipeline_close_def timer_wake_def)

lemma reachable_limits:
  "reachable E s0 s \<Longrightarrow> capacity (dedup s) = capacity (dedup s0) \<and> config (aggr s) = config (aggr s0)"
  by (induction rule: reachable.induct) (auto dest: agent_step_limits)

text \<open>
  Property C8. Bounded memory: in every reachable state of the agent, however producers, workers, timers and renders
  interleave, the intake queue, the duplicate cache and the open buckets are within their
  configured limits, and the invariants of the duplicate cache and the aggregator hold.
\<close>

theorem agent_bounded:
  assumes "dedup_new cap life = Some dd" and "build_agent pcfg acfg dd now dev = Some s0"
    and "reachable E s0 s"
  shows "length (queue s) \<le> queue_capacity pcfg \<and> dedup_len (dedup s) \<le> cap \<and>
    hm_len (buckets (aggr s)) \<le> max_buckets acfg \<and> length (pool s) = workers pcfg \<and>
    dedup_inv (dedup s) \<and> agg_inv (aggr s)"
proof -
  have inv: "agent_inv s"
    using reachable_inv [OF assms(3)] build_agent_inv [OF assms(2) dedup_new_inv [OF assms(1)]] by blast
  have s0: "q_capacity s0 = queue_capacity pcfg" "capacity (dedup s0) = cap" "config (aggr s0) = acfg"
    "length (pool s0) = workers pcfg"
    using assms(1,2)
    by (auto simp: build_agent_def pipeline_start_def dedup_new_def aggregator_new_def split: if_splits)
  from inv reachable_frame [OF assms(3)] reachable_limits [OF assms(3)] show ?thesis
    unfolding s0 agent_inv_def dedup_inv_def agg_inv_but_def by metis
qed

text \<open>
  Acknowledgement order: at every point of the published acknowledgements, no event (by its id and receipt
  time) has been acknowledged as submitted more often than as observed. So a submitted
  acknowledgement always follows an observed one of the same event, no event is submitted twice
  for one admission, and all carry the agent's device id.
\<close>

theorem submitted_after_observed:
  assumes "dedup_inv dd" and "build_agent pcfg acfg dd now dev = Some s0" and "reachable E s0 s"
  shows "acks_with SUBMITTED_TO_WINDOWS (take k (log s)) \<subseteq># acks_with OBSERVED_BY_AGENT (take k (log s)) \<and>
    list_all (\<lambda>p. ack_device_id (fst p) = dev) (log s)"
proof -
  have "agent_inv s" using reachable_inv [OF assms(3)] build_agent_inv [OF assms(2,1)] by blast
  moreover have "device_id s = dev"
    using reachable_frame [OF assms(3)] assms(2)
    by (auto simp: build_agent_def pipeline_start_def split: if_splits)
  ultimately show ?thesis by (auto simp: agent_inv_def accounts_ok_def acks_ordered_def list_all_iff)
qed

subsection \<open>Shutdown drains the queue\<close>

fun phase :: "worker \<Rightarrow> nat" where
  "phase Idle = 1"
| "phase (Parsed _) = 5"
| "phase (Clock_Read _ _) = 4"
| "phase (Fresh _) = 3"
| "phase (Observed _) = 2"
| "phase Stopped = 0"

definition work_left :: "agent \<Rightarrow> nat" where
  "work_left s = 5 * length (queue s) + sum_list (map phase (pool s))"

lemma sum_phase_update:
  "i < length ws \<Longrightarrow> sum_list (map phase (ws[i := w])) + phase (ws ! i) = sum_list (map phase ws) + phase w"
proof (induction ws arbitrary: i)
  case (Cons v ws)
  then show ?case by (cases i) auto
qed simp

lemma worker_step_decreases:
  assumes "worker_step E s s'"
  shows "work_left s' < work_left s"
  using assms
proof cases
  case (recv_ok i evt q n)
  then show ?thesis using sum_phase_update [of i "pool s" "Parsed n"] by (simp add: work_left_def)
next
  case (recv_closed i)
  then show ?thesis using sum_phase_update [of i "pool s" Stopped] by (simp add: work_left_def)
next
  case (read_clock i n)
  then show ?thesis using sum_phase_update [of i "pool s" "Clock_Read n (clock s)"] by (simp add: work_left_def)
next
  case (duplicate i n t d')
  then show ?thesis using sum_phase_update [of i "pool s" Idle] by (simp add: work_left_def)
next
  case (admitted i n t d')
  then show ?thesis using sum_phase_update [of i "pool s" "Fresh n"] by (simp add: work_left_def)
next
  case (observe i n tel lg d)
  then show ?thesis using sum_phase_update [of i "pool s" "Observed n"] by (simp add: work_left_def)
next
  case (aggregate i n a')
  then show ?thesis using sum_phase_update [of i "pool s" Idle] by (simp add: work_left_def)
qed (simp add: work_left_def)

text \<open>A worker is never stuck: no lock, parser, cache or aggregator call can fail it.\<close>

lemma worker_progress:
  assumes "i < length (pool s)" and "pool s ! i \<noteq> Stopped"
    and "pool s ! i = Idle \<longrightarrow> queue s \<noteq> [] \<or> \<not> channel_open s"
  shows "\<exists>s'. worker_step E s s'"
proof (cases "pool s ! i")
  case Idle
  show ?thesis
  proof (cases "queue s")
    case Nil
    with Idle assms recv_closed [of i s E] show ?thesis by blast
  next
    case (Cons evt q)
    show ?thesis
    proof (cases "parse_event (env_ucd E) (env_url_parse E) (env_from_slice E) (re_payload evt)
        (re_received_at evt) (re_seq evt)")
      case (Inl e)
      with Idle assms(1) Cons recv_bad show ?thesis by blast
    next
      case (Inr n)
      with Idle assms(1) Cons recv_ok show ?thesis by blast
    qed
  qed
next
  case (Parsed n)
  with assms(1) read_clock [of i s n E] show ?thesis by blast
next
  case (Clock_Read n t)
  obtain b d' where "try_add (dedup s) t (deduplication_key n) = (b, d')" by fastforce
  with Clock_Read assms(1) duplicate [of i s n t d' E] admitted [of i s n t d' E] show ?thesis by (cases b) auto
next
  case (Fresh n)
  obtain lg d where "publish_ack (\<lambda>_. (Inr (), None)) (observed_ack (device_id s) n) (log s) = (lg, d)" by fastforce
  with Fresh assms(1) observe [of i s n _ lg d E] show ?thesis by blast
next
  case (Observed n)
  obtain a' where "agg_add (env_graphemes E) (clock s) n (aggr s) = Some a'" using agg_add_Some by blast
  with Observed assms(1) aggregate [of i s n E a'] show ?thesis by blast
qed (use assms(2) in simp)

lemma closed_step:
  assumes "agent_step E s s'" and "\<not> channel_open s"
  shows "\<not> channel_open s' \<and> work_left s' \<le> work_left s"
  using assms(1)
proof cases
  case work
  then show ?thesis
    using worker_step_frame [OF work] worker_step_decreases [OF work] assms(2) by simp
qed (use assms(2) in \<open>auto simp: channel_open_def work_left_def drop_handle_def pipeline_close_def\<close>)

lemma work_left_0: "work_left s = 0 \<longleftrightarrow> queue s = [] \<and> list_all (\<lambda>w. w = Stopped) (pool s)"
proof -
  have "phase w = 0 \<longleftrightarrow> w = Stopped" for w by (cases w) auto
  then show ?thesis by (auto simp: work_left_def list_all_iff)
qed

lemma closed_progress:
  assumes "agent_inv s" and "\<not> channel_open s" and "pool s \<noteq> []" and "work_left s \<noteq> 0"
  shows "\<exists>s'. worker_step E s s'"
proof -
  have "\<exists>w \<in> set (pool s). w \<noteq> Stopped"
  proof (rule ccontr)
    assume "\<not> (\<exists>w \<in> set (pool s). w \<noteq> Stopped)"
    then have all: "list_all (\<lambda>w. w = Stopped) (pool s)" by (auto simp: list_all_iff)
    with assms(3) have "Stopped \<in> set (pool s)" by (cases "pool s") auto
    with assms(1) have "queue s = []" by (simp add: agent_inv_def)
    with all assms(4) show False by (simp add: work_left_0)
  qed
  then obtain i where "i < length (pool s)" "pool s ! i \<noteq> Stopped" by (auto simp: in_set_conv_nth)
  with worker_progress assms(2) show ?thesis by blast
qed

lemma closed_drains:
  assumes "agent_inv s" and "\<not> channel_open s" and "pool s \<noteq> []"
  shows "\<exists>s'. (worker_step E)\<^sup>*\<^sup>* s s' \<and> work_left s' = 0"
  using assms
proof (induction "work_left s" arbitrary: s rule: less_induct)
  case less
  show ?case
  proof (cases "work_left s = 0")
    case False
    then obtain s1 where s1: "worker_step E s s1" using closed_progress less.prems by blast
    have "agent_inv s1" "\<not> channel_open s1" "pool s1 \<noteq> []"
      using worker_step_inv [OF s1 less.prems(1)] worker_step_frame [OF s1] less.prems by auto
    from less.hyps [OF worker_step_decreases [OF s1] this] s1 show ?thesis
      by (meson converse_rtranclp_into_rtranclp)
  qed blast
qed

text \<open>
  Property C15. Shutdown terminates: once the last sender is gone, \<open>work_left\<close> (at most five actions per queued event and
  per worker) never grows, falls with every action of a worker, and as long as it is positive some
  worker can act; when it is zero the queue is empty and every worker has ended, and that state is
  reached by the workers alone.
\<close>

theorem shutdown_drains:
  assumes "dedup_inv dd" and "build_agent pcfg acfg dd now dev = Some s0" and "0 < workers pcfg"
    and "reachable E s0 s" and "\<not> channel_open s"
  shows "work_left s \<le> 5 * (queue_capacity pcfg + workers pcfg) \<and>
    (\<forall>s'. agent_step E s s' \<longrightarrow> \<not> channel_open s' \<and> work_left s' \<le> work_left s) \<and>
    (\<forall>s'. worker_step E s s' \<longrightarrow> work_left s' < work_left s) \<and>
    (work_left s \<noteq> 0 \<longrightarrow> (\<exists>s'. worker_step E s s')) \<and>
    (\<exists>s'. (worker_step E)\<^sup>*\<^sup>* s s' \<and> queue s' = [] \<and> list_all (\<lambda>w. w = Stopped) (pool s'))"
proof -
  have inv: "agent_inv s" using reachable_inv [OF assms(4)] build_agent_inv [OF assms(2,1)] by blast
  have len: "length (pool s) = workers pcfg" "q_capacity s = queue_capacity pcfg"
    using reachable_frame [OF assms(4)] assms(2)
    by (auto simp: build_agent_def pipeline_start_def split: if_splits)
  with assms(3) have pool: "pool s \<noteq> []" by auto
  have "phase w \<le> 5" for w by (cases w) auto
  then have "sum_list (map phase ws) \<le> 5 * length ws" for ws
    by (induction ws) (auto intro: add_mono)
  from this [of "pool s"] have "work_left s \<le> 5 * (queue_capacity pcfg + workers pcfg)"
    using inv len by (simp add: work_left_def agent_inv_def)
  moreover have "\<exists>s'. (worker_step E)\<^sup>*\<^sup>* s s' \<and> queue s' = [] \<and> list_all (\<lambda>w. w = Stopped) (pool s')"
    using closed_drains [OF inv assms(5) pool] work_left_0 by blast
  ultimately show ?thesis
    using closed_step [OF _ assms(5)] worker_step_decreases closed_progress [OF inv assms(5) pool] by blast
qed

subsection \<open>The steps against the handlers\<close>

text \<open>
  The step relation and the handler agree: for an idle worker and the event at the head of the queue, whatever
  \<^verbatim>\<open>process\<close> computes is the result of a sequence of steps of the agent, with the worker idle again.
\<close>

lemma process_steps:
  assumes "worker_is i Idle s" and "queue s = evt # q" and "clock s \<le> t1"
    and "process E (device_id s) tel t1 lag evt (dedup s, aggr s, log s) = Some (d', a', lg')"
  shows "\<exists>t. (agent_step E)\<^sup>*\<^sup>* s (s\<lparr>queue := q, dedup := d', aggr := a', log := lg', clock := t\<rparr>)"
proof (cases "parse_event (env_ucd E) (env_url_parse E) (env_from_slice E) (re_payload evt)
    (re_received_at evt) (re_seq evt)")
  case (Inl e)
  with assms(4) have "d' = dedup s" "a' = aggr s" "lg' = log s" by (auto simp: process_def)
  with recv_bad [OF assms(1,2) Inl] show ?thesis
    by (intro exI [of _ "clock s"]) (auto intro!: r_into_rtranclp work)
next
  case (Inr n)
  let ?s1 = "set_worker i (Parsed n) (s\<lparr>queue := q\<rparr>)"
  let ?s2 = "?s1\<lparr>clock := t1\<rparr>"
  let ?s3 = "set_worker i (Clock_Read n t1) ?s2"
  have 1: "agent_step E s ?s1" using recv_ok [OF assms(1,2) Inr] by (rule work)
  have 2: "agent_step E ?s1 ?s2" using tick [of E "?s1" "t1 - clock s"] assms(3) by simp
  have 3: "agent_step E ?s2 ?s3" using read_clock [of i "?s2" n E] assms(1) work by simp
  have to3: "(agent_step E)\<^sup>*\<^sup>* s ?s3" using 1 2 3 by (meson converse_rtranclp_into_rtranclp r_into_rtranclp)
  obtain b d where add: "try_add (dedup s) t1 (deduplication_key n) = (b, d)" by fastforce
  have pool_same: "(pool s)[i := Idle] = pool s" using assms(1) by (metis list_update_id)
  show ?thesis
  proof (cases b)
    case False
    with add assms(4) Inr have r: "d' = d" "a' = aggr s" "lg' = log s" by (auto simp: process_def)
    have "agent_step E ?s3 (set_worker i Idle (?s3\<lparr>dedup := d\<rparr>))"
      using duplicate [of i "?s3" n t1 d E] add False assms(1) work by simp
    moreover have "set_worker i Idle (?s3\<lparr>dedup := d\<rparr>) =
        s\<lparr>queue := q, dedup := d', aggr := a', log := lg', clock := t1\<rparr>"
      by (rule agent.equality) (simp_all add: r pool_same)
    ultimately have "agent_step E ?s3 (s\<lparr>queue := q, dedup := d', aggr := a', log := lg', clock := t1\<rparr>)"
      by metis
    with to3 show ?thesis by (meson rtranclp.rtrancl_into_rtrancl)
  next
    case True
    obtain lg dur where pub: "publish_ack tel (observed_ack (device_id s) n) (log s) = (lg, dur)" by fastforce
    let ?t2 = "t1 + dur + lag"
    from pub True add assms(4) Inr have r: "d' = d" "lg' = lg" "agg_add (env_graphemes E) ?t2 n (aggr s) = Some a'"
      by (auto simp: process_def bind_eq_Some_conv)
    let ?s4 = "set_worker i (Fresh n) (?s3\<lparr>dedup := d\<rparr>)"
    let ?s5 = "set_worker i (Observed n) (?s4\<lparr>log := lg\<rparr>)"
    let ?s6 = "?s5\<lparr>clock := ?t2\<rparr>"
    have 4: "agent_step E ?s3 ?s4" using admitted [of i "?s3" n t1 d E] add True assms(1) work by simp
    have 5: "agent_step E ?s4 ?s5" using observe [of i "?s4" n tel lg dur E] pub assms(1) work by simp
    have 6: "agent_step E ?s5 ?s6" using tick [of E "?s5" "dur + lag"] by (simp add: add.assoc)
    have 7: "agent_step E ?s6 (set_worker i Idle (?s6\<lparr>aggr := a'\<rparr>))"
      using aggregate [of i "?s6" n E a'] r(3) assms(1) work by simp
    moreover have "set_worker i Idle (?s6\<lparr>aggr := a'\<rparr>) =
        s\<lparr>queue := q, dedup := d', aggr := a', log := lg', clock := ?t2\<rparr>"
      by (rule agent.equality) (simp_all add: r pool_same)
    ultimately have "agent_step E ?s6 (s\<lparr>queue := q, dedup := d', aggr := a', log := lg', clock := ?t2\<rparr>)"
      by metis
    with to3 4 5 6 show ?thesis by (meson rtranclp.rtrancl_into_rtrancl)
  qed
qed

lemma ack_sources_log:
  "\<exists>rs. length rs = length ns \<and> ack_sources dev tel at ns lg = lg @ zip (map (submitted_ack dev at) ns) rs"
proof (induction ns arbitrary: lg)
  case (Cons n ns)
  obtain r d where "publish_ack tel (submitted_ack dev at n) lg = (lg @ [(submitted_ack dev at n, r)], d)"
    using publish_ack_appends by blast
  moreover obtain rs where "length rs = length ns"
    "ack_sources dev tel at ns (lg @ [(submitted_ack dev at n, r)]) =
      (lg @ [(submitted_ack dev at n, r)]) @ zip (map (submitted_ack dev at) ns) rs"
    using Cons.IH by blast
  ultimately show ?case by (intro exI [of _ "r # rs"]) simp
qed simp

text \<open>
  Rendering: a toast the platform refuses yields no acknowledgement at all; a submitted one yields exactly
  one submitted acknowledgement per source event, in order, each with its own receipt time and all with
  the one submission time, whatever happens to the publication of the others.
\<close>

theorem render_acks_sources:
  "case show toast of
     Inl e \<Rightarrow> acking_render dev tel show toast lg = lg
   | Inr at \<Rightarrow> \<exists>rs. length rs = length (sources toast) \<and>
       acking_render dev tel show toast lg =
         lg @ zip (map (\<lambda>n. \<lparr>ack_event_id = event_id n, ack_device_id = dev, agent_received_at = received_at n,
           toast_submitted_at = Some at, status = str ''submitted_to_windows''\<rparr>) (sources toast)) rs"
proof (cases "show toast")
  case (Inr at)
  have "submitted_ack dev at = (\<lambda>n. \<lparr>ack_event_id = event_id n, ack_device_id = dev, agent_received_at = received_at n,
      toast_submitted_at = Some at, status = str ''submitted_to_windows''\<rparr>)"
    by (rule ext) (simp add: submitted_ack_def SUBMITTED_TO_WINDOWS_def)
  with Inr ack_sources_log [where ns = "sources toast" and dev = dev and tel = tel and at = at and lg = lg]
  show ?thesis by (simp add: acking_render_def)
qed (simp add: acking_render_def)

text \<open>
  Intake: an event is refused exactly when the queue is full, a refusal is counted (modulo the counter's 64 bits)
  and changes nothing else, an accepted event joins the end of the queue, and the queue never
  exceeds its capacity.
\<close>

theorem try_enqueue_bounded:
  assumes "length (queue s) \<le> q_capacity s"
  shows "(fst (try_enqueue evt s) \<longleftrightarrow> length (queue s) < q_capacity s) \<and>
    length (queue (snd (try_enqueue evt s))) \<le> q_capacity s \<and>
    snd (try_enqueue evt s) =
      (if fst (try_enqueue evt s) then s\<lparr>queue := queue s @ [evt]\<rparr>
       else s\<lparr>dropped_queue_full := dropped_queue_full s + 1\<rparr>) \<and>
    (\<not> fst (try_enqueue evt s) \<longrightarrow>
      unat (dropped_queue_full (snd (try_enqueue evt s))) = (unat (dropped_queue_full s) + 1) mod 2 ^ 64)"
  using assms by (auto simp: try_enqueue_def unat_word_ariths)

text \<open>
  Property C25. One event through \<^verbatim>\<open>process\<close>: it never panics. An invalid event changes nothing; a duplicate leaves
  aggregator and acknowledgements alone. A fresh one is acknowledged as observed exactly once, and handed to the aggregator only when the publication
  has ended, that is after the time \<open>d\<close> it took; a publication that fails, or is given up after five seconds, does not keep the event from the aggregator.
\<close>

theorem process_outcome:
  assumes "dedup_inv dd"
  shows "\<exists>d' a' lg'. process E dev tel t1 lag evt (dd, ag, lg) = Some (d', a', lg') \<and>
    (case parse_event (env_ucd E) (env_url_parse E) (env_from_slice E) (re_payload evt) (re_received_at evt) (re_seq evt) of
       Inl e \<Rightarrow> d' = dd \<and> a' = ag \<and> lg' = lg
     | Inr n \<Rightarrow> d' = snd (try_add dd t1 (deduplication_key n)) \<and>
         (if dedup_live dd t1 (deduplication_key n) then a' = ag \<and> lg' = lg
          else (\<exists>r d. publish_ack tel (observed_ack dev n) lg = (lg', d) \<and> lg' = lg @ [(observed_ack dev n, r)] \<and> d \<le> from_secs 5 \<and>
            agg_add (env_graphemes E) (t1 + d + lag) n ag = Some a')))"
proof (cases "parse_event (env_ucd E) (env_url_parse E) (env_from_slice E) (re_payload evt) (re_received_at evt) (re_seq evt)")
  case (Inl e)
  then show ?thesis by (simp add: process_def)
next
  case (Inr n)
  obtain b d where add: "try_add dd t1 (deduplication_key n) = (b, d)" by fastforce
  have live: "b \<longleftrightarrow> \<not> dedup_live dd t1 (deduplication_key n)"
    using dc.accepts_iff [OF assms, of t1 "deduplication_key n"] add by simp
  obtain r dur where pub: "publish_ack tel (observed_ack dev n) lg = (lg @ [(observed_ack dev n, r)], dur)" "dur \<le> from_secs 5"
    using publish_ack_bounded by blast
  obtain a' where a': "agg_add (env_graphemes E) (t1 + dur + lag) n ag = Some a'" using agg_add_Some by blast
  with Inr add live pub show ?thesis by (cases b) (auto simp: process_def)
qed

subsection \<open>Examples\<close>

definition example_env :: env where
  "example_env = \<lparr>env_ucd = ascii_ucd, env_url_parse = example_url_parse,
     env_from_slice = (\<lambda>_. Inr example_wire), env_graphemes = crlf_graphemes\<rparr>"

definition example_received :: received_event where
  "example_received = \<lparr>re_payload = [123, 125], re_received_at = 7, re_seq = 1\<rparr>"

definition example_cache :: dedup_cache where
  "example_cache = \<lparr>inner = \<lparr>expiry_by_key = [], insertion_order = []\<rparr>, capacity = 4, ttl = 600\<rparr>"

definition example_agent :: agent where
  "example_agent = \<lparr>queue = [], q_capacity = 500, tx_alive = True, handles = 0, dropped_queue_full = 0,
     pool = [Idle, Idle], dedup = example_cache, aggr = aggregator_new aggregator_config_default,
     acking = [], log = [], clock = 0, device_id = str ''d''\<rparr>"

lemma example_cache_new: "dedup_new 4 600 = Some example_cache"
  by (simp add: dedup_new_def example_cache_def)

lemma example_build:
  "build_agent pipeline_config_default aggregator_config_default example_cache 0 (str ''d'') = Some example_agent"
  by (simp add: build_agent_def pipeline_start_def pipeline_config_default_def example_agent_def numeral_2_eq_2)

lemma example_enqueued:
  "reachable example_env example_agent (example_agent\<lparr>queue := [example_received]\<rparr>)"
proof -
  have "agent_step example_env example_agent (snd (try_enqueue example_received example_agent))"
    by (rule enqueue) (simp add: example_agent_def channel_open_def)
  then show ?thesis
    using reachable.step [OF reachable.start] by (simp add: try_enqueue_def example_agent_def)
qed

theorem agent_bounded_witness:
  "reachable example_env example_agent (example_agent\<lparr>queue := [example_received]\<rparr>) \<and>
   length (queue (example_agent\<lparr>queue := [example_received]\<rparr>)) \<le> queue_capacity pipeline_config_default"
  using example_enqueued agent_bounded [OF example_cache_new example_build example_enqueued] by blast

theorem try_enqueue_bounded_witness:
  "length (queue (snd (try_enqueue example_received example_agent))) \<le> 500"
  using try_enqueue_bounded [of example_agent example_received] by (simp add: example_agent_def)

theorem process_outcome_witness:
  "\<exists>d' a' lg'. process example_env (str ''d'') (\<lambda>_. (Inr (), None)) 1 2 example_received
      (example_cache, aggregator_new aggregator_config_default, []) = Some (d', a', lg')"
  using process_outcome [OF dedup_new_inv [OF example_cache_new]] by blast

lemma example_run:
  "\<exists>d a r. process example_env (str ''d'') (\<lambda>_. (Inr (), None)) 1 2 example_received
      (example_cache, aggregator_new aggregator_config_default, []) = Some (d, a, [r])"
proof -
  have "map_option (\<lambda>(d, a, lg). length lg) (process example_env (str ''d'') (\<lambda>_. (Inr (), None)) 1 2
      example_received (example_cache, aggregator_new aggregator_config_default, [])) = Some 1"
    by code_simp
  then show ?thesis by (auto simp: length_Suc_conv)
qed

lemma reachable_steps: "(agent_step E)\<^sup>*\<^sup>* s s' \<Longrightarrow> reachable E s0 s \<Longrightarrow> reachable E s0 s'"
  by (induction rule: rtranclp_induct) (auto intro: reachable.step)

theorem submitted_after_observed_witness:
  "\<exists>s. reachable example_env example_agent s \<and> length (log s) = 1 \<and>
     acks_with SUBMITTED_TO_WINDOWS (take 1 (log s)) \<subseteq># acks_with OBSERVED_BY_AGENT (take 1 (log s))"
proof -
  let ?s = "example_agent\<lparr>queue := [example_received]\<rparr>"
  obtain d a r where p: "process example_env (device_id ?s) (\<lambda>_. (Inr (), None)) 1 2 example_received
      (dedup ?s, aggr ?s, log ?s) = Some (d, a, [r])"
    using example_run by (auto simp: example_agent_def)
  have "worker_is 0 Idle ?s" "queue ?s = example_received # []" "clock ?s \<le> 1"
    by (simp_all add: example_agent_def)
  from process_steps [OF this p] obtain t where
    "(agent_step example_env)\<^sup>*\<^sup>* ?s (?s\<lparr>queue := [], dedup := d, aggr := a, log := [r], clock := t\<rparr>)" by blast
  then have reach: "reachable example_env example_agent
      (?s\<lparr>queue := [], dedup := d, aggr := a, log := [r], clock := t\<rparr>)"
    using example_enqueued by (rule reachable_steps)
  from submitted_after_observed [OF dedup_new_inv [OF example_cache_new] example_build reach, of 1] reach
  show ?thesis by (intro exI conjI) (assumption, simp_all)
qed

theorem shutdown_drains_witness:
  "\<exists>s'. (worker_step example_env)\<^sup>*\<^sup>* (example_agent\<lparr>tx_alive := False\<rparr>) s' \<and> queue s' = [] \<and>
     list_all (\<lambda>w. w = Stopped) (pool s')"
proof -
  have "agent_step example_env example_agent (example_agent\<lparr>tx_alive := False\<rparr>)"
    using close [of example_env example_agent] by (simp add: pipeline_close_def)
  then have "reachable example_env example_agent (example_agent\<lparr>tx_alive := False\<rparr>)"
    by (rule reachable.step [OF reachable.start])
  moreover have "\<not> channel_open (example_agent\<lparr>tx_alive := False\<rparr>)" "0 < workers pipeline_config_default"
    by (simp_all add: channel_open_def example_agent_def pipeline_config_default_def)
  ultimately show ?thesis
    using shutdown_drains [OF dedup_new_inv [OF example_cache_new] example_build] by blast
qed

end
