(* ===== verification/Identity.thy ===== *)
theory Identity
  imports Event_Parser Toast
begin

section \<open>Identity (\<^verbatim>\<open>identity.rs\<close>)\<close>

text \<open>
  The identity providers and the token exchange. Environment variables, the host name, HTTP, base64 and
  the JSON reader are parameters. \<open>json\<close> is \<^verbatim>\<open>serde_json::Value\<close>. The sign-in sends its requests without a
  timeout, so it may wait for ever: it is a partial function whose value \<open>None\<close> means that it does not return, and it is proved that only a request or a
  toast that is never answered makes it so.
\<close>

record agent_identity =
  id_user_id :: rstring
  id_device_id :: rstring

type_synonym getenv = "rstring \<Rightarrow> rstring option"

definition default_device_id :: "ucd \<Rightarrow> rstring \<Rightarrow> rstring" where
  "default_device_id u hostname = str ''d-'' @ to_lowercase u hostname"

definition env_identity :: "ucd \<Rightarrow> getenv \<Rightarrow> rstring \<Rightarrow> rstring + agent_identity" where
  "env_identity u env hostname =
     (case non_blank (env (str ''NOTIFY_USER_ID'')) of
        None \<Rightarrow> Inl (str ''NOTIFY_USER_ID is not set'')
      | Some uid \<Rightarrow>
          let dev = (case non_blank (env (str ''NOTIFY_DEVICE_ID'')) of
                None \<Rightarrow> default_device_id u hostname | Some d \<Rightarrow> d)
          in Inr \<lparr>id_user_id = uid, id_device_id = dev\<rparr>)"

datatype token_poll =
    Pending
  | SlowDown
  | Success (id_token: rstring) (refresh_token: "rstring option")
  | Failed rstring

definition parse_token_poll :: "json \<Rightarrow> token_poll" where
  "parse_token_poll reply =
     (case str_field reply ''id_token'' of
        Some token \<Rightarrow> Success token (str_field reply ''refresh_token'')
      | None \<Rightarrow>
          (case str_field reply ''error'' of
             Some err \<Rightarrow>
               if err = str ''authorization_pending'' then Pending
               else if err = str ''slow_down'' then SlowDown
               else let desc = (case str_field reply ''error_description'' of None \<Rightarrow> [] | Some d \<Rightarrow> d)
                    in Failed (err @ str '': '' @ desc)
           | None \<Rightarrow> Failed (str ''malformed token response'')))"

record jwt_readers =
  base64url :: "rstring \<Rightarrow> rstring + u8 list"
  json_from_slice :: "u8 list \<Rightarrow> rstring + json"

definition oid_from_id_token :: "jwt_readers \<Rightarrow> rstring \<Rightarrow> rstring + rstring" where
  "oid_from_id_token R token =
     (case split_char 46 token of
        _ # payload_b64 # _ \<Rightarrow>
          (case base64url R payload_b64 of
             Inl e \<Rightarrow> Inl (str ''id_token payload is not base64url'')
           | Inr bytes \<Rightarrow>
               (case json_from_slice R bytes of
                  Inl e \<Rightarrow> Inl (str ''id_token payload is not JSON'')
                | Inr claims \<Rightarrow>
                    (case str_field claims ''oid'' of
                       Some oid \<Rightarrow> Inr oid
                     | None \<Rightarrow> Inl (str ''id_token has no oid claim''))))
      | _ \<Rightarrow> Inl (str ''not a JWT''))"

fun join :: "rstring \<Rightarrow> rstring list \<Rightarrow> rstring" where
  "join sep [] = []"
| "join sep [s] = s"
| "join sep (s # t # ss) = s @ sep @ join sep (t # ss)"

definition device_code_scope :: "rstring list \<Rightarrow> rstring" where
  "device_code_scope extra_scopes =
     join (str '' '') ([str ''openid'', str ''profile'', str ''offline_access''] @ extra_scopes)"

subsection \<open>Device-code sign-in\<close>

record device_code_identity =
  client_id :: rstring
  tenant :: rstring
  dc_device_id :: rstring
  extra_scopes :: "rstring list"
  has_sink :: bool

record device_code_response =
  device_code :: rstring
  user_code :: rstring
  verification_uri :: rstring
  interval :: u64
  expires_in :: u64

text \<open>What the derived \<^verbatim>\<open>Deserialize\<close> reads from the body of an answer.\<close>

definition device_code_names :: "string list" where
  "device_code_names = [''device_code'', ''user_code'', ''verification_uri'', ''interval'', ''expires_in'']"

definition device_code_response_of :: "json \<Rightarrow> device_code_response option" where
  "device_code_response_of v = do {
     fs \<leftarrow> fields_of device_code_names v;
     dc \<leftarrow> de_required de_string (fs ! 0);
     uc \<leftarrow> de_required de_string (fs ! 1);
     uri \<leftarrow> de_required de_string (fs ! 2);
     iv \<leftarrow> de_required de_u64 (fs ! 3);
     ex \<leftarrow> de_required de_u64 (fs ! 4);
     Some \<lparr>device_code = dc, user_code = uc, verification_uri = uri, interval = iv, expires_in = ex\<rparr> }"

type_synonym form = "(rstring \<times> rstring) list"

text \<open>
  What the sign-in meets: the device-code endpoint, the token endpoint at the \<open>k\<close>-th request to it, and the renderer, each with the time it takes, or \<open>None\<close> if it never
  answers; and the latest instant the clock can represent.
\<close>

record login_service =
  devicecode_post :: "rstring \<Rightarrow> form \<Rightarrow> ((rstring + device_code_response) \<times> duration) option"
  token_post :: "nat \<Rightarrow> rstring \<Rightarrow> form \<Rightarrow> ((rstring + json) \<times> duration) option"
  show_toast :: "toast_request \<Rightarrow> duration option"
  latest_instant :: instant

definition login_base :: "rstring \<Rightarrow> rstring" where
  "login_base t = str ''https://login.microsoftonline.com/'' @ t @ str ''/oauth2/v2.0''"

definition sign_in_toast :: "device_code_response \<Rightarrow> toast_request" where
  "sign_in_toast dc = \<lparr>t_title = str ''Sign in required'',
     t_message = str ''Go to '' @ verification_uri dc @ str '' and enter code '' @ user_code dc,
     attribution = Some (str ''Desktop Notification Agent''),
     t_action_label = Some (str ''Open sign-in page''), t_action_url = Some (verification_uri dc),
     t_image = None, sources = []\<rparr>"

definition saturating_add :: "u64 \<Rightarrow> u64 \<Rightarrow> u64" where
  "saturating_add x y = (if unat x + unat y < 2 ^ 64 then x + y else - 1)"

text \<open>
  The polling loop. \<open>k\<close> counts the requests made; the refresh-token cell is \<open>sink\<close>. The result
  comes with the final cell and the number of requests.
\<close>

partial_function (option) poll_loop ::
  "jwt_readers \<Rightarrow> login_service \<Rightarrow> device_code_identity \<Rightarrow> device_code_response \<Rightarrow> instant \<Rightarrow>
     nat \<Rightarrow> instant \<Rightarrow> u64 \<Rightarrow> rstring option \<Rightarrow> ((rstring + agent_identity) \<times> rstring option \<times> nat) option" where
  "poll_loop R svc self dc deadline k now poll_interval sink =
     (if now \<ge> deadline then Some (Inl (str ''device-code sign-in timed out''), sink, k)
      else
        let now = now + from_secs (unat poll_interval)
        in case token_post svc k (login_base (tenant self) @ str ''/token'')
              [(str ''grant_type'', str ''urn:ietf:params:oauth:grant-type:device_code''),
               (str ''client_id'', client_id self), (str ''device_code'', device_code dc)] of
          None \<Rightarrow> None
        | Some (Inl e, took) \<Rightarrow> Some (Inl e, sink, Suc k)
        | Some (Inr body, took) \<Rightarrow>
            let now = now + took in
            (case parse_token_poll body of
               Pending \<Rightarrow> poll_loop R svc self dc deadline (Suc k) now poll_interval sink
             | SlowDown \<Rightarrow> poll_loop R svc self dc deadline (Suc k) now (saturating_add poll_interval 5) sink
             | Success token rt \<Rightarrow>
                 (case oid_from_id_token R token of
                    Inl e \<Rightarrow> Some (Inl e, sink, Suc k)
                  | Inr oid \<Rightarrow>
                      let sink = (case rt of Some r \<Rightarrow> if has_sink self then Some r else sink | None \<Rightarrow> sink)
                      in Some (Inr \<lparr>id_user_id = str ''u_'' @ oid, id_device_id = dc_device_id self\<rparr>, sink, Suc k))
             | Failed reason \<Rightarrow> Some (Inl (str ''device-code sign-in failed: '' @ reason), sink, Suc k)))"

text \<open>
  \<^verbatim>\<open>DeviceCodeIdentity::identity\<close>. The toast with the code is shown at best effort: its outcome is
  ignored, it is the last component of the result. The deadline is computed with \<^verbatim>\<open>Instant + Duration\<close>, which panics when the sum cannot be
  represented. The result is \<open>None\<close> if the sign-in does not return.
\<close>

datatype 'a ended = Returned 'a | Panicked

definition device_code_sign_in ::
  "jwt_readers \<Rightarrow> login_service \<Rightarrow> device_code_identity \<Rightarrow> instant \<Rightarrow> rstring option \<Rightarrow>
     ((rstring + agent_identity) \<times> rstring option \<times> nat \<times> toast_request list) ended option" where
  "device_code_sign_in R svc self now sink =
     (let scope = device_code_scope (extra_scopes self) in
      case devicecode_post svc (login_base (tenant self) @ str ''/devicecode'')
             [(str ''client_id'', client_id self), (str ''scope'', scope)] of
        None \<Rightarrow> None
      | Some (Inl e, took) \<Rightarrow> Some (Returned (Inl e, sink, 0, []))
      | Some (Inr dc, took) \<Rightarrow>
          (case show_toast svc (sign_in_toast dc) of
             None \<Rightarrow> None
           | Some shown \<Rightarrow>
               let now = now + took + shown;
                   deadline = now + from_secs (unat (expires_in dc))
               in if latest_instant svc < deadline then Some Panicked
                  else
                    let poll_interval = max (interval dc) 1
                    in map_option (\<lambda>(r, sink, k). Returned (r, sink, k, [sign_in_toast dc]))
                         (poll_loop R svc self dc deadline 0 now poll_interval sink)))"

subsection \<open>Access tokens\<close>

record aad_token_provider =
  aad_client_id :: rstring
  aad_tenant :: rstring
  aad_scope :: rstring
  authority_base :: rstring

text \<open>\<open>built\<close> says whether the HTTP client could be built; the code expects so, and \<open>None\<close> is the panic otherwise.\<close>

definition aad_token_provider_new :: "bool \<Rightarrow> rstring \<Rightarrow> rstring \<Rightarrow> rstring \<Rightarrow> aad_token_provider option" where
  "aad_token_provider_new built cid ten sc =
     (if built
      then Some \<lparr>aad_client_id = cid, aad_tenant = ten, aad_scope = sc,
        authority_base = str ''https://login.microsoftonline.com''\<rparr>
      else None)"

record refresh_token_response =
  rt_access_token :: rstring
  rt_refresh_token :: "rstring option"

definition refresh_token_names :: "string list" where
  "refresh_token_names = [''access_token'', ''refresh_token'']"

definition refresh_token_response_of :: "json \<Rightarrow> refresh_token_response option" where
  "refresh_token_response_of v = do {
     fs \<leftarrow> fields_of refresh_token_names v;
     at \<leftarrow> de_required de_string (fs ! 0);
     rt \<leftarrow> de_option de_string (fs ! 1);
     Some \<lparr>rt_access_token = at, rt_refresh_token = rt\<rparr> }"

interpretation device_code_reader: struct_reader device_code_names device_code_response_of
  by (rule struct_readerI) (simp add: device_code_response_of_def)

interpretation refresh_token_reader: struct_reader refresh_token_names refresh_token_response_of
  by (rule struct_readerI) (simp add: refresh_token_response_of_def)

text \<open>
  A request whose answer is decoded: \<open>send\<close> is HTTP with its status check and the reading of the body, \<open>shape_error\<close> the
  library's error for a body of another shape.
\<close>

definition json_post :: "(json \<Rightarrow> 'a option) \<Rightarrow> (json \<Rightarrow> rstring) \<Rightarrow> (rstring \<Rightarrow> form \<Rightarrow> rstring + json) \<Rightarrow>
    rstring \<Rightarrow> form \<Rightarrow> rstring + 'a" where
  "json_post de shape_error send url fs =
     (case send url fs of
        Inl e \<Rightarrow> Inl e
      | Inr body \<Rightarrow> (case de body of None \<Rightarrow> Inl (shape_error body) | Some r \<Rightarrow> Inr r))"

definition no_refresh_token :: rstring where
  "no_refresh_token = str ''no AAD refresh token available; device-code sign-in must complete before the NATS auth callback runs''"

definition access_token ::
  "(rstring \<Rightarrow> form \<Rightarrow> rstring + refresh_token_response) \<Rightarrow> aad_token_provider \<Rightarrow> rstring option \<Rightarrow>
     (rstring + rstring) \<times> rstring option" where
  "access_token post self cell =
     (case cell of
        None \<Rightarrow> (Inl no_refresh_token, cell)
      | Some rt \<Rightarrow>
          let base = authority_base self @ str ''/'' @ aad_tenant self @ str ''/oauth2/v2.0'' in
          case post (base @ str ''/token'')
                 [(str ''grant_type'', str ''refresh_token''), (str ''client_id'', aad_client_id self),
                  (str ''refresh_token'', rt), (str ''scope'', aad_scope self)] of
            Inl e \<Rightarrow> (Inl e, cell)
          | Inr response \<Rightarrow>
              let cell = (case rt_refresh_token response of Some rotated \<Rightarrow> Some rotated | None \<Rightarrow> cell)
              in (Inr (rt_access_token response), cell))"

subsection \<open>The sign-in loop returns\<close>

lemma saturating_add_unat: "unat (saturating_add x y) = min (unat x + unat y) (2 ^ 64 - 1)"
proof (cases "unat x + unat y < 2 ^ 64")
  case True
  then have "unat (x + y) = unat x + unat y" by (simp add: unat_word_ariths)
  with True show ?thesis by (simp add: saturating_add_def)
next
  case False
  then show ?thesis by (simp add: saturating_add_def unsigned_minus_1_eq_mask mask_eq_exp_minus_1)
qed

definition code_request :: "device_code_identity \<Rightarrow> login_service \<Rightarrow> ((rstring + device_code_response) \<times> duration) option" where
  "code_request self svc = devicecode_post svc (login_base (tenant self) @ str ''/devicecode'')
     [(str ''client_id'', client_id self), (str ''scope'', device_code_scope (extra_scopes self))]"

definition token_request :: "device_code_identity \<Rightarrow> device_code_response \<Rightarrow> login_service \<Rightarrow> nat \<Rightarrow> ((rstring + json) \<times> duration) option" where
  "token_request self dc svc k = token_post svc k (login_base (tenant self) @ str ''/token'')
     [(str ''grant_type'', str ''urn:ietf:params:oauth:grant-type:device_code''),
      (str ''client_id'', client_id self), (str ''device_code'', device_code dc)]"

text \<open>What a finished sign-in means: an error leaves the refresh-token cell alone; an identity stems
  from the answer to the last request.\<close>

definition signed_in_by ::
  "jwt_readers \<Rightarrow> login_service \<Rightarrow> device_code_identity \<Rightarrow> device_code_response \<Rightarrow> rstring option \<Rightarrow>
     (rstring + agent_identity) \<times> rstring option \<times> nat \<Rightarrow> bool" where
  "signed_in_by R svc self dc sink out =
     (case out of (r, sink', n) \<Rightarrow>
       (case r of
          Inl e \<Rightarrow> sink' = sink
        | Inr i \<Rightarrow> 0 < n \<and> (\<exists>body took token rt oid.
            token_request self dc svc (n - 1) = Some (Inr body, took) \<and> parse_token_poll body = Success token rt \<and>
            oid_from_id_token R token = Inr oid \<and>
            i = \<lparr>id_user_id = str ''u_'' @ oid, id_device_id = dc_device_id self\<rparr> \<and>
            sink' = (if has_sink self \<and> rt \<noteq> None then rt else sink))))"

text \<open>The \<open>j\<close>-th request from the \<open>k\<close>-th on is never answered, after answers that ask to go on.\<close>

definition keeps_polling :: "((rstring + json) \<times> duration) option \<Rightarrow> bool" where
  "keeps_polling req \<longleftrightarrow> (\<exists>body took. req = Some (Inr body, took) \<and> parse_token_poll body \<in> {Pending, SlowDown})"

definition hangs_at :: "device_code_identity \<Rightarrow> device_code_response \<Rightarrow> login_service \<Rightarrow> nat \<Rightarrow> nat \<Rightarrow> bool" where
  "hangs_at self dc svc k j \<longleftrightarrow> token_request self dc svc (k + j) = None \<and>
     (\<forall>i < j. keeps_polling (token_request self dc svc (k + i)))"

lemma hangs_at_0: "token_request self dc svc k = None \<Longrightarrow> hangs_at self dc svc k 0"
  by (simp add: hangs_at_def)

lemma hangs_at_Suc:
  "keeps_polling (token_request self dc svc k) \<Longrightarrow> hangs_at self dc svc (Suc k) j \<Longrightarrow> hangs_at self dc svc k (Suc j)"
  by (auto simp: hangs_at_def less_Suc_eq_0_disj)

definition poll_end ::
  "jwt_readers \<Rightarrow> login_service \<Rightarrow> device_code_identity \<Rightarrow> device_code_response \<Rightarrow> nat \<Rightarrow> nat \<Rightarrow> rstring option \<Rightarrow>
     ((rstring + agent_identity) \<times> rstring option \<times> nat) option \<Rightarrow> bool" where
  "poll_end R svc self dc k most sink out = (case out of
     None \<Rightarrow> (\<exists>j < most. hangs_at self dc svc k j)
   | Some out \<Rightarrow> signed_in_by R svc self dc sink out \<and> snd (snd out) \<le> k + most)"

lemma poll_end_next:
  assumes "keeps_polling (token_request self dc svc k)" and "poll_end R svc self dc (Suc k) most sink out"
  shows "poll_end R svc self dc k (Suc most) sink out"
  using assms hangs_at_Suc [OF assms(1)] by (fastforce simp: poll_end_def split: option.splits)

lemma poll_loop_ends:
  assumes "1 \<le> unat iv" and "deadline \<le> now + from_secs S"
  shows "poll_end R svc self dc k S sink (poll_loop R svc self dc deadline k now iv sink)"
  using assms
proof (induction S arbitrary: k now iv)
  case 0
  then show ?case by (subst poll_loop.simps) (simp add: from_secs_def signed_in_by_def poll_end_def)
next
  case (Suc S)
  show ?case
  proof (cases "now \<ge> deadline")
    case True
    then show ?thesis by (subst poll_loop.simps) (simp add: signed_in_by_def poll_end_def)
  next
    case False
    show ?thesis
    proof (cases "token_request self dc svc k")
      case None
      have "poll_loop R svc self dc deadline k now iv sink = None"
        using False None by (subst poll_loop.simps) (simp add: token_request_def)
      with hangs_at_0 [OF None] show ?thesis by (auto simp: poll_end_def)
    next
      case (Some answer)
      obtain reply took where req: "token_request self dc svc k = Some (reply, took)" using Some by (cases answer) auto
      let ?now = "now + from_secs (unat iv) + took"
      have later: "deadline \<le> ?now + from_secs S"
        using Suc.prems by (auto simp: from_secs_def algebra_simps intro: order_trans)
      have slower: "1 \<le> unat (saturating_add iv 5)"
        using Suc.prems(1) by (simp add: saturating_add_unat)
      note next_round = Suc.IH [OF Suc.prems(1) later, of "Suc k"] Suc.IH [OF slower later, of "Suc k"]
      show ?thesis
      proof (cases reply)
        case (Inl e)
        with False req show ?thesis
          by (subst poll_loop.simps) (simp add: token_request_def signed_in_by_def poll_end_def Let_def)
      next
        case (Inr body)
        have on: "keeps_polling (token_request self dc svc k)" if "parse_token_poll body \<in> {Pending, SlowDown}"
          using that req Inr by (simp add: keeps_polling_def)
        show ?thesis
        proof (cases "parse_token_poll body")
          case Pending
          have "poll_loop R svc self dc deadline k now iv sink = poll_loop R svc self dc deadline (Suc k) ?now iv sink"
            using False req Inr Pending by (subst poll_loop.simps) (simp add: token_request_def Let_def)
          with Pending on next_round(1) show ?thesis by (simp add: poll_end_next)
        next
          case SlowDown
          have "poll_loop R svc self dc deadline k now iv sink =
              poll_loop R svc self dc deadline (Suc k) ?now (saturating_add iv 5) sink"
            using False req Inr SlowDown by (subst poll_loop.simps) (simp add: token_request_def Let_def)
          with SlowDown on next_round(2) show ?thesis by (simp add: poll_end_next)
        next
          case (Success token rt)
          let ?out = "case oid_from_id_token R token of
              Inl e \<Rightarrow> (Inl e, sink, Suc k)
            | Inr oid \<Rightarrow> (Inr \<lparr>id_user_id = str ''u_'' @ oid, id_device_id = dc_device_id self\<rparr>,
                if has_sink self \<and> rt \<noteq> None then rt else sink, Suc k)"
          have "poll_loop R svc self dc deadline k now iv sink = Some ?out"
            using False req Inr Success
            by (subst poll_loop.simps) (auto simp: token_request_def Let_def split: sum.split option.split)
          moreover have "signed_in_by R svc self dc sink ?out"
            using req Inr Success by (auto simp: signed_in_by_def split: sum.split)
          moreover have "snd (snd ?out) \<le> k + Suc S" by (simp split: sum.split)
          ultimately show ?thesis by (simp add: poll_end_def)
        next
          case (Failed reason)
          with False req Inr show ?thesis
            by (subst poll_loop.simps) (simp add: token_request_def signed_in_by_def poll_end_def Let_def)
        qed
      qed
    qed
  qed
qed

lemma poll_interval_pos: "1 \<le> unat (max iv (1 :: u64))"
  by (metis max.cobounded2 unsigned_1 word_le_nat_alt)

lemma sign_in_polls:
  assumes "code_request self svc = Some (Inr dc, took)" and "show_toast svc (sign_in_toast dc) = Some shown"
    and "now + took + shown + from_secs (unat (expires_in dc)) \<le> latest_instant svc"
  shows "\<exists>out. device_code_sign_in R svc self now sink = map_option (\<lambda>(r, sink, k). Returned (r, sink, k, [sign_in_toast dc])) out \<and>
    poll_end R svc self dc 0 (unat (expires_in dc)) sink out"
proof -
  let ?out = "poll_loop R svc self dc (now + took + shown + from_secs (unat (expires_in dc))) 0 (now + took + shown) (max (interval dc) 1) sink"
  have "device_code_sign_in R svc self now sink = map_option (\<lambda>(r, sink, k). Returned (r, sink, k, [sign_in_toast dc])) ?out"
    using assms by (simp add: device_code_sign_in_def code_request_def Let_def not_less)
  moreover have "poll_end R svc self dc 0 (unat (expires_in dc)) sink ?out"
    by (rule poll_loop_ends [OF poll_interval_pos]) simp
  ultimately show ?thesis by blast
qed


definition example_code :: device_code_response where
  "example_code = \<lparr>device_code = [], user_code = [], verification_uri = [], interval = 0, expires_in = 3\<rparr>"

definition example_login :: login_service where
  "example_login = \<lparr>devicecode_post = (\<lambda>_ _. Some (Inr example_code, 1)),
     token_post = (\<lambda>_ _ _. Some (Inr (JObj [(str ''error'', JStr (str ''slow_down''))]), 0)),
     show_toast = (\<lambda>_. Some 0), latest_instant = from_secs 1000\<rparr>"

definition example_self :: device_code_identity where
  "example_self = \<lparr>client_id = [], tenant = [], dc_device_id = [], extra_scopes = [], has_sink = True\<rparr>"

definition example_readers :: jwt_readers where
  "example_readers = \<lparr>base64url = (\<lambda>_. Inl []), json_from_slice = (\<lambda>_. Inl [])\<rparr>"


text \<open>
  The requests have no timeout, and the deadline is looked at between them only: if the token endpoint never answers the first request, the sign-in does not return, whatever the
  lifetime of the code.
\<close>

theorem sign_in_can_hang:
  assumes "code_request self svc = Some (Inr dc, took)" and "show_toast svc (sign_in_toast dc) = Some shown"
    and "token_request self dc svc 0 = None" and "0 < expires_in dc"
    and "now + took + shown + from_secs (unat (expires_in dc)) \<le> latest_instant svc"
  shows "device_code_sign_in R svc self now sink = None"
proof -
  have "0 < from_secs (unat (expires_in dc))" using assms(4) by (simp add: from_secs_def unat_gt_0)
  with assms show ?thesis
    by (simp add: device_code_sign_in_def code_request_def token_request_def Let_def not_less poll_loop.simps)
qed

theorem sign_in_can_hang_witness:
  "device_code_sign_in example_readers (example_login\<lparr>token_post := \<lambda>_ _ _. None\<rparr>) example_self 0 None = None"
  by (rule sign_in_can_hang [of _ _ example_code 1 0])
    (simp_all add: code_request_def token_request_def example_login_def example_code_def from_secs_def)

subsection \<open>Tokens and identities\<close>

lemma poll_words_differ:
  "str ''slow_down'' \<noteq> str ''authorization_pending''"
  by (simp add: str_def)

text \<open>
  Reading a token answer: a string \<^verbatim>\<open>id_token\<close> is a success whatever else is there; otherwise the two
  retry words of the device flow, and only these, mean that polling goes on; every other answer, malformed ones
  included, ends the sign-in.
\<close>

theorem parse_token_poll_retries:
  "(parse_token_poll b = Pending \<longleftrightarrow>
      str_field b ''id_token'' = None \<and> str_field b ''error'' = Some (str ''authorization_pending'')) \<and>
   (parse_token_poll b = SlowDown \<longleftrightarrow>
      str_field b ''id_token'' = None \<and> str_field b ''error'' = Some (str ''slow_down'')) \<and>
   (\<forall>t r. parse_token_poll b = Success t r \<longleftrightarrow>
      str_field b ''id_token'' = Some t \<and> str_field b ''refresh_token'' = r)"
  using poll_words_differ
  by (auto simp: parse_token_poll_def Let_def split: option.splits)

text \<open>
  A refresh-token exchange never loses the session: the cell is unchanged unless the service answered with a
  rotated token, which then replaces the old one; without a token no request is made.
\<close>

theorem access_token_keeps_session:
  "case cell of
     None \<Rightarrow> access_token post self cell = (Inl no_refresh_token, None)
   | Some rt \<Rightarrow>
       (\<exists>reply. (\<exists>url f. post url f = reply \<and> map_of f (str ''refresh_token'') = Some rt \<and>
            map_of f (str ''scope'') = Some (aad_scope self)) \<and>
          access_token post self cell =
            (case reply of
               Inl e \<Rightarrow> (Inl e, Some rt)
             | Inr r \<Rightarrow> (Inr (rt_access_token r),
                 Some (case rt_refresh_token r of None \<Rightarrow> rt | Some rotated \<Rightarrow> rotated))))"
proof (cases cell)
  case (Some rt)
  let ?f = "[(str ''grant_type'', str ''refresh_token''), (str ''client_id'', aad_client_id self),
    (str ''refresh_token'', rt), (str ''scope'', aad_scope self)]"
  let ?url = "(authority_base self @ str ''/'' @ aad_tenant self @ str ''/oauth2/v2.0'') @ str ''/token''"
  have "map_of ?f (str ''refresh_token'') = Some rt" "map_of ?f (str ''scope'') = Some (aad_scope self)"
    by (simp_all add: str_def)
  moreover have "access_token post self cell =
      (case post ?url ?f of Inl e \<Rightarrow> (Inl e, Some rt)
       | Inr r \<Rightarrow> (Inr (rt_access_token r), Some (case rt_refresh_token r of None \<Rightarrow> rt | Some rotated \<Rightarrow> rotated)))"
    using Some by (auto simp: access_token_def Let_def split: sum.split option.split)
  ultimately show ?thesis unfolding Some option.case by blast
qed (simp add: access_token_def)

text \<open>The contract of the \<^verbatim>\<open>IdentityProvider\<close> trait, as the host relies on it.\<close>

locale identity_provider =
  fixes identity :: "'e \<Rightarrow> rstring + agent_identity"
  assumes user_not_blank: "identity e = Inr i \<Longrightarrow> trim (id_user_id i) \<noteq> []"
begin

lemma user_not_empty: "identity e = Inr i \<Longrightarrow> id_user_id i \<noteq> []"
  using user_not_blank by fastforce

end

interpretation env_id: identity_provider "\<lambda>(u, env, hostname). env_identity u env hostname"
  by unfold_locales (auto simp: env_identity_def Let_def non_blank_Some split: option.splits)

lemma trim_not_blank: "c \<in> set s \<Longrightarrow> \<not> is_whitespace c \<Longrightarrow> trim s \<noteq> []"
  by (auto simp: trim_eq_Nil_iff)

definition device_code_result :: "jwt_readers \<times> login_service \<times> device_code_identity \<times> instant \<Rightarrow> rstring + agent_identity" where
  "device_code_result e = (case e of (R, svc, self, now) \<Rightarrow>
     (case device_code_sign_in R svc self now None of Some (Returned (r, _)) \<Rightarrow> r | _ \<Rightarrow> Inl []))"

lemma device_code_user:
  assumes "device_code_sign_in R svc self now None = Some (Returned (Inr i, rest))"
  shows "\<exists>oid. id_user_id i = str ''u_'' @ oid"
proof -
  obtain dc took where a: "code_request self svc = Some (Inr dc, took)"
    using assms by (auto simp: device_code_sign_in_def code_request_def Let_def split: option.splits sum.splits)
  obtain shown where b: "show_toast svc (sign_in_toast dc) = Some shown"
    using assms a by (auto simp: device_code_sign_in_def code_request_def Let_def split: option.splits)
  have "now + took + shown + from_secs (unat (expires_in dc)) \<le> latest_instant svc"
    using assms a b by (auto simp: device_code_sign_in_def code_request_def Let_def not_less split: if_splits)
  from sign_in_polls [OF a b this, of R None] assms obtain out where
    "Some (Returned (Inr i, rest)) = map_option (\<lambda>(r, sink, k). Returned (r, sink, k, [sign_in_toast dc])) out"
    and ended: "poll_end R svc self dc 0 (unat (expires_in dc)) None out" by auto
  then obtain sink' n where "out = Some (Inr i, sink', n)" by (cases out) auto
  with ended show ?thesis by (auto simp: poll_end_def signed_in_by_def)
qed

interpretation device_code_id: identity_provider device_code_result
proof
  fix e i
  assume a: "device_code_result e = Inr i"
  obtain R svc self now where e: "e = (R, svc, self, now)" by (cases e)
  from a e obtain rest where "device_code_sign_in R svc self now None = Some (Returned (Inr i, rest))"
    by (auto simp: device_code_result_def split: option.splits ended.splits)
  then obtain oid where "id_user_id i = str ''u_'' @ oid" using device_code_user by blast
  then have "117 \<in> set (id_user_id i)" by (simp add: str_def)
  then show "trim (id_user_id i) \<noteq> []" by (rule trim_not_blank) (simp add: is_whitespace_def)
qed

end
