(* ===== verification/Host.thy ===== *)
theory Host
  imports Pipeline Identity
begin

section \<open>The host (\<^verbatim>\<open>host.rs\<close>)\<close>

text \<open>
  The composition root: identity, connection, pipeline and subscription, the subscribe loop, and the
  shutdown sequence. The NATS client is a parameter: its connection and subscription may fail,
  and messages arrive as payloads. The process exit on a dead subscription is a value of
  the loop's result.
\<close>

record agent_config =
  nats_url :: rstring
  subject_template :: rstring
  ack_subject :: rstring

definition env_or :: "getenv \<Rightarrow> string \<Rightarrow> string \<Rightarrow> rstring" where
  "env_or env k d =
     (case env (str k) of None \<Rightarrow> str d | Some s \<Rightarrow> if s \<noteq> [] then s else str d)"

definition from_env :: "getenv \<Rightarrow> agent_config" where
  "from_env env = \<lparr>nats_url = env_or env ''NOTIFY_NATS_URL'' ''nats://127.0.0.1:4222'',
     subject_template = env_or env ''NOTIFY_SUBJECT_TEMPLATE'' ''notify.user.{0}.desktop'',
     ack_subject = env_or env ''NOTIFY_ACK_SUBJECT'' ''notify.ack.desktop''\<rparr>"

text \<open>
  \<^verbatim>\<open>NatsTelemetry::publish_ack\<close>: \<open>publish\<close> is the client's publication on a subject, with its result and duration.
\<close>

definition nats_publish_ack ::
  "(rstring \<Rightarrow> u8 list \<Rightarrow> (rstring + unit) \<times> duration option) \<Rightarrow> ((rstring \<times> ack_value) list \<Rightarrow> u8 list) \<Rightarrow>
     rstring \<Rightarrow> telemetry" where
  "nats_publish_ack publish to_vec subject ack = publish subject (ack_serialize to_vec ack)"

record agent_host =
  subject :: rstring
  agent :: agent
  next_seq :: u64

text \<open>
  \<^verbatim>\<open>AgentHost::start\<close>. \<open>auth\<close> is the outcome of the auth provider's \<^verbatim>\<open>connect_options\<close> if there is a provider. The
  result is \<open>None\<close> for a panic, else an error or the running host.
\<close>

definition host_start ::
  "agent_config \<Rightarrow> rstring + agent_identity \<Rightarrow> (rstring + 'opts) option \<Rightarrow> 'opts \<Rightarrow>
     ('opts \<Rightarrow> rstring \<Rightarrow> rstring + unit) \<Rightarrow> (rstring \<Rightarrow> rstring + unit) \<Rightarrow> instant \<Rightarrow> (rstring + agent_host) option" where
  "host_start cfg identity auth plain connect subscribe now =
     (case identity of Inl e \<Rightarrow> Some (Inl e) | Inr who \<Rightarrow>
      case (case auth of Some r \<Rightarrow> r | None \<Rightarrow> Inr plain) of Inl e \<Rightarrow> Some (Inl e) | Inr opts \<Rightarrow>
      case connect opts (nats_url cfg) of Inl e \<Rightarrow> Some (Inl e) | Inr _ \<Rightarrow>
      Option.bind (dedup_new 10000 (from_secs 600)) (\<lambda>dd.
      Option.bind (build_agent pipeline_config_default aggregator_config_default dd now (id_device_id who)) (\<lambda>ag.
        let subj = replace_str (str ''{0}'') (id_user_id who) (subject_template cfg) in
        case subscribe subj of Inl e \<Rightarrow> Some (Inl e) | Inr _ \<Rightarrow>
        Some (Inr \<lparr>subject = subj, agent = intake_handle ag, next_seq = 0\<rparr>))))"

text \<open>One arm of the subscribe loop: a message (or the end of the subscription) and the receipt time.\<close>

datatype loop_result = Running agent_host | Exit nat

definition on_message :: "agent_host \<Rightarrow> u8 list option \<Rightarrow> datetime \<Rightarrow> loop_result" where
  "on_message h msg now =
     (case msg of
        Some payload \<Rightarrow>
          if payload \<noteq> [] then
            (let sq = next_seq h + 1 in
             Running (h\<lparr>next_seq := sq,
               agent := snd (handle_enqueue \<lparr>re_payload = payload, re_received_at = now, re_seq = sq\<rparr> (agent h))\<rparr>))
          else Running h
      | None \<Rightarrow> Exit 1)"

text \<open>
  \<^verbatim>\<open>AgentHost::shutdown\<close> up to the point where the workers are awaited: the loop is cancelled and its task ends,
  which drops its intake handle; then the pipeline drops its own sender.
\<close>

definition shutdown_begin :: "agent_host \<Rightarrow> agent_host" where
  "shutdown_begin h = h\<lparr>agent := pipeline_close (drop_handle (agent h))\<rparr>"

text \<open>The rest, once the workers have ended: the aggregator's shutdown, then the flush of the connection.\<close>

definition shutdown_end ::
  "segmenter \<Rightarrow> key list \<Rightarrow> duration option list \<Rightarrow> rstring + unit \<Rightarrow> agent_host \<Rightarrow> (agent_host \<times> (rstring + unit)) option" where
  "shutdown_end g ks finish flushed h =
     map_option (\<lambda>(a, spent, late). (h\<lparr>agent := (agent h)\<lparr>aggr := a\<rparr>\<rparr>, flushed)) (agg_shutdown g ks finish (aggr (agent h)))"

text \<open>The running host: messages interleaved with everything the agent does by itself.\<close>

inductive host_step :: "env \<Rightarrow> agent_host \<Rightarrow> agent_host \<Rightarrow> bool" for E where
  message: "on_message h msg now = Running h' \<Longrightarrow> host_step E h h'"
| internal: "agent_step E (agent h) s' \<Longrightarrow> queue (agent h) = pre @ queue s' \<Longrightarrow>
    tx_alive s' = tx_alive (agent h) \<Longrightarrow> handles s' = handles (agent h) \<Longrightarrow> host_step E h (h\<lparr>agent := s'\<rparr>)"

subsection \<open>Starting\<close>

lemma host_dedup: "\<exists>dd. dedup_new 10000 (from_secs 600) = Some dd \<and> dedup_inv dd"
proof -
  obtain dd where "dedup_new 10000 (from_secs 600) = Some dd" by (simp add: dedup_new_def)
  then show ?thesis using dedup_new_inv by blast
qed

lemma host_build: "\<exists>ag. build_agent pipeline_config_default acfg dd now dev = Some ag"
  by (simp add: build_agent_def pipeline_start_def pipeline_config_default_def)

lemma host_start_result:
  "\<exists>r. host_start cfg identity auth plain connect subscribe now = Some r \<and>
     ((\<exists>h. r = Inr h) \<longleftrightarrow>
        (\<exists>who opts. identity = Inr who \<and> (case auth of Some a \<Rightarrow> a = Inr opts | None \<Rightarrow> opts = plain) \<and>
           connect opts (nats_url cfg) = Inr () \<and>
           subscribe (replace_str (str ''{0}'') (id_user_id who) (subject_template cfg)) = Inr ())) \<and>
     (case r of Inl e \<Rightarrow> True
      | Inr h \<Rightarrow> agent_inv (agent h) \<and> queue (agent h) = [] \<and> q_capacity (agent h) = 500 \<and>
          length (pool (agent h)) = 2 \<and> max_buckets (config (aggr (agent h))) = 100 \<and>
          (\<exists>who. identity = Inr who \<and> device_id (agent h) = id_device_id who \<and>
             subject h = replace_str (str ''{0}'') (id_user_id who) (subject_template cfg)))"
proof -
  obtain dd where dd: "dedup_new 10000 (from_secs 600) = Some dd" "dedup_inv dd" using host_dedup by blast
  have started: "agent_inv (intake_handle ag) \<and> queue ag = [] \<and> q_capacity ag = 500 \<and> length (pool ag) = 2 \<and>
      max_buckets (config (aggr ag)) = 100 \<and> device_id ag = dev"
    if "build_agent pipeline_config_default aggregator_config_default dd now dev = Some ag" for ag dev
  proof -
    have "agent_inv ag" using build_agent_inv [OF that dd(2)] .
    then have "agent_inv (intake_handle ag)"
      using that by (auto simp: build_agent_def pipeline_start_def intake_handle_def agent_inv_def accounts_ok_def
          in_flight_def split: if_splits)
    with that show ?thesis
      by (auto simp: build_agent_def pipeline_start_def pipeline_config_default_def aggregator_new_def
          aggregator_config_default_def split: if_splits)
  qed
  show ?thesis
  proof (cases identity)
    case (Inl e)
    then show ?thesis by (simp add: host_start_def)
  next
    case (Inr who)
    obtain ag where ag: "build_agent pipeline_config_default aggregator_config_default dd now (id_device_id who) = Some ag"
      using host_build by blast
    note st = started [OF ag]
    show ?thesis
      using Inr dd(1) ag st
      by (cases auth) (auto simp: host_start_def Let_def intake_handle_def split: sum.splits)
  qed
qed

lemma host_start_built:
  assumes a: "host_start cfg identity auth plain connect subscribe now = Some (Inr h)"
  shows "\<exists>dev dd ag. dedup_new 10000 (from_secs 600) = Some dd \<and>
    build_agent pipeline_config_default aggregator_config_default dd now dev = Some ag \<and>
    agent h = intake_handle ag \<and> next_seq h = 0"
proof -
  let ?opts = "case auth of Some r \<Rightarrow> r | None \<Rightarrow> Inr plain"
  obtain who where who: "identity = Inr who" using a by (cases identity) (simp_all add: host_start_def)
  obtain opts where opts: "?opts = Inr opts" using a who by (cases ?opts) (simp_all add: host_start_def)
  have con: "connect opts (nats_url cfg) = Inr ()"
    using a who opts by (cases "connect opts (nats_url cfg)") (simp_all add: host_start_def)
  obtain dd where dd: "dedup_new 10000 (from_secs 600) = Some dd" using host_dedup by blast
  obtain ag where ag: "build_agent pipeline_config_default aggregator_config_default dd now (id_device_id who) = Some ag"
    using host_build by blast
  have "agent h = intake_handle ag \<and> next_seq h = 0"
    using a who opts con dd ag
    by (cases "subscribe (replace_str (str ''{0}'') (id_user_id who) (subject_template cfg))")
      (auto simp: host_start_def Let_def)
  with dd ag show ?thesis by blast
qed

lemma host_start_limits:
  assumes "host_start cfg identity auth plain connect subscribe now = Some (Inr h)"
  shows "dedup (agent h) = \<lparr>inner = \<lparr>expiry_by_key = [], insertion_order = []\<rparr>, capacity = 10000, ttl = from_secs 600\<rparr>"
    and "config (aggr (agent h)) = \<lparr>max_buckets = 100, important_window = from_secs 2, normal_window = from_secs 10,
      drain_timeout = from_secs 5\<rparr>"
    and "buckets (aggr (agent h)) = []" "pool (agent h) = [Idle, Idle]" "log (agent h) = []" "next_seq h = 0"
proof -
  obtain dev dd ag where "dedup_new 10000 (from_secs 600) = Some dd"
    "build_agent pipeline_config_default aggregator_config_default dd now dev = Some ag"
    "agent h = intake_handle ag" "next_seq h = 0"
    using host_start_built [OF assms] by blast
  then show "dedup (agent h) = \<lparr>inner = \<lparr>expiry_by_key = [], insertion_order = []\<rparr>, capacity = 10000, ttl = from_secs 600\<rparr>"
    and "config (aggr (agent h)) = \<lparr>max_buckets = 100, important_window = from_secs 2, normal_window = from_secs 10,
      drain_timeout = from_secs 5\<rparr>"
    and "buckets (aggr (agent h)) = []" "pool (agent h) = [Idle, Idle]" "log (agent h) = []" "next_seq h = 0"
    by (auto simp: dedup_new_def build_agent_def pipeline_start_def pipeline_config_default_def aggregator_new_def
        aggregator_config_default_def intake_handle_def numeral_2_eq_2)
qed

text \<open>
  Property C35. Starting the host, with the identity that sign-in returned: it never panics; the agent runs exactly when identity, authentication, connection and subscription
  all succeed, and then it subscribes to the template with every placeholder replaced by the user id, with an
  empty pipeline that satisfies the invariant of the agent, and with exactly the limits of the design: a queue of 500, two workers, an empty duplicate cache of 10,000
  keys with a time to live of ten minutes, and at most 100 buckets with windows of two and ten seconds and a drain of five.
\<close>

theorem host_start_outcome:
  "\<exists>r. host_start cfg identity auth plain connect subscribe now = Some r \<and>
     ((\<exists>h. r = Inr h) \<longleftrightarrow>
        (\<exists>who opts. identity = Inr who \<and> (case auth of Some a \<Rightarrow> a = Inr opts | None \<Rightarrow> opts = plain) \<and>
           connect opts (nats_url cfg) = Inr () \<and>
           subscribe (replace_str (str ''{0}'') (id_user_id who) (subject_template cfg)) = Inr ())) \<and>
     (case r of Inl e \<Rightarrow> True
      | Inr h \<Rightarrow> agent_inv (agent h) \<and> queue (agent h) = [] \<and> q_capacity (agent h) = 500 \<and>
          pool (agent h) = [Idle, Idle] \<and> log (agent h) = [] \<and> next_seq h = 0 \<and>
          dedup (agent h) = \<lparr>inner = \<lparr>expiry_by_key = [], insertion_order = []\<rparr>, capacity = 10000, ttl = from_secs 600\<rparr> \<and>
          config (aggr (agent h)) = \<lparr>max_buckets = 100, important_window = from_secs 2, normal_window = from_secs 10,
            drain_timeout = from_secs 5\<rparr> \<and> buckets (aggr (agent h)) = [] \<and>
          (\<exists>who. identity = Inr who \<and> device_id (agent h) = id_device_id who \<and>
             subject h = replace_str (str ''{0}'') (id_user_id who) (subject_template cfg)))"
proof -
  note res = host_start_result [of cfg identity auth plain connect subscribe now]
  show ?thesis
  proof (cases "host_start cfg identity auth plain connect subscribe now")
    case None
    with res show ?thesis by (simp only:) blast
  next
    case (Some r)
    show ?thesis
    proof (cases r)
      case (Inl e)
      with Some res show ?thesis by simp
    next
      case (Inr h)
      from Some Inr have "host_start cfg identity auth plain connect subscribe now = Some (Inr h)" by simp
      note limits = host_start_limits [OF this]
      from Some Inr res limits show ?thesis by simp
    qed
  qed
qed

lemma host_start_started:
  assumes "host_start cfg identity auth plain connect subscribe now = Some (Inr h)"
  shows "\<exists>who. identity = Inr who \<and> device_id (agent h) = id_device_id who \<and>
    subject h = replace_str (str ''{0}'') (id_user_id who) (subject_template cfg)"
  using assms host_start_result [of cfg identity auth plain connect subscribe now] by auto

lemma host_start_inv:
  assumes "host_start cfg identity auth plain connect subscribe now = Some (Inr h)"
  shows "agent_inv (agent h) \<and> q_capacity (agent h) = 500 \<and> length (pool (agent h)) = 2 \<and>
    capacity (dedup (agent h)) = 10000 \<and> max_buckets (config (aggr (agent h))) = 100"
  using host_start_limits [OF assms] host_start_result [of cfg identity auth plain connect subscribe now] assms by auto

subsection \<open>Arrival stamps\<close>

definition stamps_ok :: "agent_host \<Rightarrow> bool" where
  "stamps_ok h \<longleftrightarrow> sorted_wrt (<) (map re_seq (queue (agent h))) \<and>
     (\<forall>e \<in> set (queue (agent h)). re_seq e \<le> next_seq h)"

lemma on_message_Running:
  assumes "on_message h msg now = Running h'"
  obtains (ignored) "h' = h"
  | (stamped) payload where "msg = Some payload" "payload \<noteq> []"
      "h' = h\<lparr>next_seq := next_seq h + 1,
         agent := snd (handle_enqueue \<lparr>re_payload = payload, re_received_at = now, re_seq = next_seq h + 1\<rparr> (agent h))\<rparr>"
  using assms by (auto simp: on_message_def Let_def split: option.splits if_splits)

lemma host_step_stamps:
  assumes "host_step E h h'" and "stamps_ok h" and "unat (next_seq h) + 1 < 2 ^ 64"
  shows "stamps_ok h' \<and> unat (next_seq h') \<le> unat (next_seq h) + 1"
  using assms(1)
proof cases
  case (message msg now)
  from message show ?thesis
  proof (cases rule: on_message_Running)
    case (stamped payload)
    have next_stamp: "unat (next_seq h + 1) = unat (next_seq h) + 1"
      using assms(3) by (simp add: unat_word_ariths)
    then have newer: "x \<le> next_seq h \<Longrightarrow> x < next_seq h + 1" for x
      by (simp add: word_le_nat_alt word_less_nat_alt)
    have "\<forall>e \<in> set (queue (agent h)). re_seq e < next_seq h + 1"
      using assms(2) newer by (auto simp: stamps_ok_def)
    then show ?thesis
      using assms(2) next_stamp
      by (auto simp: stamped(3) stamps_ok_def handle_enqueue_def sorted_wrt_append less_imp_le)
  qed (use assms(2) in simp)
next
  case (internal s' pre)
  then show ?thesis using assms(2) by (auto simp: stamps_ok_def sorted_wrt_append)
qed

text \<open>
  Arrival order: in every state of the running host, after fewer than \<open>2\<close> to the \<open>64\<close> steps of messages and
  agent actions in any interleaving, the queued events carry strictly increasing stamps, none above
  the loop's counter. A later message never gets a smaller stamp, whatever was dropped in between.
\<close>

theorem host_stamps_increase:
  assumes "(host_step E ^^ n) h0 h" and "n < 2 ^ 64" and "next_seq h0 = 0" and "queue (agent h0) = []"
  shows "sorted_wrt (<) (map re_seq (queue (agent h))) \<and>
    list_all (\<lambda>e. re_seq e \<le> next_seq h) (queue (agent h)) \<and> unat (next_seq h) \<le> n"
proof -
  have "stamps_ok h \<and> unat (next_seq h) \<le> n"
    using assms(1,2)
  proof (induction n arbitrary: h)
    case 0
    then show ?case using assms(3,4) by (simp add: stamps_ok_def)
  next
    case (Suc n)
    then obtain h1 where h1: "(host_step E ^^ n) h0 h1" "host_step E h1 h" by auto
    with Suc have "stamps_ok h1" "unat (next_seq h1) \<le> n" by auto
    with host_step_stamps [OF h1(2)] Suc.prems(2) show ?case by fastforce
  qed
  then show ?thesis by (auto simp: stamps_ok_def list_all_iff)
qed

definition example_host :: agent_host where
  "example_host = \<lparr>subject = str ''s'', agent = intake_handle example_agent, next_seq = 0\<rparr>"

theorem host_stamps_increase_witness:
  "\<exists>h. (host_step example_env ^^ 1) example_host h \<and> length (queue (agent h)) = 1 \<and>
     sorted_wrt (<) (map re_seq (queue (agent h)))"
proof -
  obtain h where h: "on_message example_host (Some [1]) 5 = Running h" "length (queue (agent h)) = 1"
    by (simp add: on_message_def example_host_def intake_handle_def example_agent_def handle_enqueue_def)
  then have "(host_step example_env ^^ 1) example_host h" unfolding relpowp_1 by (intro message)
  moreover from host_stamps_increase [OF this] have "sorted_wrt (<) (map re_seq (queue (agent h)))"
    by (simp add: example_host_def intake_handle_def example_agent_def)
  ultimately show ?thesis using h(2) by blast
qed

subsection \<open>Shutdown\<close>

lemma agent_steps_inv: "(agent_step E)\<^sup>*\<^sup>* s s' \<Longrightarrow> agent_inv s \<Longrightarrow> agent_inv s'"
  by (induction rule: rtranclp_induct) (auto intro: agent_step_inv)

lemma agent_steps_closed: "(agent_step E)\<^sup>*\<^sup>* s s' \<Longrightarrow> \<not> channel_open s \<Longrightarrow> \<not> channel_open s'"
  by (induction rule: rtranclp_induct) (auto dest: closed_step)

lemma agent_steps_pool: "(agent_step E)\<^sup>*\<^sup>* s s' \<Longrightarrow> length (pool s') = length (pool s)"
  by (induction rule: rtranclp_induct) (auto dest: agent_step_frame)

lemma shutdown_begin_closes:
  assumes "agent_inv (agent h)" and "handles (agent h) = 1"
  shows "agent_inv (agent (shutdown_begin h)) \<and> \<not> channel_open (agent (shutdown_begin h)) \<and>
    pool (agent (shutdown_begin h)) = pool (agent h)"
  using assms
  by (auto simp: shutdown_begin_def pipeline_close_def drop_handle_def agent_inv_def channel_open_def accounts_ok_def in_flight_def)

text \<open>
  Property C14. Shutdown is orderly and complete: after the loop's handle and the pipeline's sender are gone, whatever else the
  agent does, a state in which the workers have ended is reachable, and in every such state the intake queue is empty; the
  aggregator's shutdown then succeeds for every order of its keys, leaves no open bucket, and turns
  every event still waiting into a source of a render, with none lost or duplicated.
\<close>

theorem host_shutdown_complete:
  assumes "agent_inv (agent h)" and "handles (agent h) = 1" and "pool (agent h) \<noteq> []"
    and "(agent_step E)\<^sup>*\<^sup>* (agent (shutdown_begin h)) s"
  shows "(\<exists>s'. (worker_step E)\<^sup>*\<^sup>* s s' \<and> pipeline_joined (pipeline_close s')) \<and>
    (list_all (\<lambda>w. w = Stopped) (pool s) \<longrightarrow> queue s = [] \<and>
      (\<forall>ks finish flushed. mset ks = mset (hm_keys (buckets (aggr s))) \<longrightarrow>
        (\<exists>h'. shutdown_end g ks finish flushed (h\<lparr>agent := s\<rparr>) = Some (h', flushed) \<and>
          buckets (aggr (agent h')) = [] \<and> rendering (aggr (agent h')) = held (aggr s))))"
proof -
  note begun = shutdown_begin_closes [OF assms(1,2)]
  have inv: "agent_inv s" using agent_steps_inv [OF assms(4)] begun by blast
  have closed: "\<not> channel_open s" using agent_steps_closed [OF assms(4)] begun by blast
  have pool: "pool s \<noteq> []" using agent_steps_pool [OF assms(4)] begun assms(3) by auto
  have "\<exists>s'. (worker_step E)\<^sup>*\<^sup>* s s' \<and> pipeline_joined (pipeline_close s')"
    using closed_drains [OF inv closed pool, of E]
    by (auto simp: work_left_0 pipeline_joined_def pipeline_close_def)
  moreover have "queue s = []" if "list_all (\<lambda>w. w = Stopped) (pool s)"
    using that pool inv by (cases "pool s") (auto simp: agent_inv_def)
  moreover have "\<exists>h'. shutdown_end g ks finish flushed (h\<lparr>agent := s\<rparr>) = Some (h', flushed) \<and>
      buckets (aggr (agent h')) = [] \<and> rendering (aggr (agent h')) = held (aggr s)"
    if "mset ks = mset (hm_keys (buckets (aggr s)))" for ks finish flushed
  proof -
    have "agg_inv (aggr s)" using inv by (simp add: agent_inv_def)
    from agg_shutdown_flushes [OF this that, of g finish] show ?thesis
      by (auto simp: shutdown_end_def held_def add.commute)
  qed
  ultimately show ?thesis by blast
qed

theorem host_shutdown_complete_witness:
  "\<exists>s'. (worker_step example_env)\<^sup>*\<^sup>* (agent (shutdown_begin example_host)) s' \<and> pipeline_joined (pipeline_close s')"
proof -
  have "agent_inv example_agent" using build_agent_inv [OF example_build dedup_new_inv [OF example_cache_new]] .
  then have "agent_inv (agent example_host)"
    by (auto simp: example_host_def intake_handle_def agent_inv_def accounts_ok_def in_flight_def example_agent_def)
  moreover have "handles (agent example_host) = 1" "pool (agent example_host) \<noteq> []"
    by (simp_all add: example_host_def intake_handle_def example_agent_def)
  ultimately show ?thesis using host_shutdown_complete [OF _ _ _ rtranclp.rtrancl_refl] by blast
qed

end
