(* ===== verification/Settings.thy ===== *)
theory Settings
  imports Host
begin

section \<open>The Windows settings file (\<^verbatim>\<open>settings.rs\<close>)\<close>

text \<open>
  Settings are read once at start-up, beneath the environment. Reading the file, the JSON reader and the
  directive parser of the log filter are parameters.
\<close>

record settings =
  s_nats_url :: "rstring option"
  s_subject_template :: "rstring option"
  s_ack_subject :: "rstring option"
  s_nats_creds_file :: "rstring option"
  s_nats_auth_service_url :: "rstring option"
  s_nats_auth_service_scope :: "rstring option"
  s_aad_client_id :: "rstring option"
  s_aad_tenant_id :: "rstring option"
  s_device_id :: "rstring option"
  s_log_level :: "rstring option"

definition settings_default :: settings where
  "settings_default = \<lparr>s_nats_url = None, s_subject_template = None, s_ack_subject = None,
     s_nats_creds_file = None, s_nats_auth_service_url = None, s_nats_auth_service_scope = None,
     s_aad_client_id = None, s_aad_tenant_id = None, s_device_id = None, s_log_level = None\<rparr>"

definition settings_names :: "string list" where
  "settings_names = [''natsUrl'', ''subjectTemplate'', ''ackSubject'', ''natsCredsFile'', ''natsAuthServiceUrl'',
     ''natsAuthServiceScope'', ''aadClientId'', ''aadTenantId'', ''deviceId'', ''logLevel'']"

text \<open>The derived \<^verbatim>\<open>Deserialize\<close>.\<close>

definition settings_of :: "json \<Rightarrow> settings option" where
  "settings_of v = do {
     fs \<leftarrow> fields_of settings_names v;
     url \<leftarrow> de_option de_string (fs ! 0);
     tmpl \<leftarrow> de_option de_string (fs ! 1);
     ack \<leftarrow> de_option de_string (fs ! 2);
     creds \<leftarrow> de_option de_string (fs ! 3);
     svc \<leftarrow> de_option de_string (fs ! 4);
     scope \<leftarrow> de_option de_string (fs ! 5);
     client \<leftarrow> de_option de_string (fs ! 6);
     ten \<leftarrow> de_option de_string (fs ! 7);
     dev \<leftarrow> de_option de_string (fs ! 8);
     lvl \<leftarrow> de_option de_string (fs ! 9);
     Some \<lparr>s_nats_url = url, s_subject_template = tmpl, s_ack_subject = ack, s_nats_creds_file = creds,
       s_nats_auth_service_url = svc, s_nats_auth_service_scope = scope, s_aad_client_id = client, s_aad_tenant_id = ten,
       s_device_id = dev, s_log_level = lvl\<rparr> }"

interpretation settings_reader: struct_reader settings_names settings_of
  by (rule struct_readerI) (simp add: settings_of_def)

text \<open>\<^verbatim>\<open>serde_json::from_str\<close> for the settings, over the library's reader of the text.\<close>

definition settings_from_str :: "(rstring \<Rightarrow> rstring + json) \<Rightarrow> (json \<Rightarrow> rstring) \<Rightarrow> rstring \<Rightarrow> rstring + settings" where
  "settings_from_str json_text shape_error text =
     (case json_text text of
        Inl e \<Rightarrow> Inl e
      | Inr v \<Rightarrow> (case settings_of v of None \<Rightarrow> Inl (shape_error v) | Some st \<Rightarrow> Inr st))"

definition parse_settings :: "(rstring \<Rightarrow> rstring + settings) \<Rightarrow> rstring \<Rightarrow> rstring + settings" where
  "parse_settings from_str json =
     (case from_str json of
        Inr st \<Rightarrow> Inr st
      | Inl error \<Rightarrow> Inl (str ''settings file: malformed JSON, falling back to defaults: '' @ error))"

datatype io_error = Not_Found rstring | Other_Error rstring

definition load_from_path ::
  "(rstring \<Rightarrow> rstring + settings) \<Rightarrow> (rstring \<Rightarrow> io_error + rstring) \<Rightarrow> rstring \<Rightarrow> settings \<times> rstring list" where
  "load_from_path from_str read_to_string path =
     (case read_to_string path of
        Inr contents \<Rightarrow>
          (case parse_settings from_str contents of
             Inr st \<Rightarrow> (st, [])
           | Inl msg \<Rightarrow> (settings_default, [msg]))
      | Inl (Not_Found _) \<Rightarrow> (settings_default, [])
      | Inl (Other_Error error) \<Rightarrow>
          (settings_default,
           [str ''settings file: could not read '' @ path @ str '', falling back to defaults: '' @ error]))"

text \<open>\<^verbatim>\<open>PathBuf::join\<close> with a relative name, on Windows.\<close>

definition path_join :: "rstring \<Rightarrow> rstring \<Rightarrow> rstring" where
  "path_join base name =
     (if base = [] \<or> last base \<in> {92, 47} \<or> length base = 2 \<and> last base = 58
      then base @ name else base @ [92] @ name)"

text \<open>\<open>env_var\<close> is \<^verbatim>\<open>std::env::var\<close> with its error.\<close>

definition default_path :: "(rstring \<Rightarrow> rstring + rstring) \<Rightarrow> rstring + rstring" where
  "default_path env_var =
     (case env_var (str ''LOCALAPPDATA'') of
        Inl e \<Rightarrow> Inl e
      | Inr dir \<Rightarrow> Inr (path_join (path_join dir (str ''DesktopNotificationAgent'')) (str ''settings.json'')))"

definition load ::
  "(rstring \<Rightarrow> rstring + settings) \<Rightarrow> (rstring \<Rightarrow> io_error + rstring) \<Rightarrow> (rstring \<Rightarrow> rstring + rstring) \<Rightarrow> settings \<times> rstring list" where
  "load from_str read_to_string env_var =
     (case default_path env_var of
        Inr path \<Rightarrow> load_from_path from_str read_to_string path
      | Inl error \<Rightarrow> (settings_default, [str ''settings file: LOCALAPPDATA not set, using defaults: '' @ error]))"

definition resolved_opt :: "getenv \<Rightarrow> string \<Rightarrow> rstring option \<Rightarrow> rstring option" where
  "resolved_opt env var file_value =
     (let from_file = (case map_option trim file_value of
            None \<Rightarrow> None | Some s \<Rightarrow> if s \<noteq> [] then Some s else None)
      in case env (str var) of
           Some v \<Rightarrow> (let trimmed = trim v in if trimmed \<noteq> [] then Some trimmed else from_file)
         | None \<Rightarrow> from_file)"

definition resolved_str :: "getenv \<Rightarrow> string \<Rightarrow> rstring option \<Rightarrow> string \<Rightarrow> rstring" where
  "resolved_str env var file_value d =
     (case resolved_opt env var file_value of None \<Rightarrow> str d | Some v \<Rightarrow> v)"

definition settings_agent_config :: "getenv \<Rightarrow> settings \<Rightarrow> agent_config" where
  "settings_agent_config env st = \<lparr>
     nats_url = resolved_str env ''NOTIFY_NATS_URL'' (s_nats_url st) ''nats://127.0.0.1:4222'',
     subject_template = resolved_str env ''NOTIFY_SUBJECT_TEMPLATE'' (s_subject_template st) ''notify.user.{0}.desktop'',
     ack_subject = resolved_str env ''NOTIFY_ACK_SUBJECT'' (s_ack_subject st) ''notify.ack.desktop''\<rparr>"

definition resolve_log_directive :: "getenv \<Rightarrow> settings \<Rightarrow> rstring" where
  "resolve_log_directive env st =
     (let from_file = (case map_option trim (s_log_level st) of
            None \<Rightarrow> str ''info'' | Some s \<Rightarrow> if s \<noteq> [] then s else str ''info'')
      in case env (str ''RUST_LOG'') of
           Some v \<Rightarrow> (let trimmed = trim v in if trimmed \<noteq> [] then trimmed else from_file)
         | None \<Rightarrow> from_file)"

text \<open>\<open>try_new\<close> and \<open>info_filter\<close> are \<^verbatim>\<open>EnvFilter::try_new\<close> and \<^verbatim>\<open>EnvFilter::new("info")\<close>.\<close>

definition resolve_log_filter :: "(rstring \<Rightarrow> 'f option) \<Rightarrow> 'f \<Rightarrow> getenv \<Rightarrow> settings \<Rightarrow> 'f" where
  "resolve_log_filter try_new info_filter env st =
     (case try_new (resolve_log_directive env st) of Some f \<Rightarrow> f | None \<Rightarrow> info_filter)"

subsection \<open>Precedence\<close>

text \<open>The first of some sources that is present and not blank, without surrounding white space.\<close>

fun first_trimmed :: "rstring option list \<Rightarrow> rstring option" where
  "first_trimmed [] = None"
| "first_trimmed (v # vs) =
     (case v of Some s \<Rightarrow> if trim s \<noteq> [] then Some (trim s) else first_trimmed vs | None \<Rightarrow> first_trimmed vs)"

lemma resolved_opt_first: "resolved_opt env var f = first_trimmed [env (str var), f]"
  by (auto simp: resolved_opt_def Let_def split: option.splits)

lemma first_trimmed_not_blank: "first_trimmed vs = Some s \<Longrightarrow> s \<noteq> []"
  by (induction vs) (auto split: option.splits if_splits)

lemma resolved_str_first:
  "trim (str d) = str d \<Longrightarrow> str d \<noteq> [] \<Longrightarrow>
     Some (resolved_str env var f d) = first_trimmed [env (str var), f, Some (str d)]"
  by (auto simp: resolved_str_def resolved_opt_first split: option.splits)

lemma settings_defaults_trimmed:
  "list_all (\<lambda>d. trim (str d) = str d \<and> str d \<noteq> [])
     [''nats://127.0.0.1:4222'', ''notify.user.{0}.desktop'', ''notify.ack.desktop'', ''info'', ''organizations'']"
  by code_simp

text \<open>The settings with a default are the first one present and not blank of environment, file and default.\<close>

lemma connection_settings:
  "Some (nats_url (settings_agent_config env st)) =
     first_trimmed [env (str ''NOTIFY_NATS_URL''), s_nats_url st, Some (str ''nats://127.0.0.1:4222'')]"
  "Some (subject_template (settings_agent_config env st)) =
     first_trimmed [env (str ''NOTIFY_SUBJECT_TEMPLATE''), s_subject_template st, Some (str ''notify.user.{0}.desktop'')]"
  "Some (ack_subject (settings_agent_config env st)) =
     first_trimmed [env (str ''NOTIFY_ACK_SUBJECT''), s_ack_subject st, Some (str ''notify.ack.desktop'')]"
  unfolding settings_agent_config_def agent_config.select_convs
  by (rule resolved_str_first; use settings_defaults_trimmed in simp)+

lemma tenant_setting:
  "Some (resolved_str env ''NOTIFY_AAD_TENANT_ID'' (s_aad_tenant_id st) ''organizations'') =
     first_trimmed [env (str ''NOTIFY_AAD_TENANT_ID''), s_aad_tenant_id st, Some (str ''organizations'')]"
  by (rule resolved_str_first; use settings_defaults_trimmed in simp)

lemma log_setting:
  "Some (resolve_log_directive env st) = first_trimmed [env (str ''RUST_LOG''), s_log_level st, Some (str ''info'')]"
proof -
  have "trim (str ''info'') = str ''info''" "str ''info'' \<noteq> []" using settings_defaults_trimmed by simp_all
  then show ?thesis by (auto simp: resolve_log_directive_def Let_def split: option.splits)
qed

text \<open>
  Loading never fails: it yields the file's settings only when the file is there, readable and well-formed, and the
  defaults otherwise. A diagnostic is returned for an unreadable or malformed file, and none for a missing one.
\<close>

theorem load_from_path_total:
  "fst (load_from_path from_str rd path) =
     (case rd path of
        Inr contents \<Rightarrow> (case from_str contents of Inr st \<Rightarrow> st | Inl _ \<Rightarrow> settings_default)
      | Inl _ \<Rightarrow> settings_default) \<and>
   length (snd (load_from_path from_str rd path)) \<le> 1 \<and>
   (snd (load_from_path from_str rd path) = [] \<longleftrightarrow>
     (\<exists>contents st. rd path = Inr contents \<and> from_str contents = Inr st) \<or> (\<exists>e. rd path = Inl (Not_Found e)))"
  by (auto simp: load_from_path_def parse_settings_def split: sum.splits io_error.splits)

text \<open>
  With no settings file the Windows head and the console head read the same connection settings from the environment,
  as long as no variable has surrounding white space.
\<close>

theorem settings_agree_with_env:
  assumes "\<And>k v. env k = Some v \<Longrightarrow> trim v = v"
  shows "settings_agent_config env settings_default = from_env env"
proof -
  have "resolved_str env var None d = env_or env var d" for var d
    using assms by (auto simp: resolved_str_def resolved_opt_def env_or_def Let_def split: option.splits)
  then show ?thesis by (simp add: settings_agent_config_def from_env_def settings_default_def)
qed

theorem settings_agree_with_env_witness:
  "settings_agent_config (\<lambda>k. if k = str ''NOTIFY_NATS_URL'' then Some (str ''nats://h'') else None) settings_default =
     from_env (\<lambda>k. if k = str ''NOTIFY_NATS_URL'' then Some (str ''nats://h'') else None)"
proof (rule settings_agree_with_env)
  have "trim (str ''nats://h'') = str ''nats://h''" by code_simp
  then show "\<And>k v. (if k = str ''NOTIFY_NATS_URL'' then Some (str ''nats://h'') else None) = Some v \<Longrightarrow> trim v = v"
    by (simp split: if_splits)
qed

end
