(* ===== verification/Windows_Identity.thy ===== *)
theory Windows_Identity
  imports Host
begin

section \<open>The Windows user name as identity (\<^verbatim>\<open>windows_identity.rs\<close>)\<close>

text \<open>
  The default identity of the Windows head. SHA-256 is the parameter \<open>digest\<close>, the Unicode tables \<open>u\<close>,
  the debug rendering of a string in the error text \<open>debug\<close>, and \<^verbatim>\<open>GetUserNameW\<close> with the UTF-16 decoder
  are parameters too.
\<close>

definition strip_domain_prefix :: "rstring \<Rightarrow> rstring" where
  "strip_domain_prefix raw = last (split_char 92 raw)"

definition hash_prefix8 :: "(u8 list \<Rightarrow> u8 list) \<Rightarrow> rstring \<Rightarrow> rstring" where
  "hash_prefix8 digest input = concat (map hex2_lower (take 4 (digest (utf8_bytes input))))"

definition is_ascii_alphanumeric :: "rchar \<Rightarrow> bool" where
  "is_ascii_alphanumeric c \<longleftrightarrow> 48 \<le> c \<and> c \<le> 57 \<or> 65 \<le> c \<and> c \<le> 90 \<or> 97 \<le> c \<and> c \<le> 122"

definition sanitize :: "rstring \<Rightarrow> rstring" where
  "sanitize normalized = map (\<lambda>c. if is_ascii_alphanumeric c \<or> c = 95 \<or> c = 45 then c else 95) normalized"

definition normalize_username :: "ucd \<Rightarrow> rstring \<Rightarrow> rstring" where
  "normalize_username u raw = to_lowercase u (trim (strip_domain_prefix (trim raw)))"

definition user_id_from_username ::
  "ucd \<Rightarrow> (u8 list \<Rightarrow> u8 list) \<Rightarrow> (rstring \<Rightarrow> rstring) \<Rightarrow> rstring \<Rightarrow> rstring + rstring" where
  "user_id_from_username u digest debug raw =
     (let normalized = normalize_username u raw in
      if normalized = []
      then Inl (str ''windows username '' @ debug raw @ str '' is empty after trimming/stripping domain prefix'')
      else
        let sanitized = sanitize normalized;
            hash8 = hash_prefix8 digest normalized
        in Inr (str ''u_'' @ sanitized @ str ''_'' @ hash8))"

text \<open>\<open>answer\<close> is the outcome of the system call: the buffer of 257 units and the length it reports.\<close>

definition current_windows_username ::
  "('w list \<Rightarrow> rstring) \<Rightarrow> rstring + 'w list \<times> nat \<Rightarrow> rstring + rstring" where
  "current_windows_username from_utf16_lossy answer =
     (case answer of
        Inl e \<Rightarrow> Inl (str ''GetUserNameW failed: '' @ e)
      | Inr (buf, len) \<Rightarrow>
          let end_pos = min (len - 1) (length buf)
          in Inr (from_utf16_lossy (take end_pos buf)))"

definition windows_identity ::
  "ucd \<Rightarrow> (u8 list \<Rightarrow> u8 list) \<Rightarrow> (rstring \<Rightarrow> rstring) \<Rightarrow> ('w list \<Rightarrow> rstring) \<Rightarrow> rstring + 'w list \<times> nat \<Rightarrow>
     rstring \<Rightarrow> rstring + agent_identity" where
  "windows_identity u digest debug from_utf16_lossy answer dev =
     (case current_windows_username from_utf16_lossy answer of
        Inl e \<Rightarrow> Inl e
      | Inr username \<Rightarrow>
          (case user_id_from_username u digest debug username of
             Inl e \<Rightarrow> Inl e
           | Inr uid \<Rightarrow> Inr \<lparr>id_user_id = uid, id_device_id = dev\<rparr>))"

subsection \<open>The alphabet\<close>

definition safe_char :: "rchar \<Rightarrow> bool" where
  "safe_char c \<longleftrightarrow> 48 \<le> c \<and> c \<le> 57 \<or> 65 \<le> c \<and> c \<le> 90 \<or> 97 \<le> c \<and> c \<le> 122 \<or> c = 95 \<or> c = 45"

lemma sanitize_safe: "list_all safe_char (sanitize s)"
  by (auto simp: sanitize_def list_all_iff safe_char_def is_ascii_alphanumeric_def)

lemma hex2_lower_safe: "list_all safe_char (hex2_lower b)"
  using unat_u8 [of b] by (auto simp: hex2_lower_def hex_digit_def safe_char_def split: if_splits)

lemma hash_prefix8_safe: "list_all safe_char (hash_prefix8 digest s)"
  using hex2_lower_safe by (fastforce simp: hash_prefix8_def list_all_iff)

lemma user_id_shape:
  "user_id_from_username u digest debug raw = Inr uid \<longleftrightarrow>
     normalize_username u raw \<noteq> [] \<and>
     uid = str ''u_'' @ sanitize (normalize_username u raw) @ str ''_'' @ hash_prefix8 digest (normalize_username u raw)"
  by (auto simp: user_id_from_username_def Let_def)

lemma user_id_safe: "user_id_from_username u digest debug raw = Inr uid \<Longrightarrow> list_all safe_char uid \<and> uid \<noteq> []"
  using sanitize_safe hash_prefix8_safe by (auto simp: user_id_shape str_def safe_char_def [of 117] safe_char_def [of 95])

text \<open>
  An identity that may be put into a subject: the contract of \<^verbatim>\<open>IdentityProvider\<close> together with the safe
  alphabet, and what it gives for the default subject template.
\<close>

locale subject_safe_identity = identity_provider identity for identity :: "'e \<Rightarrow> rstring + agent_identity" +
  assumes user_safe: "identity e = Inr i \<Longrightarrow> list_all safe_char (id_user_id i)"
begin

lemma subject_tokens:
  assumes "identity e = Inr i"
  shows "split_char 46 (replace_str (str ''{0}'') (id_user_id i) (str ''notify.user.{0}.desktop'')) =
    [str ''notify'', str ''user'', id_user_id i, str ''desktop'']"
proof -
  have "46 \<notin> set (id_user_id i)" using user_safe [OF assms] by (auto simp: list_all_iff safe_char_def)
  moreover have "replace_str (str ''{0}'') x (str ''notify.user.{0}.desktop'') = str ''notify.user.'' @ x @ str ''.desktop''" for x
    by (simp add: str_def)
  ultimately show ?thesis by (simp add: str_def split_char_append)
qed

end

interpretation windows_id: subject_safe_identity
  "\<lambda>(u, digest, debug, decode, answer, dev). windows_identity u digest debug decode answer dev"
proof
  fix e and i :: agent_identity
  assume "(\<lambda>(u, digest, debug, decode, answer, dev). windows_identity u digest debug decode answer dev) e = Inr i"
  then obtain u digest debug raw where id: "user_id_from_username u digest debug raw = Inr (id_user_id i)"
    by (cases e) (auto simp: windows_identity_def split: sum.splits)
  then show "list_all safe_char (id_user_id i)" using user_id_safe by blast
  have "117 \<in> set (id_user_id i)" using id by (auto simp: user_id_shape str_def)
  then show "trim (id_user_id i) \<noteq> []" by (rule trim_not_blank) (simp add: is_whitespace_def)
qed

text \<open>
  Property C34. A Windows user name cannot break a subject: the derived id consists of ASCII letters, digits, underscores and
  hyphens, so the default subject always has exactly its four tokens with the id as the third, and no
  wildcard, dot or white space comes from the name. It fails only for a name that is empty after
  trimming and stripping the domain.
\<close>

theorem windows_subject_safe:
  "(\<exists>uid. user_id_from_username u digest debug raw = Inr uid \<and> list_all safe_char uid \<and>
      split_char 46 (replace_str (str ''{0}'') uid (str ''notify.user.{0}.desktop'')) =
        [str ''notify'', str ''user'', uid, str ''desktop'']) \<longleftrightarrow>
   normalize_username u raw \<noteq> []"
proof -
  have "split_char 46 (replace_str (str ''{0}'') uid (str ''notify.user.{0}.desktop'')) =
      [str ''notify'', str ''user'', uid, str ''desktop'']"
    if "user_id_from_username u digest debug raw = Inr uid" for uid
  proof -
    have "windows_identity u digest debug (\<lambda>_. raw) (Inr ([] :: unit list, 0)) [] = Inr \<lparr>id_user_id = uid, id_device_id = []\<rparr>"
      using that by (simp add: windows_identity_def current_windows_username_def)
    then show ?thesis
      using windows_id.subject_tokens [of "(u, digest, debug, \<lambda>_. raw, Inr ([] :: unit list, 0), [])"] by simp
  qed
  then show ?thesis using user_id_safe by (auto simp: user_id_shape)
qed

subsection \<open>Distinct names\<close>

definition sha256_length :: "(u8 list \<Rightarrow> u8 list) \<Rightarrow> bool" where
  "sha256_length digest \<longleftrightarrow> (\<forall>x. length (digest x) = 32)"

lemma length_hash_prefix8: "sha256_length digest \<Longrightarrow> length (hash_prefix8 digest s) = 8"
  by (simp add: hash_prefix8_def length_concat sum_list_triv o_def hex2_lower_def sha256_length_def)

text \<open>
  Two names share an id exactly when both their sanitized forms and the first four bytes of their digests agree: names
  that only sanitize alike, like \<open>user.name\<close> and \<open>user_name\<close>, are told apart by the digest.
\<close>

theorem user_ids_equal_iff:
  assumes "sha256_length digest"
    and "user_id_from_username u digest debug a = Inr ida" and "user_id_from_username u digest debug b = Inr idb"
  shows "ida = idb \<longleftrightarrow>
    sanitize (normalize_username u a) = sanitize (normalize_username u b) \<and>
    hash_prefix8 digest (normalize_username u a) = hash_prefix8 digest (normalize_username u b)"
  using assms(2,3) length_hash_prefix8 [OF assms(1)]
  by (auto simp: user_id_shape append_eq_append_conv)

definition sum_digest :: "u8 list \<Rightarrow> u8 list" where
  "sum_digest bs = sum_list bs # replicate 31 0"

lemma normalize_dots:
  assumes "set s \<subseteq> {46, 95}"
  shows "normalize_username u s = s"
proof -
  have plain: "\<forall>c \<in> set s. c < 128 \<and> \<not> is_whitespace c \<and> c \<noteq> 92 \<and> ascii_lower c = c"
    using assms by (auto simp: is_whitespace_def ascii_lower_def)
  have "dropWhile is_whitespace xs = xs" if "\<forall>c \<in> set xs. \<not> is_whitespace c" for xs
    using that by (cases xs) auto
  from this [of s] this [of "rev s"] have "trim s = s" using plain by (simp add: trim_def)
  moreover have "strip_domain_prefix s = s" using plain by (auto simp: strip_domain_prefix_def split_char_none)
  moreover have "to_lowercase u s = s" using plain by (simp add: to_lowercase_ascii map_idI)
  ultimately show ?thesis by (simp add: normalize_username_def)
qed

theorem user_ids_equal_iff_witness:
  "\<exists>ida idb. user_id_from_username ascii_ucd sum_digest id (str ''a.b'') = Inr ida \<and>
     user_id_from_username ascii_ucd sum_digest id (str ''a_b'') = Inr idb \<and> ida \<noteq> idb"
proof -
  have len: "sha256_length sum_digest" by (simp add: sha256_length_def sum_digest_def)
  have n: "normalize_username ascii_ucd (str ''a.b'') = str ''a.b''" "normalize_username ascii_ucd (str ''a_b'') = str ''a_b''"
    by code_simp+
  have h: "hash_prefix8 sum_digest (str ''a.b'') \<noteq> hash_prefix8 sum_digest (str ''a_b'')" by code_simp
  obtain ida idb where i: "user_id_from_username ascii_ucd sum_digest id (str ''a.b'') = Inr ida"
    "user_id_from_username ascii_ucd sum_digest id (str ''a_b'') = Inr idb"
    using n by (simp add: user_id_from_username_def str_def Let_def)
  show ?thesis using i user_ids_equal_iff [OF len i] n h by auto
qed

text \<open>
  The ids are not injective: whatever the digest is, there are two different names (of dots and underscores) with
  the same id, since a suffix of 32 bits cannot tell apart all names with one sanitized form.
\<close>

theorem user_ids_collide:
  "\<exists>a b. a \<noteq> b \<and> normalize_username u a = a \<and> normalize_username u b = b \<and>
     (\<exists>uid. user_id_from_username u digest debug a = Inr uid \<and> user_id_from_username u digest debug b = Inr uid)"
proof -
  define names where "names = {s :: rstring. set s \<subseteq> {46, 95} \<and> length s = 33}"
  define prefixes where "prefixes = {bs :: u8 list. set bs \<subseteq> UNIV \<and> length bs \<le> 4}"
  have two: "card {46 :: rchar, 95} = 2" by simp
  have names: "card names = 2 ^ 33"
    using card_lists_length_eq [of "{46 :: rchar, 95}" 33] by (simp only: names_def two) simp
  have fin: "finite prefixes" unfolding prefixes_def by (rule finite_lists_length_le) simp
  have "card prefixes = (\<Sum>i \<le> 4. 256 ^ i)"
    unfolding prefixes_def by (subst card_lists_length_le) (auto simp: card_word)
  also have "\<dots> < (2 ^ 33 :: nat)" by (simp add: atMost_nat_numeral)
  finally have less: "card prefixes < card names" by (simp only: names)
  have "(\<lambda>s. take 4 (digest (utf8_bytes s))) ` names \<subseteq> prefixes" by (auto simp: prefixes_def)
  with fin less have "\<not> inj_on (\<lambda>s. take 4 (digest (utf8_bytes s))) names"
    by (meson card_inj_on_le leD)
  then obtain a b where ab: "a \<in> names" "b \<in> names" "a \<noteq> b"
    "take 4 (digest (utf8_bytes a)) = take 4 (digest (utf8_bytes b))"
    by (auto simp: inj_on_def)
  have same: "sanitize s = replicate 33 95" if "s \<in> names" for s
  proof (rule replicate_eqI)
    have "\<forall>c \<in> set s. c = 46 \<or> c = 95" using that by (auto simp: names_def)
    then show "y = 95" if "y \<in> set (sanitize s)" for y
      using that by (auto simp: sanitize_def is_ascii_alphanumeric_def)
  qed (use that in \<open>simp add: names_def sanitize_def\<close>)
  have "normalize_username u a = a" "normalize_username u b = b"
    using ab(1,2) by (auto simp: names_def intro: normalize_dots)
  moreover have "a \<noteq> []" "b \<noteq> []" using ab(1,2) by (auto simp: names_def)
  ultimately show ?thesis
    using ab same by (intro exI [of _ a] exI [of _ b]) (simp add: user_id_shape hash_prefix8_def)
qed

end
