(* ===== verification/Nats_Auth.thy ===== *)
theory Nats_Auth
  imports Identity
begin

section \<open>NATS authentication (\<^verbatim>\<open>nats_auth.rs\<close>)\<close>

text \<open>
  The configuration check and the callback that answers a server's nonce. The NATS client, HTTP and the
  key-pair operations of the \<^verbatim>\<open>nkeys\<close> crate are parameters.
\<close>

text \<open>\<^verbatim>\<open>CredsFileAuth\<close>: \<open>credentials_file\<close> is the client library's loader.\<close>

record creds_file_auth =
  creds_path :: rstring

definition creds_connect_options :: "(rstring \<Rightarrow> rstring + 'opts) \<Rightarrow> creds_file_auth \<Rightarrow> rstring + 'opts" where
  "creds_connect_options credentials_file self =
     (case credentials_file (creds_path self) of Inl e \<Rightarrow> Inl e | Inr opts \<Rightarrow> Inr opts)"

record external_auth =
  auth_service_url :: rstring
  seed :: rstring
  public_key :: rstring

text \<open>
  \<open>client\<close> is the outcome of building the HTTP client, \<open>key_seed\<close> and \<open>key_public\<close> what the fresh key pair yields.
\<close>

definition external_auth_new ::
  "rstring + unit \<Rightarrow> rstring + rstring \<Rightarrow> rstring \<Rightarrow> rstring \<Rightarrow> rstring + external_auth" where
  "external_auth_new client key_seed key_public url =
     (case client of
        Inl e \<Rightarrow> Inl e
      | Inr _ \<Rightarrow>
          (case key_seed of
             Inl e \<Rightarrow> Inl e
           | Inr sd \<Rightarrow> Inr \<lparr>auth_service_url = url, seed = sd, public_key = key_public\<rparr>))"

text \<open>A request to the service, and its answer: status, whether that is a success, and the decoded \<^verbatim>\<open>jwt\<close> field.\<close>

record jwt_request =
  jr_url :: rstring
  jr_bearer :: rstring
  jr_body :: "(rstring \<times> rstring) list"

record jwt_answer =
  ja_status :: rstring
  ja_success :: bool
  ja_jwt :: "rstring + rstring"

definition jwt_names :: "string list" where
  "jwt_names = [''jwt'']"

definition jwt_response_of :: "json \<Rightarrow> rstring option" where
  "jwt_response_of v = do { fs \<leftarrow> fields_of jwt_names v; de_required de_string (fs ! 0) }"

interpretation jwt_reader: struct_reader jwt_names jwt_response_of
  by (rule struct_readerI) (simp add: jwt_response_of_def)

text \<open>An answer whose body was read as \<open>v\<close>.\<close>

definition jwt_answer_of :: "(json \<Rightarrow> rstring) \<Rightarrow> rstring \<Rightarrow> bool \<Rightarrow> json \<Rightarrow> jwt_answer" where
  "jwt_answer_of shape_error st ok v = \<lparr>ja_status = st, ja_success = ok,
     ja_jwt = (case jwt_response_of v of None \<Rightarrow> Inl (shape_error v) | Some j \<Rightarrow> Inr j)\<rparr>"

definition jwt_request_for :: "external_auth \<Rightarrow> rstring \<Rightarrow> jwt_request" where
  "jwt_request_for self aad_token = \<lparr>jr_url = auth_service_url self, jr_bearer = aad_token,
     jr_body = [(str ''nkeyPublicKey'', public_key self)]\<rparr>"

definition fetch_jwt :: "(jwt_request \<Rightarrow> rstring + jwt_answer) \<Rightarrow> external_auth \<Rightarrow> rstring \<Rightarrow> rstring + rstring" where
  "fetch_jwt http self aad_token =
     (case http (jwt_request_for self aad_token) of
        Inl e \<Rightarrow> Inl e
      | Inr response \<Rightarrow>
          if \<not> ja_success response then Inl (str ''NATS auth service returned '' @ ja_status response)
          else ja_jwt response)"

record nkeys =
  from_seed :: "rstring \<Rightarrow> rstring + rstring"
  sign :: "rstring \<Rightarrow> u8 list \<Rightarrow> rstring + u8 list"

record nats_auth =
  auth_jwt :: rstring
  auth_signature :: "u8 list"

text \<open>
  \<^verbatim>\<open>fetch_auth\<close>, run on every connect and reconnect. \<open>token\<close> is the outcome of the spawned
  \<^verbatim>\<open>access_token\<close> task, with a failed join as an error.
\<close>

definition fetch_auth ::
  "nkeys \<Rightarrow> (jwt_request \<Rightarrow> rstring + jwt_answer) \<Rightarrow> rstring + rstring \<Rightarrow> external_auth \<Rightarrow> u8 list \<Rightarrow> rstring + nats_auth" where
  "fetch_auth nk http token self nonce =
     (case token of
        Inl e \<Rightarrow> Inl e
      | Inr aad_token \<Rightarrow>
          (case fetch_jwt http self aad_token of
             Inl e \<Rightarrow> Inl e
           | Inr jwt \<Rightarrow>
               (case from_seed nk (seed self) of
                  Inl e \<Rightarrow> Inl e
                | Inr key_pair \<Rightarrow>
                    (case sign nk key_pair nonce of
                       Inl e \<Rightarrow> Inl e
                     | Inr signature \<Rightarrow> Inr \<lparr>auth_jwt = jwt, auth_signature = signature\<rparr>))))"

text \<open>
  The closure that \<^verbatim>\<open>connect_options\<close> hands to the client, with \<^verbatim>\<open>AadTokenProvider\<close> as the token provider: every
  attempt to connect or reconnect runs \<^verbatim>\<open>access_token\<close> on the shared refresh-token cell and then \<^verbatim>\<open>fetch_auth\<close>.
  The error is wrapped as the client's \<^verbatim>\<open>AuthError\<close>.
\<close>

definition auth_callback ::
  "nkeys \<Rightarrow> (jwt_request \<Rightarrow> rstring + jwt_answer) \<Rightarrow> (rstring \<Rightarrow> form \<Rightarrow> rstring + refresh_token_response) \<Rightarrow>
     aad_token_provider \<Rightarrow> external_auth \<Rightarrow> u8 list \<Rightarrow> rstring option \<Rightarrow> (rstring + nats_auth) \<times> rstring option" where
  "auth_callback nk http post provider self nonce cell =
     (let (token, cell) = access_token post provider cell in (fetch_auth nk http token self nonce, cell))"

text \<open>One attempt as the outside world answers it, and a run of attempts over the life of the process.\<close>

record connect_attempt =
  at_nonce :: "u8 list"
  at_http :: "jwt_request \<Rightarrow> rstring + jwt_answer"
  at_post :: "rstring \<Rightarrow> form \<Rightarrow> rstring + refresh_token_response"

fun reconnects ::
  "nkeys \<Rightarrow> aad_token_provider \<Rightarrow> external_auth \<Rightarrow> connect_attempt list \<Rightarrow> rstring option \<Rightarrow>
     (rstring + nats_auth) list \<times> rstring option" where
  "reconnects nk provider self [] cell = ([], cell)"
| "reconnects nk provider self (a # as) cell =
     (let (r, cell) = auth_callback nk (at_http a) (at_post a) provider self (at_nonce a) cell;
          (rs, cell) = reconnects nk provider self as cell
      in (r # rs, cell))"

record nats_auth_config =
  cfg_auth_service_url :: "rstring option"
  cfg_auth_service_scope :: "rstring option"
  has_aad_identity :: bool

definition needs_aad :: rstring where
  "needs_aad = str ''NOTIFY_NATS_AUTH_SERVICE_URL requires NOTIFY_AAD_CLIENT_ID (external NATS auth reuses AAD identity)''"

definition needs_scope :: rstring where
  "needs_scope = str ''NOTIFY_NATS_AUTH_SERVICE_URL requires NOTIFY_NATS_AUTH_SERVICE_SCOPE''"

definition needs_https :: rstring where
  "needs_https = str ''NOTIFY_NATS_AUTH_SERVICE_URL must use https (the AAD bearer token would otherwise be sent in cleartext)''"

definition validate_auth_service_config :: "nats_auth_config \<Rightarrow> rstring + unit" where
  "validate_auth_service_config config =
     (case cfg_auth_service_url config of
        None \<Rightarrow> Inr ()
      | Some url \<Rightarrow>
          if \<not> has_aad_identity config then Inl needs_aad
          else if cfg_auth_service_scope config = None then Inl needs_scope
          else if \<not> starts_with url (str ''https://'') then Inl needs_https
          else Inr ())"

subsection \<open>Properties\<close>

text \<open>
  Property C31. No token in the clear: with a configuration that passes the check, the only request whose answer the callback ever looks at is the one to the configured
  URL, which is https, with the AAD token as its bearer and the public key alone as its body. The
  callback succeeds exactly when the token, the service at that URL, and the key pair all deliver, and then returns the
  service's JWT together with the signature of this nonce under the process's own seed.
\<close>

theorem fetch_auth_secure:
  assumes "validate_auth_service_config cfg = Inr ()" and "cfg_auth_service_url cfg = Some url"
    and "external_auth_new client key_seed key_public url = Inr self"
  shows "starts_with url (str ''https://'') \<and>
    fetch_auth nk http (Inr aad) self nonce =
      fetch_auth nk (\<lambda>req. if req = \<lparr>jr_url = url, jr_bearer = aad, jr_body = [(str ''nkeyPublicKey'', key_public)]\<rparr>
        then http req else elsewhere req) (Inr aad) self nonce \<and>
    (fetch_auth nk http token self nonce = Inr \<lparr>auth_jwt = j, auth_signature = sg\<rparr> \<longleftrightarrow>
      (\<exists>aad r sd key. token = Inr aad \<and>
         http \<lparr>jr_url = url, jr_bearer = aad, jr_body = [(str ''nkeyPublicKey'', key_public)]\<rparr> = Inr r \<and> ja_success r \<and> ja_jwt r = Inr j \<and>
         key_seed = Inr sd \<and> from_seed nk sd = Inr key \<and> sign nk key nonce = Inr sg))"
proof -
  have self: "auth_service_url self = url" "public_key self = key_public" "key_seed = Inr (seed self)"
    using assms(3) by (auto simp: external_auth_new_def split: sum.splits)
  have "starts_with url (str ''https://'')"
    using assms(1,2) by (auto simp: validate_auth_service_config_def split: if_splits)
  with self show ?thesis
    by (auto simp: jwt_request_for_def fetch_auth_def fetch_jwt_def split: sum.splits if_splits)
qed

definition example_cfg :: nats_auth_config where
  "example_cfg = \<lparr>cfg_auth_service_url = Some (str ''https://a''), cfg_auth_service_scope = Some (str ''s''),
     has_aad_identity = True\<rparr>"

theorem fetch_auth_secure_witness:
  "\<forall>nk answer nonce. \<exists>self. external_auth_new (Inr ()) (Inr (str ''SU'')) (str ''UK'') (str ''https://a'') = Inr self \<and>
     fetch_auth nk (\<lambda>_. Inr answer) (Inr (str ''tok'')) self nonce =
     fetch_auth nk (\<lambda>req. if jr_url req = str ''https://a'' then Inr answer else Inl []) (Inr (str ''tok'')) self nonce"
proof (intro allI)
  fix nk :: nkeys and answer :: jwt_answer and nonce :: "u8 list"
  obtain self where self: "external_auth_new (Inr ()) (Inr (str ''SU'')) (str ''UK'') (str ''https://a'') = Inr self"
    by (simp add: external_auth_new_def)
  have cfg: "validate_auth_service_config example_cfg = Inr ()" by code_simp
  have url: "cfg_auth_service_url example_cfg = Some (str ''https://a'')" by (simp add: example_cfg_def)
  let ?only = "\<lambda>req. if req = \<lparr>jr_url = str ''https://a'', jr_bearer = str ''tok'', jr_body = [(str ''nkeyPublicKey'', str ''UK'')]\<rparr>
    then Inr answer else Inl []"
  have "fetch_auth nk (\<lambda>_. Inr answer) (Inr (str ''tok'')) self nonce = fetch_auth nk ?only (Inr (str ''tok'')) self nonce"
    using fetch_auth_secure [OF cfg url self, of nk "\<lambda>_. Inr answer" "str ''tok''" nonce "\<lambda>_. Inl []"] by simp
  moreover have "fetch_auth nk (\<lambda>req. if jr_url req = str ''https://a'' then Inr answer else Inl []) (Inr (str ''tok'')) self nonce =
      fetch_auth nk ?only (Inr (str ''tok'')) self nonce"
    using fetch_auth_secure [OF cfg url self, of nk "\<lambda>req. if jr_url req = str ''https://a'' then Inr answer else Inl []" "str ''tok''" nonce "\<lambda>_. Inl []"]
    by (simp cong: if_cong)
  ultimately show "\<exists>self. external_auth_new (Inr ()) (Inr (str ''SU'')) (str ''UK'') (str ''https://a'') = Inr self \<and>
     fetch_auth nk (\<lambda>_. Inr answer) (Inr (str ''tok'')) self nonce =
     fetch_auth nk (\<lambda>req. if jr_url req = str ''https://a'' then Inr answer else Inl []) (Inr (str ''tok'')) self nonce"
    using self by (intro exI [of _ self]) simp
qed

text \<open>
  The configuration check accepts exactly: no service at all, or a service with an AAD identity, a scope and an
  https URL; otherwise it reports the first of these that is missing.
\<close>

theorem validate_auth_service_config_spec:
  "validate_auth_service_config c =
     (case cfg_auth_service_url c of
        None \<Rightarrow> Inr ()
      | Some url \<Rightarrow>
          (case filter (\<lambda>(ok, _). \<not> ok)
                 [(has_aad_identity c, needs_aad), (cfg_auth_service_scope c \<noteq> None, needs_scope),
                  (\<exists>rest. url = str ''https://'' @ rest, needs_https)] of
             [] \<Rightarrow> Inr ()
           | (_, e) # _ \<Rightarrow> Inl e))"
proof -
  have "starts_with url p \<longleftrightarrow> (\<exists>rest. url = p @ rest)" for url p :: rstring
    by (metis append_take_drop_id append_eq_conv_conj starts_with_def)
  then show ?thesis by (auto simp: validate_auth_service_config_def split: option.split)
qed

subsection \<open>Reconnecting\<close>

text \<open>
  What the token endpoint answers an attempt made with refresh token \<open>rt\<close>, the token held after it, and the
  result of that attempt alone.
\<close>

definition token_answer :: "aad_token_provider \<Rightarrow> connect_attempt \<Rightarrow> rstring \<Rightarrow> rstring + refresh_token_response" where
  "token_answer p a rt = at_post a (authority_base p @ str ''/'' @ aad_tenant p @ str ''/oauth2/v2.0/token'')
     [(str ''grant_type'', str ''refresh_token''), (str ''client_id'', aad_client_id p),
      (str ''refresh_token'', rt), (str ''scope'', aad_scope p)]"

definition rotate :: "aad_token_provider \<Rightarrow> rstring \<Rightarrow> connect_attempt \<Rightarrow> rstring" where
  "rotate p rt a = (case token_answer p a rt of
     Inl e \<Rightarrow> rt
   | Inr r \<Rightarrow> (case rt_refresh_token r of Some fresh \<Rightarrow> fresh | None \<Rightarrow> rt))"

definition attempt_result :: "nkeys \<Rightarrow> aad_token_provider \<Rightarrow> external_auth \<Rightarrow> connect_attempt \<Rightarrow> rstring \<Rightarrow> rstring + nats_auth" where
  "attempt_result nk p self a rt =
     fetch_auth nk (at_http a) (map_sum id rt_access_token (token_answer p a rt)) self (at_nonce a)"

lemma auth_callback_Some:
  "auth_callback nk (at_http a) (at_post a) p self (at_nonce a) (Some rt) =
     (attempt_result nk p self a rt, Some (rotate p rt a))"
proof -
  have url: "(x @ str ''/oauth2/v2.0'') @ str ''/token'' = x @ str ''/oauth2/v2.0/token''" for x by (simp add: str_def)
  show ?thesis
    by (auto simp: auth_callback_def access_token_def attempt_result_def token_answer_def rotate_def Let_def
        url [simplified] split: sum.splits option.splits)
qed

lemma reconnects_Some:
  "reconnects nk p self as (Some rt) =
     (map (\<lambda>k. attempt_result nk p self (as ! k) (foldl (rotate p) rt (take k as))) [0..<length as],
      Some (foldl (rotate p) rt as))"
proof (induction as arbitrary: rt)
  case (Cons a as)
  have "map f [0..<Suc n] = f 0 # map (f \<circ> Suc) [0..<n]" for f :: "nat \<Rightarrow> rstring + nats_auth" and n
    by (simp add: upt_conv_Cons map_Suc_upt [symmetric] del: upt_Suc)
  with Cons show ?case by (simp add: auth_callback_Some o_def del: upt_Suc)
qed simp

lemma reconnects_None:
  "reconnects nk p self as None = (map (\<lambda>_. Inl no_refresh_token) as, None)"
  by (induction as) (auto simp: auth_callback_def access_token_def fetch_auth_def)

text \<open>
  Property C32. The session survives every reconnect: once sign-in has left a refresh token, the \<open>k\<close>-th attempt presents the token
  most recently handed out by the endpoint (the sign-in's, if none was rotated since), its result depends on this attempt's
  own answers only, and whatever fails on the way (the token endpoint, the auth service, the signing) the cell is never
  emptied. Without a refresh token every attempt fails with the same error, and no request is made.
\<close>

theorem reconnects_keep_session:
  "reconnects nk p self as cell =
     (case cell of
        None \<Rightarrow> (replicate (length as) (Inl no_refresh_token), None)
      | Some rt \<Rightarrow>
          (map (\<lambda>k. attempt_result nk p self (as ! k) (foldl (rotate p) rt (take k as))) [0..<length as],
           Some (foldl (rotate p) rt as)))"
  by (auto simp: reconnects_None reconnects_Some map_replicate_const split: option.split)

end
