(* ===== verification/Image_Cache.thy ===== *)
theory Image_Cache
  imports Action_Url
begin

section \<open>The image cache (\<^verbatim>\<open>image_cache.rs\<close>)\<close>

text \<open>
  The cache directory is a map from file names to files; a path is its name in that directory. HTTP, the
  file system's answers, SHA-256 and the URL parser are parameters. A timeout drops the future at one of
  its await points: \<open>download\<close> therefore returns, with its result, the states the
  directory goes through, and a timed-out \<open>fetch\<close> ends in any one of them.
\<close>

record image_cache_options =
  require_https :: bool
  max_bytes :: nat
  timeout :: duration
  max_files :: nat

definition image_cache_options_default :: image_cache_options where
  "image_cache_options_default = \<lparr>require_https = True, max_bytes = 3 * 1024 * 1024,
     timeout = from_secs 3, max_files = 50\<rparr>"

record cache_file =
  mtime :: datetime
  body :: "u8 list"

record image_cache =
  files :: "(rstring, cache_file) hashmap"
  tmp_counter :: u64

text \<open>
  The handle that \<^verbatim>\<open>ImageCache::new\<close> and \<^verbatim>\<open>with_options\<close> give, with the redirect policy of its HTTP client. \<open>built\<close> says whether the client could be built; the code
  expects so.
\<close>

record cache_handle =
  ic_dir :: rstring
  ic_options :: image_cache_options
  follows_redirects :: bool

definition with_options :: "bool \<Rightarrow> rstring \<Rightarrow> image_cache_options \<Rightarrow> cache_handle option" where
  "with_options built dir options =
     (if built then Some \<lparr>ic_dir = dir, ic_options = options, follows_redirects = False\<rparr> else None)"

definition image_cache_new :: "bool \<Rightarrow> rstring \<Rightarrow> cache_handle option" where
  "image_cache_new built dir = with_options built dir image_cache_options_default"

definition parse_image_url :: "url_parser \<Rightarrow> rstring \<Rightarrow> bool \<Rightarrow> url option" where
  "parse_image_url url_parse value https =
     (case url_parse value of
        None \<Rightarrow> None
      | Some u \<Rightarrow>
          if https \<and> url_scheme u \<noteq> str ''https'' \<or> url_host_str u = None \<or>
             url_username u \<noteq> [] \<or> url_password u \<noteq> None
          then None else Some u)"

definition safe_url_host :: "url_parser \<Rightarrow> rstring \<Rightarrow> rstring" where
  "safe_url_host url_parse value =
     (case Option.bind (url_parse value) url_host_str of None \<Rightarrow> str ''invalid'' | Some h \<Rightarrow> h)"

text \<open>\<open>digest\<close> is SHA-256; \<^verbatim>\<open>{:x}\<close> prints its bytes in lower-case hexadecimal.\<close>

definition hex_sha256 :: "(u8 list \<Rightarrow> u8 list) \<Rightarrow> rstring \<Rightarrow> rstring" where
  "hex_sha256 digest input = concat (map hex2_lower (digest (utf8_bytes input)))"

subsection \<open>Downloading\<close>

record http_response =
  content_type :: "rstring option"
  chunks :: "(rstring + u8 list) list"

record fs_answers =
  exists_error :: "rstring option"
  create_error :: "rstring option"
  write_error :: "rstring option"
  written :: nat
  rename_error :: "rstring option"
  now_mtime :: datetime
  process_id :: nat

fun download_body :: "nat \<Rightarrow> u8 list \<Rightarrow> (rstring + u8 list) list \<Rightarrow> rstring + u8 list" where
  "download_body limit acc [] = Inr acc"
| "download_body limit acc (Inl e # cs) = Inl e"
| "download_body limit acc (Inr chunk # cs) =
     (if length acc + length chunk \<le> limit then download_body limit (acc @ chunk) cs
      else Inl (str ''image exceeds '' @ dec_str limit @ str '' bytes''))"

definition tmp_name :: "rstring \<Rightarrow> nat \<Rightarrow> u64 \<Rightarrow> rstring" where
  "tmp_name path pid counter = path @ str ''.part-'' @ dec_str pid @ str ''-'' @ dec_str (unat counter)"

definition download ::
  "image_cache_options \<Rightarrow> (rstring + http_response) \<Rightarrow> fs_answers \<Rightarrow> rstring \<Rightarrow> image_cache \<Rightarrow>
     (rstring + unit) \<times> image_cache list" where
  "download opts answer fs path c =
     (case answer of
        Inl e \<Rightarrow> (Inl e, [c])
      | Inr resp \<Rightarrow>
          let ct = (case content_type resp of None \<Rightarrow> [] | Some v \<Rightarrow> v) in
          if \<not> starts_with ct (str ''image/'') then (Inl (str ''not an image: '' @ ct), [c])
          else case download_body (max_bytes opts) [] (chunks resp) of
            Inl e \<Rightarrow> (Inl e, [c])
          | Inr data \<Rightarrow>
              (case create_error fs of
                 Some e \<Rightarrow> (Inl e, [c])
               | None \<Rightarrow>
                   let tmp = tmp_name path (process_id fs) (tmp_counter c);
                       c1 = c\<lparr>tmp_counter := tmp_counter c + 1\<rparr>;
                       part = c1\<lparr>files := hm_insert tmp \<lparr>mtime = now_mtime fs, body = take (written fs) data\<rparr> (files c1)\<rparr>
                   in case write_error fs of
                     Some e \<Rightarrow> (Inl e, [c, c1, part])
                   | None \<Rightarrow>
                       let file = \<lparr>mtime = now_mtime fs, body = data\<rparr>;
                           c2 = c1\<lparr>files := hm_insert tmp file (files c1)\<rparr>
                       in case rename_error fs of
                         Some e \<Rightarrow> (Inl e, [c, c1, part, c2])
                       | None \<Rightarrow>
                           let c3 = c2\<lparr>files := hm_insert path file (hm_remove tmp (files c2))\<rparr>
                           in (Inr (), [c, c1, part, c2, c3])))"

subsection \<open>Eviction\<close>

text \<open>
  An entry of the directory listing: its name and, if its metadata can be read, whether it is a file
  and its modification time. Times count from the epoch.
\<close>

type_synonym dir_entry = "rstring \<times> (bool \<times> datetime option) option"

definition listed_files :: "dir_entry list \<Rightarrow> (datetime \<times> rstring) list" where
  "listed_files entries = List.map_filter (\<lambda>(name, meta).
     case meta of
       None \<Rightarrow> None
     | Some (is_file, modified) \<Rightarrow>
         if is_file then Some (case modified of None \<Rightarrow> 0 | Some t \<Rightarrow> t, name) else None) entries"

definition evict_victims :: "nat \<Rightarrow> dir_entry list \<Rightarrow> rstring list" where
  "evict_victims limit entries =
     (let fs = listed_files entries in
      if length fs \<le> limit then []
      else map snd (take (length fs - limit) (sort_by_key fst fs)))"

definition evict_beyond_cap :: "nat \<Rightarrow> dir_entry list option \<Rightarrow> (rstring \<Rightarrow> bool) \<Rightarrow> image_cache \<Rightarrow> image_cache" where
  "evict_beyond_cap limit listing removable c =
     (case listing of
        None \<Rightarrow> c
      | Some entries \<Rightarrow>
          c\<lparr>files := fold (\<lambda>p fs. if removable p then hm_remove p fs else fs) (evict_victims limit entries) (files c)\<rparr>)"

subsection \<open>Fetching\<close>

text \<open>
  The async block under the timeout. \<open>list_dir\<close> is the listing the eviction gets to see.
\<close>

definition fetch_work ::
  "image_cache_options \<Rightarrow> (rstring + http_response) \<Rightarrow> fs_answers \<Rightarrow> (image_cache \<Rightarrow> dir_entry list option) \<Rightarrow>
     (rstring \<Rightarrow> bool) \<Rightarrow> rstring \<Rightarrow> image_cache \<Rightarrow> (rstring + rstring) \<times> image_cache list" where
  "fetch_work opts answer fs list_dir removable path c =
     (case exists_error fs of
        Some e \<Rightarrow> (Inl e, [c])
      | None \<Rightarrow>
          if hm_get (files c) path \<noteq> None then (Inr path, [c])
          else (case download opts answer fs path c of
              (Inl e, states) \<Rightarrow> (Inl e, states)
            | (Inr _, states) \<Rightarrow>
                (Inr path, states @ [evict_beyond_cap (max_files opts) (list_dir (last states)) removable (last states)])))"

text \<open>
  \<open>dropped_at\<close> is \<open>None\<close> when the work ends within the timeout, and otherwise says at which
  await point the future is dropped.
\<close>

definition fetch ::
  "url_parser \<Rightarrow> (u8 list \<Rightarrow> u8 list) \<Rightarrow> image_cache_options \<Rightarrow> (rstring \<Rightarrow> rstring + http_response) \<Rightarrow> fs_answers \<Rightarrow>
     (image_cache \<Rightarrow> dir_entry list option) \<Rightarrow> (rstring \<Rightarrow> bool) \<Rightarrow> nat option \<Rightarrow> rstring \<Rightarrow> image_cache \<Rightarrow>
     rstring option \<times> image_cache" where
  "fetch url_parse digest opts http fs list_dir removable dropped_at value c =
     (case parse_image_url url_parse value (require_https opts) of
        None \<Rightarrow> (None, c)
      | Some u \<Rightarrow>
          let path = hex_sha256 digest (url_as_str u);
              (result, states) = fetch_work opts (http (url_as_str u)) fs list_dir removable path c
          in case dropped_at of
               None \<Rightarrow> ((case result of Inl e \<Rightarrow> None | Inr p \<Rightarrow> Some p), last states)
             | Some k \<Rightarrow> (None, states ! (k mod length states)))"

subsection \<open>Properties\<close>

lemma download_body_Inr:
  "download_body limit acc cs = Inr data \<longleftrightarrow>
     list_all (\<lambda>r. \<exists>b. r = Inr b) cs \<and> data = acc @ concat (map projr cs) \<and>
     (cs \<noteq> [] \<longrightarrow> length data \<le> limit)"
proof (induction limit acc cs rule: download_body.induct)
  case (3 limit acc chunk cs)
  show ?case
  proof (cases "length acc + length chunk \<le> limit")
    case True
    then show ?thesis using 3 by (cases "cs = []") auto
  next
    case False
    then show ?thesis by auto
  qed
qed auto

lemma download_body_le: "download_body limit acc cs = Inr data \<Longrightarrow> length acc \<le> limit \<Longrightarrow> length data \<le> limit"
  by (cases "cs = []") (auto simp: download_body_Inr)

text \<open>
  The size cap: a download succeeds exactly when every chunk arrived and the whole body is within the limit
  (an empty body always is), and then yields all bytes in order.
\<close>

theorem download_body_capped:
  "download_body limit [] cs = Inr data \<longleftrightarrow>
     list_all (\<lambda>r. \<exists>b. r = Inr b) cs \<and> data = concat (map projr cs) \<and> length data \<le> limit"
  by (cases "cs = []") (auto simp: download_body_Inr)

text \<open>Names: a digest in hexadecimal has no dot, a temporary name has one.\<close>

lemma hex_sha256_no_dot: "46 \<notin> set (hex_sha256 digest s)"
proof -
  have "46 \<notin> set (hex2_lower b)" for b
    by (auto simp: hex2_lower_def hex_digit_def split: if_splits)
  then show ?thesis by (simp add: hex_sha256_def)
qed

lemma tmp_name_dot: "46 \<in> set (tmp_name path pid k)"
  by (simp add: tmp_name_def str_def)

text \<open>Every file under a final name is a complete download within the cap.\<close>

definition files_ok :: "(rstring \<Rightarrow> u8 list \<Rightarrow> bool) \<Rightarrow> nat \<Rightarrow> (rstring, cache_file) hashmap \<Rightarrow> bool" where
  "files_ok genuine limit m \<longleftrightarrow> hm_ok m \<and>
     (\<forall>name f. hm_get m name = Some f \<longrightarrow> 46 \<notin> set name \<longrightarrow> genuine name (body f) \<and> length (body f) \<le> limit)"

abbreviation cache_ok :: "(rstring \<Rightarrow> u8 list \<Rightarrow> bool) \<Rightarrow> nat \<Rightarrow> image_cache \<Rightarrow> bool" where
  "cache_ok genuine limit c \<equiv> files_ok genuine limit (files c)"

definition genuine_body :: "(rstring + http_response) \<Rightarrow> u8 list \<Rightarrow> bool" where
  "genuine_body answer data \<longleftrightarrow> (\<exists>r t. answer = Inr r \<and> content_type r = Some t \<and> starts_with t (str ''image/'') \<and>
     list_all (\<lambda>x. \<exists>b. x = Inr b) (chunks r) \<and> data = concat (map projr (chunks r)))"

lemma files_ok_tmp: "files_ok G l m \<Longrightarrow> 46 \<in> set tmp \<Longrightarrow> files_ok G l (hm_insert tmp f m)"
  by (auto simp: files_ok_def hm.ok_insert hm.get_insert split: if_splits)

lemma files_ok_remove: "files_ok G l m \<Longrightarrow> files_ok G l (hm_remove p m)"
  by (auto simp: files_ok_def hm.ok_remove hm.get_remove split: if_splits)

lemma files_ok_final:
  "files_ok G l m \<Longrightarrow> G path (body f) \<Longrightarrow> length (body f) \<le> l \<Longrightarrow> files_ok G l (hm_insert path f m)"
  by (auto simp: files_ok_def hm.ok_insert hm.get_insert split: if_splits)

lemma files_ok_evict:
  assumes "cache_ok G l c"
  shows "cache_ok G l (evict_beyond_cap limit listing removable c)"
proof -
  have "files_ok G l (fold (\<lambda>p fs. if removable p then hm_remove p fs else fs) ps m)" if "files_ok G l m" for ps m
    using that by (induction ps arbitrary: m) (auto intro: files_ok_remove)
  with assms show ?thesis by (auto simp: evict_beyond_cap_def split: option.split)
qed

lemma download_states:
  assumes "cache_ok G (max_bytes opts) c" and "download opts answer fs path c = (r, states)"
    and "\<And>data. genuine_body answer data \<Longrightarrow> G path data"
  shows "list_all (cache_ok G (max_bytes opts)) states \<and> states \<noteq> []"
proof -
  let ?tmp = "tmp_name path (process_id fs) (tmp_counter c)"
  have final: "G path data \<and> length data \<le> max_bytes opts"
    if "answer = Inr resp" "starts_with (case content_type resp of None \<Rightarrow> [] | Some v \<Rightarrow> v) (str ''image/'')"
      "download_body (max_bytes opts) [] (chunks resp) = Inr data" for resp data
  proof
    have "content_type resp \<noteq> None" using that(2) by (cases "content_type resp") (auto simp: starts_with_def str_def)
    with that have "genuine_body answer data" by (auto simp: genuine_body_def download_body_Inr)
    then show "G path data" by (rule assms(3))
    show "length data \<le> max_bytes opts" using download_body_le [OF that(3)] by simp
  qed
  have tmp: "files_ok G (max_bytes opts) (hm_insert ?tmp f m)" if "files_ok G (max_bytes opts) m" for m f
    using that tmp_name_dot by (rule files_ok_tmp)
  have fin: "files_ok G (max_bytes opts) (hm_insert path f m)"
    if "files_ok G (max_bytes opts) m" "G path (body f) \<and> length (body f) \<le> max_bytes opts" for m f
    using that by (auto intro: files_ok_final)
  show ?thesis
    using assms(1,2) final
    by (auto simp: download_def Let_def split: sum.splits option.splits if_splits
        intro!: tmp fin files_ok_remove)
qed

lemma some_state: "list_all P xs \<Longrightarrow> xs \<noteq> [] \<Longrightarrow> P (xs ! (k mod length xs)) \<and> P (last xs)"
  by (simp add: list_all_iff)

lemma fetch_work_states:
  assumes ok: "cache_ok G (max_bytes opts) c" and "\<And>data. genuine_body answer data \<Longrightarrow> G path data"
    and work: "fetch_work opts answer fs list_dir removable path c = (r, states)"
  shows "list_all (cache_ok G (max_bytes opts)) states \<and> states \<noteq> [] \<and> (\<forall>p. r = Inr p \<longrightarrow> p = path)"
proof -
  obtain r0 ss where d: "download opts answer fs path c = (r0, ss)" by fastforce
  have ss: "list_all (cache_ok G (max_bytes opts)) ss" "ss \<noteq> []"
    using download_states [OF ok d] assms(2) by auto
  then have "cache_ok G (max_bytes opts) (last ss)" by (simp add: list_all_iff)
  with ok work d ss show ?thesis
    by (auto simp: fetch_work_def intro: files_ok_evict split: option.splits if_splits sum.splits)
qed

lemma fetch_states:
  assumes ok: "cache_ok G (max_bytes opts) c"
    and genuine: "\<And>url data. genuine_body (http url) data \<Longrightarrow> G (hex_sha256 digest url) data"
    and "fetch url_parse digest opts http fs list_dir removable dropped_at value c = (result, c')"
  shows "cache_ok G (max_bytes opts) c' \<and>
    (\<forall>path. result = Some path \<longrightarrow> (\<exists>u. parse_image_url url_parse value (require_https opts) = Some u \<and>
      path = hex_sha256 digest (url_as_str u)))"
proof (cases "parse_image_url url_parse value (require_https opts)")
  case None
  with assms show ?thesis by (simp add: fetch_def)
next
  case (Some u)
  let ?path = "hex_sha256 digest (url_as_str u)"
  obtain r states where w: "fetch_work opts (http (url_as_str u)) fs list_dir removable ?path c = (r, states)"
    by fastforce
  note ss = fetch_work_states [OF ok genuine w]
  with some_state [of "cache_ok G (max_bytes opts)" states] assms(3) Some w show ?thesis
    by (auto simp: fetch_def split: option.splits sum.splits)
qed

text \<open>
  Property C28. The cache stays sound through every outcome (refused URL, HTTP or file-system error, oversized or interrupted
  download, timeout at any await point, eviction): whatever is stored under a final name is a
  complete image response within the size cap. A path is returned only for a URL with a host, without
  credentials and, if required, https, and it is the digest of the normalized URL.
\<close>

theorem fetch_sound:
  assumes "cache_ok G (max_bytes opts) c"
    and "\<And>url data. genuine_body (http url) data \<Longrightarrow> G (hex_sha256 digest url) data"
    and "fetch url_parse digest opts http fs list_dir removable dropped_at value c = (result, c')"
  shows "cache_ok G (max_bytes opts) c' \<and>
    (case result of None \<Rightarrow> True | Some path \<Rightarrow>
      (\<exists>u. url_parse value = Some u \<and> (require_https opts \<longrightarrow> url_scheme u = str ''https'') \<and>
         url_host_str u \<noteq> None \<and> url_username u = [] \<and> url_password u = None \<and>
         path = hex_sha256 digest (url_as_str u)))"
  using fetch_states [OF assms]
  by (auto simp: parse_image_url_def split: option.splits if_splits)

definition png :: "rstring + http_response" where
  "png = Inr \<lparr>content_type = Some (str ''image/png''), chunks = [Inr [1, 2], Inr [3]]\<rparr>"

definition fine :: fs_answers where
  "fine = \<lparr>exists_error = None, create_error = None, write_error = None, written = 0, rename_error = None,
     now_mtime = 5, process_id = 1\<rparr>"

theorem fetch_sound_witness:
  "\<exists>c. fetch example_url_parse (\<lambda>_. [10]) image_cache_options_default (\<lambda>_. png) fine (\<lambda>_. None) (\<lambda>_. True) None
       (str ''https://h'') \<lparr>files = [], tmp_counter = 0\<rparr> = (Some (str ''0a''), c) \<and>
     cache_ok (\<lambda>_. genuine_body png) (max_bytes image_cache_options_default) c"
proof -
  let ?c0 = "\<lparr>files = [], tmp_counter = 0\<rparr>"
  let ?f = "fetch example_url_parse (\<lambda>_. [10]) image_cache_options_default (\<lambda>_. png) fine (\<lambda>_. None) (\<lambda>_. True) None
    (str ''https://h'') ?c0"
  have "fst ?f = Some (str ''0a'')" by code_simp
  then obtain c where f: "?f = (Some (str ''0a''), c)" by (metis prod.collapse)
  have "cache_ok (\<lambda>_. genuine_body png) (max_bytes image_cache_options_default) ?c0"
    by (simp add: files_ok_def hm_ok_def hm_get_def)
  from fetch_sound [OF this _ f] f show ?thesis by blast
qed

subsection \<open>Eviction keeps the newest\<close>

lemma fold_remove:
  assumes "hm_ok m"
  shows "hm_ok (fold (\<lambda>p fs. if removable p then hm_remove p fs else fs) ps m) \<and>
    hm_get (fold (\<lambda>p fs. if removable p then hm_remove p fs else fs) ps m) =
      (\<lambda>n. if n \<in> set ps \<and> removable n then None else hm_get m n)"
  using assms by (induction ps arbitrary: m) (auto simp: hm.ok_remove hm.get_remove fun_eq_iff)

lemma victims_older:
  assumes "(tv, v) \<in> set (take d (sort_by_key fst fs))" and "(tk, k) \<in> set (drop d (sort_by_key fst fs))"
  shows "tv \<le> (tk :: 'a::linorder)"
proof -
  have "sorted (map fst (take d (sort_by_key fst fs)) @ map fst (drop d (sort_by_key fst fs)))"
    using sorted_sort_by_key [of fst fs] by (simp flip: map_append)
  with assms show ?thesis by (force simp: sorted_append)
qed

lemma evict_victims_take:
  "evict_victims limit entries =
     map snd (take (length (listed_files entries) - limit) (sort_by_key fst (listed_files entries)))"
  by (auto simp: evict_victims_def Let_def)

lemma evict_get:
  assumes "hm_ok (files c)"
  shows "hm_ok (files (evict_beyond_cap limit (Some entries) removable c)) \<and>
    hm_get (files (evict_beyond_cap limit (Some entries) removable c)) =
      (\<lambda>n. if n \<in> set (evict_victims limit entries) \<and> removable n then None else hm_get (files c) n)"
  using fold_remove [OF assms] by (simp add: evict_beyond_cap_def)

lemma evict_count:
  assumes "hm_ok (files c)" and "distinct (map snd (listed_files entries))"
    and "set (map snd (listed_files entries)) \<subseteq> dom (hm_get (files c))"
  shows "hm_len (files (evict_beyond_cap limit (Some entries) removable c)) + (length (listed_files entries) - limit) =
    hm_len (files c) + card {n \<in> set (evict_victims limit entries). \<not> removable n}"
proof -
  let ?vs = "set (evict_victims limit entries)" and ?c' = "evict_beyond_cap limit (Some entries) removable c"
  let ?gone = "{n \<in> ?vs. removable n}" and ?stuck = "{n \<in> ?vs. \<not> removable n}"
  note get = evict_get [OF assms(1), of limit entries removable]
  let ?sorted = "map snd (sort_by_key fst (listed_files entries))"
  have same: "mset ?sorted = mset (map snd (listed_files entries))" by simp
  have names: "set ?sorted = set (map snd (listed_files entries))" "distinct ?sorted"
    using mset_eq_setD [OF same] mset_eq_imp_distinct_iff [OF same] assms(2) by (simp_all only:)
  have victims: "evict_victims limit entries = take (length (listed_files entries) - limit) ?sorted"
    by (simp add: evict_victims_take take_map)
  have vs: "?vs \<subseteq> dom (hm_get (files c))"
    using assms(3) names(1) set_take_subset unfolding victims by fast
  have size: "card ?vs = length (listed_files entries) - limit"
    unfolding victims by (subst distinct_card) (simp_all add: names(2))
  have "card (?gone \<union> ?stuck) = card ?gone + card ?stuck" by (rule card_Un_disjoint) auto
  moreover have "?gone \<union> ?stuck = ?vs" by blast
  ultimately have parts: "card ?vs = card ?gone + card ?stuck" by simp
  have fin: "finite (dom (hm_get (files c)))" using hm.finite_dom [OF assms(1)] .
  have "dom (hm_get (files ?c')) = dom (hm_get (files c)) - ?gone" using get by (auto split: if_splits)
  moreover have "?gone \<subseteq> dom (hm_get (files c))" using vs by blast
  ultimately have "card (dom (hm_get (files ?c'))) = card (dom (hm_get (files c))) - card ?gone"
    and "card ?gone \<le> card (dom (hm_get (files c)))"
    using card_Diff_subset [of ?gone] card_mono [OF fin, of ?gone] by simp_all
  moreover have "hm_len (files ?c') = card (dom (hm_get (files ?c')))" "hm_len (files c) = card (dom (hm_get (files c)))"
    by (fact hm.len_card [OF conjunct1 [OF get]], fact hm.len_card [OF assms(1)])
  ultimately show ?thesis using size parts by linarith
qed

text \<open>
  Property C29. Eviction, for a listing that shows names of files of the directory, each once, with whatever times it shows, and possibly not all of them: as many files
  go as were listed beyond the limit, less those whose removal fails. So the directory is cut down to the limit exactly when every
  file is listed and every removal succeeds, and a failed removal leaves it above the limit. What stays is unchanged, a file that was not listed stays, and a file that
  goes was not listed with a later time than one that was listed and stays, unless the removal of that one failed.
\<close>

theorem evict_keeps_newest:
  assumes "hm_ok (files c)" and "distinct (map snd (listed_files entries))"
    and "set (map snd (listed_files entries)) \<subseteq> dom (hm_get (files c))"
  shows "let c' = evict_beyond_cap limit (Some entries) removable c in
    hm_len (files c') + (length (listed_files entries) - limit) =
      hm_len (files c) + card {n \<in> set (evict_victims limit entries). \<not> removable n} \<and>
    (\<forall>n. hm_get (files c') n = hm_get (files c) n \<or>
       hm_get (files c') n = None \<and> removable n \<and> n \<in> set (map snd (listed_files entries))) \<and>
    (\<forall>t n t' n'. (t, n) \<in> set (listed_files entries) \<longrightarrow> (t', n') \<in> set (listed_files entries) \<longrightarrow>
       hm_get (files c') n \<noteq> None \<longrightarrow> removable n \<longrightarrow> hm_get (files c') n' = None \<longrightarrow> t' \<le> t)"
proof -
  let ?fs = "listed_files entries" and ?d = "length (listed_files entries) - limit"
  let ?sorted = "sort_by_key fst (listed_files entries)"
  define c' where "c' = evict_beyond_cap limit (Some entries) removable c"
  have get: "hm_get (files c') = (\<lambda>n. if n \<in> set (evict_victims limit entries) \<and> removable n then None else hm_get (files c) n)"
    using evict_get [OF assms(1)] by (simp add: c'_def)
  have listed: "set (evict_victims limit entries) \<subseteq> set (map snd ?fs)"
    unfolding evict_victims_take using set_take_subset [of ?d ?sorted] by auto
  have "t' \<le> t"
    if t: "(t, n) \<in> set ?fs" "(t', n') \<in> set ?fs" "hm_get (files c') n \<noteq> None" "removable n" "hm_get (files c') n' = None" for t n t' n'
  proof -
    have "hm_get (files c) n' \<noteq> None" using assms(3) t(2) by force
    with t(3-5) have n: "n \<notin> set (evict_victims limit entries)" and n': "n' \<in> set (evict_victims limit entries)"
      unfolding get by (auto split: if_splits)
    have "(t, n) \<in> set (take ?d ?sorted) \<union> set (drop ?d ?sorted)"
      using t(1) by (metis append_take_drop_id set_append set_sort_by_key)
    with n have kept: "(t, n) \<in> set (drop ?d ?sorted)" unfolding evict_victims_take by force
    from n' obtain t'' where gone: "(t'', n') \<in> set (take ?d ?sorted)" unfolding evict_victims_take by auto
    then have "(t'', n') \<in> set ?fs" by (metis in_set_takeD set_sort_by_key)
    moreover have "inj_on snd (set ?fs)" using assms(2) by (simp add: distinct_map)
    ultimately have "t'' = t'" using t(2) inj_onD [of snd "set ?fs" "(t'', n')" "(t', n')"] by simp
    with victims_older [OF gone kept] show ?thesis by simp
  qed
  then show ?thesis
    using evict_count [OF assms, of limit removable] get listed by (auto simp: c'_def [symmetric] Let_def)
qed

theorem evict_keeps_newest_witness:
  "hm_len (files (evict_beyond_cap 1 (Some [(str ''a'', Some (True, Some 5)), (str ''b'', Some (True, Some 9))]) (\<lambda>_. True)
      \<lparr>files = [(str ''b'', \<lparr>mtime = 9, body = []\<rparr>), (str ''a'', \<lparr>mtime = 5, body = []\<rparr>)], tmp_counter = 0\<rparr>)) = 1"
proof -
  let ?c = "\<lparr>files = [(str ''b'', \<lparr>mtime = 9, body = []\<rparr>), (str ''a'', \<lparr>mtime = 5, body = []\<rparr>)], tmp_counter = 0\<rparr>"
  let ?es = "[(str ''a'', Some (True, Some 5)), (str ''b'', Some (True, Some 9))]"
  have fs: "listed_files ?es = [(5, str ''a''), (9, str ''b'')]" by (simp add: listed_files_def List.map_filter_def)
  then have "hm_ok (files ?c)" "distinct (map snd (listed_files ?es))"
    "set (map snd (listed_files ?es)) \<subseteq> dom (hm_get (files ?c))"
    by (auto simp: hm_ok_def hm_get_def str_def)
  from evict_keeps_newest [OF this, of 1 "\<lambda>_. True"] fs show ?thesis by (simp add: Let_def hm_len_def)
qed

end
