(* ===== verification/Toast_Xml.thy ===== *)
theory Toast_Xml
  imports Toast Action_Url
begin

section \<open>Toast XML (\<^verbatim>\<open>toast_xml.rs\<close>)\<close>

text \<open>
  The document a toast is turned into. A small reader, which splits a document into tags and text and
  resolves the five predefined entities, is the reference: reading the built document
  yields the toast's own texts, in the places meant for them.
\<close>

definition xml_escape :: "rstring \<Rightarrow> rstring" where
  "xml_escape s =
     replace_char (of_char CHR 0x27) (str ''&apos;'')
       (replace_char (of_char CHR 0x22) (str ''&quot;'')
         (replace_char (of_char CHR ''>'') (str ''&gt;'')
           (replace_char (of_char CHR ''<'') (str ''&lt;'')
             (replace_char (of_char CHR ''&'') (str ''&amp;'') s))))"

text \<open>A path is its display string. \<^verbatim>\<open>b as char\<close> is the scalar value with the byte's number.\<close>

definition uri_plain :: "u8 \<Rightarrow> bool" where
  "uri_plain b \<longleftrightarrow> 65 \<le> b \<and> b \<le> 90 \<or> 97 \<le> b \<and> b \<le> 122 \<or> 48 \<le> b \<and> b \<le> 57 \<or>
     b = 45 \<or> b = 46 \<or> b = 95 \<or> b = 126 \<or> b = 47 \<or> b = 58"

definition encode_byte :: "u8 \<Rightarrow> rstring" where
  "encode_byte b = (if uri_plain b then [unat b] else 37 # hex2_upper b)"

definition strip_slash :: "rstring \<Rightarrow> rstring" where
  "strip_slash p = (case p of [] \<Rightarrow> p | c # rest \<Rightarrow> if c = 47 then rest else p)"

definition file_uri :: "rstring \<Rightarrow> rstring" where
  "file_uri path =
     (let p = replace_char 92 [47] path;
          p = strip_slash p;
          encoded = concat (map encode_byte (utf8_bytes p))
      in str ''file:///'' @ encoded)"

text \<open>The quotation mark, written as its code so that the templates below stay readable.\<close>

abbreviation quot :: rchar where
  "quot \<equiv> 34"

definition attr :: "rstring \<Rightarrow> rstring \<Rightarrow> rstring" where
  "attr name v = name @ str ''='' @ [quot] @ v @ [quot]"

definition build_toast_xml :: "url_parser \<Rightarrow> toast_request \<Rightarrow> rstring option \<Rightarrow> rstring" where
  "build_toast_xml url_parse toast image_path =
     (let img = (case (image_path, t_image toast) of
            (Some path, Some image_ref) \<Rightarrow>
              let crop = (case img_shape image_ref of
                    Circle \<Rightarrow> attr (str '' hint-crop'') (str ''circle'')
                  | Square \<Rightarrow> [])
              in attr (str ''<image placement'') (str ''appLogoOverride'') @ crop @
                 attr (str '' src'') (xml_escape (file_uri path)) @ str ''/>''
          | _ \<Rightarrow> []);
          attribution = (case attribution toast of
            None \<Rightarrow> []
          | Some a \<Rightarrow> attr (str ''<text placement'') (str ''attribution'') @ str ''>'' @ xml_escape a @ str ''</text>'');
          actions = (case (t_action_label toast, t_action_url toast) of
            (Some label, Some url) \<Rightarrow>
              (case validate url_parse url of
                 Some valid \<Rightarrow> str ''<actions>'' @ attr (str ''<action content'') (xml_escape label) @
                   attr (str '' arguments'') (xml_escape (url_as_str valid)) @
                   attr (str '' activationType'') (str ''protocol'') @ str ''/></actions>''
               | None \<Rightarrow> [])
          | _ \<Rightarrow> [])
      in str ''<toast><visual>'' @ attr (str ''<binding template'') (str ''ToastGeneric'') @ str ''>'' @ img @
         str ''<text>'' @ xml_escape (t_title toast) @ str ''</text><text>'' @ xml_escape (t_message toast) @
         str ''</text>'' @ attribution @ str ''</binding></visual>'' @ actions @ str ''</toast>'')"

subsection \<open>Escaping\<close>

definition escape_char :: "rchar \<Rightarrow> rstring" where
  "escape_char c =
     (if c = 38 then [38, 97, 109, 112, 59] else if c = 60 then [38, 108, 116, 59]
      else if c = 62 then [38, 103, 116, 59] else if c = 34 then [38, 113, 117, 111, 116, 59]
      else if c = 39 then [38, 97, 112, 111, 115, 59] else [c])"

text \<open>The five passes over the string are one pass, since no replacement introduces a character that
  a later pass replaces.\<close>

lemma xml_escape_single_pass: "xml_escape s = concat (map escape_char s)"
  by (induction s) (auto simp: xml_escape_def escape_char_def str_def)

lemma xml_escape_Nil [simp]: "xml_escape [] = []"
  by (simp add: xml_escape_single_pass)

lemma xml_escape_eq_Nil [simp]: "xml_escape s = [] \<longleftrightarrow> s = []"
  by (cases s) (auto simp: xml_escape_single_pass escape_char_def)

lemma xml_escape_plain: "60 \<notin> set (xml_escape s)" "62 \<notin> set (xml_escape s)" "34 \<notin> set (xml_escape s)"
  "39 \<notin> set (xml_escape s)"
  by (induction s) (auto simp: xml_escape_single_pass escape_char_def)

function xml_unescape :: "rstring \<Rightarrow> rstring" where
  "xml_unescape [] = []"
| "xml_unescape (c # s) =
     (if c \<noteq> 38 then c # xml_unescape s
      else if take 4 s = [97, 109, 112, 59] then 38 # xml_unescape (drop 4 s)
      else if take 3 s = [108, 116, 59] then 60 # xml_unescape (drop 3 s)
      else if take 3 s = [103, 116, 59] then 62 # xml_unescape (drop 3 s)
      else if take 5 s = [113, 117, 111, 116, 59] then 34 # xml_unescape (drop 5 s)
      else if take 5 s = [97, 112, 111, 115, 59] then 39 # xml_unescape (drop 5 s)
      else c # xml_unescape s)"
  by pat_completeness auto
termination
  by (relation "measure length") auto

lemma xml_unescape_char: "xml_unescape (escape_char c @ s) = c # xml_unescape s"
  by (auto simp: escape_char_def)

lemma xml_unescape_escape: "xml_unescape (xml_escape s) = s"
  by (induction s) (simp_all add: xml_escape_single_pass xml_unescape_char del: xml_unescape.simps(2))

text \<open>
  Escaping is lossless and complete: resolving the five entities gives the original text back, and
  the escaped text contains none of the characters that delimit tags or attribute values.
\<close>

theorem xml_escape_roundtrip:
  "xml_unescape (xml_escape s) = s \<and> set (xml_escape s) \<inter> {60, 62, 34, 39} = {}"
  using xml_unescape_escape xml_escape_plain by auto

subsection \<open>File URIs\<close>

definition unhex :: "rchar \<Rightarrow> nat" where
  "unhex c = (if c < 58 then c - 48 else c - 55)"

fun percent_decode :: "rstring \<Rightarrow> u8 list" where
  "percent_decode [] = []"
| "percent_decode (c # s) =
     (if c = 37 then
        (case s of h # l # rest \<Rightarrow> word_of_nat (16 * unhex h + unhex l) # percent_decode rest
         | _ \<Rightarrow> [])
      else word_of_nat c # percent_decode s)"

lemma unhex_digit: "d < 16 \<Longrightarrow> unhex (hex_digit 65 d) = d"
  by (auto simp: unhex_def hex_digit_def)

lemma percent_decode_byte: "percent_decode (encode_byte b @ s) = b # percent_decode s"
proof (cases "uri_plain b")
  case True
  moreover have "\<not> uri_plain 37" by (simp add: uri_plain_def)
  moreover have "b = word_of_nat (unat b)" by simp
  ultimately have "unat b \<noteq> 37" by (metis of_nat_numeral)
  with True show ?thesis by (simp add: encode_byte_def)
next
  case False
  have "unat b < 256" by (rule unat_u8)
  then have "unhex (hex_digit 65 (unat b div 16)) = unat b div 16" "unhex (hex_digit 65 (unat b mod 16)) = unat b mod 16"
    by (auto intro: unhex_digit)
  with False show ?thesis by (simp add: encode_byte_def hex2_upper_def del: of_nat_add of_nat_mult)
qed

lemma percent_decode_encode: "percent_decode (concat (map encode_byte bs)) = bs"
  by (induction bs) (simp_all add: percent_decode_byte del: percent_decode.simps(2))

definition uri_char :: "rchar \<Rightarrow> bool" where
  "uri_char c \<longleftrightarrow> 65 \<le> c \<and> c \<le> 90 \<or> 97 \<le> c \<and> c \<le> 122 \<or> 48 \<le> c \<and> c \<le> 57 \<or> c \<in> {37, 45, 46, 95, 126, 47, 58}"

lemma encode_byte_chars: "c \<in> set (encode_byte b) \<Longrightarrow> uri_char c"
proof (cases "uri_plain b")
  case True
  moreover assume "c \<in> set (encode_byte b)"
  ultimately show ?thesis
    by (auto simp: encode_byte_def uri_plain_def uri_char_def word_le_nat_alt)
next
  case False
  have "uri_char (hex_digit 65 d)" if "d < 16" for d
    using that by (auto simp: uri_char_def hex_digit_def)
  moreover have "unat b < 256" by (rule unat_u8)
  moreover assume "c \<in> set (encode_byte b)"
  ultimately show ?thesis using False by (auto simp: encode_byte_def hex2_upper_def uri_char_def [of 37])
qed

lemma file_uri_chars: "c \<in> set (file_uri path) \<Longrightarrow> uri_char c"
  by (auto simp: file_uri_def Let_def str_def uri_char_def [of 102] uri_char_def [of 105] uri_char_def [of 108]
      uri_char_def [of 101] uri_char_def [of 58] uri_char_def [of 47] dest: encode_byte_chars)

lemma xml_escape_id: "set s \<inter> {38, 60, 62, 34, 39} = {} \<Longrightarrow> xml_escape s = s"
  by (induction s) (auto simp: xml_escape_single_pass escape_char_def)

lemma xml_escape_file_uri: "xml_escape (file_uri path) = file_uri path"
  by (rule xml_escape_id) (auto dest!: file_uri_chars simp: uri_char_def)

text \<open>
  Property C39. The image location: a \<^verbatim>\<open>file:///\<close> prefix followed by URI characters only, which decode to exactly the
  bytes of the path with forward slashes and without a leading one; escaping for XML leaves it unchanged.
\<close>

theorem file_uri_roundtrip:
  "\<exists>encoded. file_uri path = str ''file:///'' @ encoded \<and> list_all uri_char encoded \<and>
     percent_decode encoded = utf8_bytes (strip_slash (map (\<lambda>c. if c = 92 then 47 else c) path)) \<and>
     xml_escape (file_uri path) = file_uri path"
proof -
  have "replace_char 92 [47] path = map (\<lambda>c. if c = 92 then 47 else c) path"
    by (induction path) auto
  then have "file_uri path = str ''file:///'' @
      concat (map encode_byte (utf8_bytes (strip_slash (map (\<lambda>c. if c = 92 then 47 else c) path))))"
    by (simp add: file_uri_def)
  then show ?thesis
    using encode_byte_chars xml_escape_file_uri [of path]
    by (intro exI conjI) (assumption, auto simp: list_all_iff percent_decode_encode)
qed

subsection \<open>Reading a document\<close>

datatype xml_token = Tag "rstring list" | Text rstring

text \<open>The inside of a tag is split at the quotation marks: every second part is an attribute value.\<close>

fun resolve_values :: "rstring list \<Rightarrow> rstring list" where
  "resolve_values (p # v # ps) = p # xml_unescape v # resolve_values ps"
| "resolve_values ps = ps"

definition read_tag :: "rstring \<Rightarrow> xml_token" where
  "read_tag raw = Tag (resolve_values (split_char 34 raw))"

function read_xml :: "rstring \<Rightarrow> xml_token list" where
  "read_xml [] = []"
| "read_xml (c # s) =
     (if c = 60
      then read_tag (takeWhile (\<lambda>c. c \<noteq> 62) s) # read_xml (tl (dropWhile (\<lambda>c. c \<noteq> 62) s))
      else Text (xml_unescape (takeWhile (\<lambda>c. c \<noteq> 60) (c # s))) # read_xml (dropWhile (\<lambda>c. c \<noteq> 60) s))"
  by pat_completeness auto
termination
  by (relation "measure length") (auto simp: less_Suc_eq_le length_dropWhile_le intro: order_trans [OF diff_le_self])

lemma read_xml_tag: "62 \<notin> set raw \<Longrightarrow> read_xml (60 # raw @ 62 # s) = read_tag raw # read_xml s"
  by simp

definition text_of :: "rstring \<Rightarrow> xml_token list" where
  "text_of s = (if s = [] then [] else [Text s])"

lemma read_xml_text:
  "read_xml (xml_escape t @ 60 # s) = text_of t @ read_xml (60 # s)"
proof (cases "xml_escape t")
  case Nil
  then show ?thesis by (simp add: text_of_def)
next
  case (Cons c r)
  have no: "60 \<notin> set (c # r)" using xml_escape_plain(1) [of t] Cons by simp
  have "t \<noteq> []" using Cons by auto
  with no xml_unescape_escape [of t] show ?thesis by (simp add: Cons text_of_def del: xml_unescape.simps(2))
qed

lemma escaped_scan:
  "takeWhile (\<lambda>c. c \<noteq> 62) (xml_escape t @ s) = xml_escape t @ takeWhile (\<lambda>c. c \<noteq> 62) s"
  "dropWhile (\<lambda>c. c \<noteq> 62) (xml_escape t @ s) = dropWhile (\<lambda>c. c \<noteq> 62) s"
  "split_char 34 (xml_escape t @ 34 # s) = xml_escape t # split_char 34 s"
  using xml_escape_plain(2,3) [of t]
  by (auto simp: takeWhile_append dropWhile_append split_char_append)

lemmas read_simps = str_def attr_def read_tag_def escaped_scan read_xml_text xml_unescape_escape

text \<open>The fragments of the document, each in front of an arbitrary rest.\<close>

lemma read_head:
  "read_xml (str ''<toast><visual>'' @ attr (str ''<binding template'') (str ''ToastGeneric'') @ str ''>'' @ s) =
     [Tag [str ''toast''], Tag [str ''visual''],
      Tag [str ''binding template='', str ''ToastGeneric'', []]] @ read_xml s"
  by (simp add: read_simps)

lemma read_text_element:
  "read_xml (str ''<text>'' @ xml_escape t @ str ''</text>'' @ s) =
     [Tag [str ''text'']] @ text_of t @ [Tag [str ''/text'']] @ read_xml s"
  by (simp add: read_simps)

lemma read_attribution:
  "read_xml (attr (str ''<text placement'') (str ''attribution'') @ str ''>'' @ xml_escape t @ str ''</text>'' @ s) =
     [Tag [str ''text placement='', str ''attribution'', []]] @ text_of t @ [Tag [str ''/text'']] @ read_xml s"
  by (simp add: read_simps)

lemma read_image:
  "read_xml (attr (str ''<image placement'') (str ''appLogoOverride'') @
      (if round then attr (str '' hint-crop'') (str ''circle'') else []) @
      attr (str '' src'') (xml_escape u) @ str ''/>'' @ s) =
     [Tag ([str ''image placement='', str ''appLogoOverride''] @
        (if round then [str '' hint-crop='', str ''circle''] else []) @ [str '' src='', u, str ''/''])] @ read_xml s"
  by (cases round) (simp_all add: read_simps)

lemma read_actions:
  "read_xml (str ''<actions>'' @ attr (str ''<action content'') (xml_escape l) @
      attr (str '' arguments'') (xml_escape u) @ attr (str '' activationType'') (str ''protocol'') @
      str ''/></actions>'' @ s) =
     [Tag [str ''actions''],
      Tag [str ''action content='', l, str '' arguments='', u, str '' activationType='', str ''protocol'', str ''/''],
      Tag [str ''/actions'']] @ read_xml s"
  by (simp add: read_simps)

text \<open>What the document says: the reference for \<^verbatim>\<open>build_toast_xml\<close>.\<close>

definition image_tokens :: "toast_request \<Rightarrow> rstring option \<Rightarrow> xml_token list" where
  "image_tokens toast path =
     (case (path, t_image toast) of
        (Some p, Some i) \<Rightarrow>
          [Tag ([str ''image placement='', str ''appLogoOverride''] @
             (if img_shape i = Circle then [str '' hint-crop='', str ''circle''] else []) @
             [str '' src='', file_uri p, str ''/''])]
      | _ \<Rightarrow> [])"

definition attribution_tokens :: "toast_request \<Rightarrow> xml_token list" where
  "attribution_tokens toast =
     (case attribution toast of
        None \<Rightarrow> []
      | Some a \<Rightarrow> [Tag [str ''text placement='', str ''attribution'', []]] @ text_of a @ [Tag [str ''/text'']])"

definition action_tokens :: "url_parser \<Rightarrow> toast_request \<Rightarrow> xml_token list" where
  "action_tokens p toast =
     (case (t_action_label toast, Option.bind (t_action_url toast) (validate p)) of
        (Some l, Some u) \<Rightarrow>
          [Tag [str ''actions''],
           Tag [str ''action content='', l, str '' arguments='', url_as_str u,
             str '' activationType='', str ''protocol'', str ''/''],
           Tag [str ''/actions'']]
      | _ \<Rightarrow> [])"

definition toast_tokens :: "url_parser \<Rightarrow> toast_request \<Rightarrow> rstring option \<Rightarrow> xml_token list" where
  "toast_tokens p toast path =
     [Tag [str ''toast''], Tag [str ''visual''], Tag [str ''binding template='', str ''ToastGeneric'', []]] @
     image_tokens toast path @
     [Tag [str ''text'']] @ text_of (t_title toast) @ [Tag [str ''/text'']] @
     [Tag [str ''text'']] @ text_of (t_message toast) @ [Tag [str ''/text'']] @
     attribution_tokens toast @
     [Tag [str ''/binding''], Tag [str ''/visual'']] @
     action_tokens p toast @ [Tag [str ''/toast'']]"

text \<open>The document as the concatenation of its fragments.\<close>

definition image_part :: "toast_request \<Rightarrow> rstring option \<Rightarrow> rstring" where
  "image_part toast path =
     (case (path, t_image toast) of
        (Some p, Some i) \<Rightarrow> attr (str ''<image placement'') (str ''appLogoOverride'') @
          (if img_shape i = Circle then attr (str '' hint-crop'') (str ''circle'') else []) @
          attr (str '' src'') (xml_escape (file_uri p)) @ str ''/>''
      | _ \<Rightarrow> [])"

definition attribution_part :: "toast_request \<Rightarrow> rstring" where
  "attribution_part toast =
     (case attribution toast of
        None \<Rightarrow> []
      | Some a \<Rightarrow> attr (str ''<text placement'') (str ''attribution'') @ str ''>'' @ xml_escape a @ str ''</text>'')"

definition action_part :: "url_parser \<Rightarrow> toast_request \<Rightarrow> rstring" where
  "action_part p toast =
     (case (t_action_label toast, Option.bind (t_action_url toast) (validate p)) of
        (Some l, Some u) \<Rightarrow> str ''<actions>'' @ attr (str ''<action content'') (xml_escape l) @
          attr (str '' arguments'') (xml_escape (url_as_str u)) @
          attr (str '' activationType'') (str ''protocol'') @ str ''/></actions>''
      | _ \<Rightarrow> [])"

lemma build_toast_xml_parts:
  "build_toast_xml p toast path =
     str ''<toast><visual>'' @ attr (str ''<binding template'') (str ''ToastGeneric'') @ str ''>'' @
     image_part toast path @
     str ''<text>'' @ xml_escape (t_title toast) @ str ''</text>'' @
     str ''<text>'' @ xml_escape (t_message toast) @ str ''</text>'' @
     attribution_part toast @ str ''</binding></visual>'' @ action_part p toast @ str ''</toast>''"
proof -
  have "str ''</text><text>'' = str ''</text>'' @ str ''<text>''" by (simp add: str_def)
  moreover have "(case img_shape i of Circle \<Rightarrow> x | Square \<Rightarrow> y) = (if img_shape i = Circle then x else y)"
    for i :: image_ref and x y :: rstring
    by (cases "img_shape i") auto
  ultimately show ?thesis
    by (simp add: build_toast_xml_def image_part_def attribution_part_def action_part_def Let_def
        split: option.splits)
qed

lemma read_parts:
  "read_xml (image_part toast path @ s) = image_tokens toast path @ read_xml s"
  "read_xml (attribution_part toast @ s) = attribution_tokens toast @ read_xml s"
  "read_xml (action_part p toast @ s) = action_tokens p toast @ read_xml s"
proof -
  show "read_xml (image_part toast path @ s) = image_tokens toast path @ read_xml s"
    using read_image by (auto simp: image_part_def image_tokens_def split: option.splits)
  show "read_xml (attribution_part toast @ s) = attribution_tokens toast @ read_xml s"
    using read_attribution by (auto simp: attribution_part_def attribution_tokens_def split: option.splits)
  show "read_xml (action_part p toast @ s) = action_tokens p toast @ read_xml s"
    using read_actions by (auto simp: action_part_def action_tokens_def split: option.splits)
qed

lemma read_tail:
  "read_xml (str ''</binding></visual>'' @ s) = [Tag [str ''/binding''], Tag [str ''/visual'']] @ read_xml s"
  "read_xml (str ''</toast>'') = [Tag [str ''/toast'']]"
  by (simp_all add: read_simps)

lemma read_built: "read_xml (build_toast_xml p toast path) = toast_tokens p toast path"
  unfolding build_toast_xml_parts toast_tokens_def
  by (simp only: read_head read_parts read_text_element read_tail append.assoc)

text \<open>
  Property C12. No content can break out of its place: whatever the texts, label, URL and path are, reading the document
  gives exactly the intended elements, with the title, message, attribution, label and
  URL of the toast as the decoded text and attribute values. The button is there only for a
  label together with a URL that passes the URL policy, and it carries the normalized URL; the image is there only for a local file.
\<close>

theorem build_toast_xml_reads:
  "read_xml (build_toast_xml p toast path) = toast_tokens p toast path"
  by (rule read_built)

end
