(* ===== verification/Tray.thy ===== *)
theory Tray
  imports Prelude
begin

unbundle bit_operations_syntax

section \<open>The tray window (\<^verbatim>\<open>tray.rs\<close>)\<close>

text \<open>
  A hidden window with an icon in the notification area. The Win32 calls whose effect leaves the process are recorded, in order, in
  \<open>calls\<close>; their answers are arguments. Messages keep their widths: \<^verbatim>\<open>u32\<close> for the message, \<^verbatim>\<open>usize\<close> and \<^verbatim>\<open>isize\<close> (64 bits) for its
  parameters. A second thread, the watcher, ends the process after Close. \<open>None\<close> is a panic.
\<close>

type_synonym u32 = "32 word"

definition WM_NCCREATE :: u32 where "WM_NCCREATE = 129"
definition WM_COMMAND :: u32 where "WM_COMMAND = 273"
definition WM_LBUTTONUP :: u32 where "WM_LBUTTONUP = 514"
definition WM_RBUTTONUP :: u32 where "WM_RBUTTONUP = 517"
definition WM_APP :: u32 where "WM_APP = 32768"

definition BASE_TOOLTIP :: rstring where
  "BASE_TOOLTIP = str ''Desktop Notification Agent''"

definition TRAY_UID :: u32 where
  "TRAY_UID = 1"

definition WM_TRAYICON :: u32 where
  "WM_TRAYICON = WM_APP + 1"

definition ID_MENU_VERSION :: u64 where
  "ID_MENU_VERSION = 1001"

definition ID_MENU_CLOSE :: u64 where
  "ID_MENU_CLOSE = 1002"

definition CLOSE_TIMEOUT :: duration where
  "CLOSE_TIMEOUT = from_secs 5"

definition APP_ICON_ID :: "16 word" where
  "APP_ICON_ID = 1"

datatype menu_item = Disabled_Item u64 rstring | Separator | Item u64 rstring

datatype win_call =
    Notify_Add u32 "nat list"
  | Notify_Modify u32 "nat list"
  | Notify_Delete u32
  | Destroy_Icon
  | Set_Foreground
  | Track_Popup_Menu
  | Post_Null
  | Send_Close

text \<open>
  \<^verbatim>\<open>TrayState\<close>, with whether the window has it attached, the receiver and the log guard that the first Close takes,
  the watcher thread (when it starts to wait, its deadline, and whether it holds the log guard), and the calls made so far.
\<close>

record tray =
  menu :: "menu_item list"
  attached :: bool
  done_rx :: bool
  file_guard :: bool
  watcher :: "(instant \<times> instant \<times> bool) option"
  calls :: "win_call list"

text \<open>UTF-16, and the tooltip buffer of 128 units that keeps room for the terminator.\<close>

definition utf16_char :: "rchar \<Rightarrow> nat list" where
  "utf16_char c = (if c < 65536 then [c] else [55296 + (c - 65536) div 1024, 56320 + (c - 65536) mod 1024])"

definition set_tip :: "nat list \<Rightarrow> rstring \<Rightarrow> nat list option" where
  "set_tip buf text =
     (let wide = take (length buf - 1) (concat (map utf16_char text)) in
      if length wide < length buf then Some ((wide @ drop (length wide) buf)[length wide := 0]) else None)"

text \<open>\<^verbatim>\<open>TrayHandle::set_start_failed\<close>, from any thread: the call it makes.\<close>

definition set_start_failed :: "win_call option" where
  "set_start_failed =
     map_option (Notify_Modify TRAY_UID) (set_tip (replicate 128 0) (BASE_TOOLTIP @ str '' (agent failed to start)''))"

definition load_tray_icon :: "(16 word \<Rightarrow> int \<Rightarrow> int \<Rightarrow> rstring + unit) \<Rightarrow> int \<Rightarrow> int \<Rightarrow> rstring + unit" where
  "load_tray_icon load_image cx cy = load_image APP_ICON_ID cx cy"

subsection \<open>Messages\<close>

datatype wnd_result = Handled | Default_Proc

definition wndproc :: "instant \<Rightarrow> u32 \<Rightarrow> u64 \<Rightarrow> 64 word \<Rightarrow> tray \<Rightarrow> wnd_result \<times> tray" where
  "wndproc now msg wparam lparam t =
     (if msg = WM_NCCREATE then (Default_Proc, t\<lparr>attached := True\<rparr>)
      else if \<not> attached t then (Default_Proc, t)
      else if msg = WM_TRAYICON \<and> ((ucast lparam :: u32) = WM_RBUTTONUP \<or> (ucast lparam :: u32) = WM_LBUTTONUP)
      then (Handled, t\<lparr>calls := calls t @ [Set_Foreground, Track_Popup_Menu, Post_Null]\<rparr>)
      else if msg = WM_COMMAND \<and> wparam AND 0xFFFF = ID_MENU_CLOSE then
        (let t = t\<lparr>calls := calls t @ [Notify_Delete TRAY_UID, Destroy_Icon, Send_Close]\<rparr> in
         if done_rx t
         then (Handled, t\<lparr>done_rx := False, file_guard := False, watcher := Some (now, now + CLOSE_TIMEOUT, file_guard t)\<rparr>)
         else (Handled, t))
      else (Default_Proc, t))"

text \<open>
  The message pump. Each element is what \<^verbatim>\<open>GetMessageW\<close> returns with the message it stored and the time of its dispatch; the result
  says whether the loop ended. At the end of the list the pump waits for the next message.
\<close>

record win_msg =
  msg_at :: instant
  msg_id :: u32
  msg_wparam :: u64
  msg_lparam :: "64 word"

fun run_message_loop :: "(int \<times> win_msg) list \<Rightarrow> tray \<Rightarrow> bool \<times> tray" where
  "run_message_loop [] t = (False, t)"
| "run_message_loop ((got, m) # ms) t =
     (if got \<le> 0 then (True, t)
      else run_message_loop ms (snd (wndproc (msg_at m) (msg_id m) (msg_wparam m) (msg_lparam m) t)))"

text \<open>
  The watcher waits for the agent's report (or for the agent's end of the channel to be dropped), which may be there before it starts, until its
  deadline; then it drops the log guard, and exits the process. \<open>flush\<close> says how long the drop of the guard takes, \<open>None\<close> if it never ends. The result is the
  time of the exit, and whether a log was flushed before it, or \<open>None\<close> if the process does not exit.
\<close>

definition watcher_exit :: "instant \<times> instant \<times> bool \<Rightarrow> instant option \<Rightarrow> duration option \<Rightarrow> (instant \<times> bool) option" where
  "watcher_exit w reported flush =
     (let (started, deadline, guard) = w;
          waited = (case reported of Some d \<Rightarrow> max started (min d deadline) | None \<Rightarrow> deadline)
      in if guard then map_option (\<lambda>f. (waited + f, True)) flush else Some (waited, False))"

subsection \<open>Creation\<close>

text \<open>The answers of the calls \<^verbatim>\<open>create\<close> makes, in order; \<open>version\<close> is the crate's version at build time.\<close>

record create_answers =
  module_handle :: "rstring + unit"
  load_cursor :: "rstring + unit"
  register_class :: "16 word"
  last_error :: rstring
  popup_menu :: "rstring + unit"
  append_menu :: "menu_item \<Rightarrow> rstring + unit"
  load_image :: "16 word \<Rightarrow> int \<Rightarrow> int \<Rightarrow> rstring + unit"
  small_icon :: "int \<times> int"
  create_window :: "rstring + unit"
  notify_add :: "rstring + unit"

definition menu_items :: "rstring \<Rightarrow> menu_item list" where
  "menu_items version = [Disabled_Item ID_MENU_VERSION (str ''Version '' @ version), Separator, Item ID_MENU_CLOSE (str ''Close'')]"

fun append_all :: "(menu_item \<Rightarrow> rstring + unit) \<Rightarrow> menu_item list \<Rightarrow> rstring + unit" where
  "append_all add_item [] = Inr ()"
| "append_all add_item (i # rest) = (case add_item i of Inl e \<Rightarrow> Inl e | Inr _ \<Rightarrow> append_all add_item rest)"

text \<open>
  \<open>guard\<close> says whether there is a log guard to take over. The result: the tray or an error, the calls made, and whether the guard was dropped,
  and so the log flushed, on the way out. An error before the state is boxed drops the arguments; after
  \<^verbatim>\<open>Box::into_raw\<close> nothing owns them any more.
\<close>

definition create :: "rstring \<Rightarrow> create_answers \<Rightarrow> bool \<Rightarrow> ((rstring + tray) \<times> win_call list \<times> bool) option" where
  "create version ans guard =
     (case module_handle ans of Inl e \<Rightarrow> Some (Inl e, [], guard) | Inr _ \<Rightarrow>
      case load_cursor ans of Inl e \<Rightarrow> Some (Inl e, [], guard) | Inr _ \<Rightarrow>
      if register_class ans = 0 then Some (Inl (str ''RegisterClassExW failed: '' @ last_error ans), [], guard) else
      case popup_menu ans of Inl e \<Rightarrow> Some (Inl e, [], guard) | Inr _ \<Rightarrow>
      case append_all (append_menu ans) (menu_items version) of Inl e \<Rightarrow> Some (Inl e, [], guard) | Inr _ \<Rightarrow>
      case load_tray_icon (load_image ans) (fst (small_icon ans)) (snd (small_icon ans)) of Inl e \<Rightarrow> Some (Inl e, [], guard) | Inr _ \<Rightarrow>
      let state = \<lparr>menu = menu_items version, attached = False, done_rx = True, file_guard = guard, watcher = None, calls = []\<rparr> in
      case create_window ans of Inl e \<Rightarrow> Some (Inl e, [], False) | Inr _ \<Rightarrow>
      let state = snd (wndproc 0 WM_NCCREATE 0 0 state) in
      Option.bind (set_tip (replicate 128 0) BASE_TOOLTIP) (\<lambda>tip.
      let made = [Notify_Add TRAY_UID tip] in
      case notify_add ans of
        Inl e \<Rightarrow> Some (Inl e, made @ [Destroy_Icon], False)
      | Inr _ \<Rightarrow> Some (Inr (state\<lparr>calls := made\<rparr>), made, False)))"

subsection \<open>Properties\<close>

lemma set_tip_length: "set_tip buf text = Some tip \<Longrightarrow> length tip = length buf"
  by (auto simp: set_tip_def Let_def split: if_splits)

lemma set_tip_Some: "buf \<noteq> [] \<Longrightarrow> \<exists>tip. set_tip buf text = Some tip \<and> 0 \<in> set tip"
proof -
  assume "buf \<noteq> []"
  then have short: "length (take (length buf - 1) (concat (map utf16_char text))) < length buf" by (cases buf) auto
  then show ?thesis by (auto simp: set_tip_def Let_def intro!: set_update_memI)
qed

text \<open>
  A tooltip always fits: for every text the buffer keeps its length, holds a prefix of the UTF-16 text and a terminator after it.
\<close>

theorem set_tip_terminated:
  assumes "buf \<noteq> []"
  shows "\<exists>tip n. set_tip buf text = Some tip \<and> length tip = length buf \<and> n < length buf \<and> tip ! n = 0 \<and>
    take n tip = take n (concat (map utf16_char text)) \<and> n = min (length (concat (map utf16_char text))) (length buf - 1)"
proof -
  define wide where "wide = take (length buf - 1) (concat (map utf16_char text))"
  have short: "length wide < length buf" using assms by (cases buf) (auto simp: wide_def)
  let ?tip = "(wide @ drop (length wide) buf)[length wide := 0]"
  have "set_tip buf text = Some ?tip" using short by (simp add: set_tip_def Let_def wide_def)
  moreover have "take (length wide) ?tip = take (length wide) (concat (map utf16_char text))"
    by (simp add: wide_def)
  ultimately show ?thesis
    using short by (intro exI [of _ ?tip] exI [of _ "length wide"]) (auto simp: wide_def)
qed

theorem set_tip_terminated_witness:
  "\<exists>tip n. set_tip [0, 0, 0] (str ''abc'') = Some tip \<and> n < length [0, 0, 0 :: nat] \<and> tip ! n = 0 \<and> n = 2"
  using set_tip_terminated [of "[0, 0, 0]" "str ''abc''"] by (auto simp: str_def utf16_char_def numeral_2_eq_2)

lemma base_tip: "\<exists>tip. set_tip (replicate 128 0) BASE_TOOLTIP = Some tip \<and> length tip = 128"
  using set_tip_Some [of "replicate 128 0" BASE_TOOLTIP] set_tip_length [of "replicate 128 0" BASE_TOOLTIP] by fastforce

lemma create_Some: "\<exists>r made flushed. create version ans guard = Some (r, made, flushed)"
  using base_tip by (auto simp: create_def Let_def split: sum.split)

lemma create_Inr_iff:
  "(\<exists>t made flushed. create version ans guard = Some (Inr t, made, flushed)) \<longleftrightarrow>
     module_handle ans = Inr () \<and> load_cursor ans = Inr () \<and> register_class ans \<noteq> 0 \<and>
     popup_menu ans = Inr () \<and> append_all (append_menu ans) (menu_items version) = Inr () \<and>
     load_image ans APP_ICON_ID (fst (small_icon ans)) (snd (small_icon ans)) = Inr () \<and>
     create_window ans = Inr () \<and> notify_add ans = Inr ()"
  using base_tip by (cases "notify_add ans") (auto simp: create_def Let_def load_tray_icon_def split: sum.split)

lemma create_Inr:
  assumes "create version ans guard = Some (Inr t, made, flushed)"
  shows "attached t \<and> done_rx t \<and> file_guard t = guard \<and> watcher t = None \<and> menu t = menu_items version \<and>
    (\<exists>tip. made = [Notify_Add TRAY_UID tip] \<and> calls t = made \<and> length tip = 128) \<and> \<not> flushed"
  using assms base_tip by (auto simp: create_def Let_def wndproc_def split: sum.splits if_splits)

lemma create_Inl:
  assumes "create version ans guard = Some (Inl e, made, flushed)"
  shows "(made = [] \<or> last made = Destroy_Icon) \<and> (flushed \<longrightarrow> guard)"
  using assms base_tip by (auto simp: create_def Let_def split: sum.splits if_splits)

text \<open>
  Creation never panics. It succeeds exactly when every call does, and then the state is attached to the window, the menu is complete, the icon
  was added once, and the log guard is in the tray's hands. It fails with an error otherwise, having added no icon or destroyed it; the
  log guard is dropped, and so the log flushed, exactly if the failure came before the window was created.
\<close>

theorem create_outcome:
  "\<exists>r made flushed. create version ans guard = Some (r, made, flushed) \<and>
     ((\<exists>t. r = Inr t) \<longleftrightarrow> module_handle ans = Inr () \<and> load_cursor ans = Inr () \<and> register_class ans \<noteq> 0 \<and>
        popup_menu ans = Inr () \<and> append_all (append_menu ans) (menu_items version) = Inr () \<and>
        load_image ans APP_ICON_ID (fst (small_icon ans)) (snd (small_icon ans)) = Inr () \<and>
        create_window ans = Inr () \<and> notify_add ans = Inr ()) \<and>
     (case r of
        Inr t \<Rightarrow> attached t \<and> done_rx t \<and> file_guard t = guard \<and> watcher t = None \<and> menu t = menu_items version \<and>
          (\<exists>tip. made = [Notify_Add TRAY_UID tip] \<and> calls t = made \<and> length tip = 128) \<and> \<not> flushed
      | Inl e \<Rightarrow> (made = [] \<or> last made = Destroy_Icon) \<and> (flushed \<longrightarrow> guard))"
proof -
  obtain r made flushed where c: "create version ans guard = Some (r, made, flushed)" using create_Some by blast
  with create_Inr_iff [of version ans guard] create_Inr [of version ans guard] create_Inl [of version ans guard] show ?thesis
    by (cases r) auto
qed

text \<open>Whether a message is a Close command.\<close>

definition is_close :: "win_msg \<Rightarrow> bool" where
  "is_close m \<longleftrightarrow> msg_id m = WM_COMMAND \<and> msg_wparam m AND 0xFFFF = ID_MENU_CLOSE"

lemma ids_differ [simp]: "WM_COMMAND \<noteq> WM_NCCREATE" "WM_COMMAND \<noteq> WM_TRAYICON" "WM_TRAYICON \<noteq> WM_NCCREATE"
  by (simp_all add: WM_COMMAND_def WM_NCCREATE_def WM_TRAYICON_def WM_APP_def)

abbreviation dispatch :: "win_msg \<Rightarrow> tray \<Rightarrow> tray" where
  "dispatch m t \<equiv> snd (wndproc (msg_at m) (msg_id m) (msg_wparam m) (msg_lparam m) t)"

lemma dispatch_attached: "attached t \<Longrightarrow> attached (dispatch m t)"
  by (auto simp: wndproc_def Let_def)

lemma dispatch_other:
  "\<not> is_close m \<Longrightarrow> done_rx (dispatch m t) = done_rx t \<and> file_guard (dispatch m t) = file_guard t \<and> watcher (dispatch m t) = watcher t \<and>
     filter (\<lambda>c. c = Send_Close) (calls (dispatch m t)) = filter (\<lambda>c. c = Send_Close) (calls t)"
  by (auto simp: wndproc_def is_close_def Let_def)

lemma dispatch_watching:
  "watcher t = Some w \<Longrightarrow> \<not> done_rx t \<Longrightarrow> watcher (dispatch m t) = Some w \<and> \<not> done_rx (dispatch m t) \<and>
     set (calls t) \<subseteq> set (calls (dispatch m t))"
  by (auto simp: wndproc_def Let_def)

lemma loop_other:
  assumes "list_all (\<lambda>x. 0 < fst x \<and> \<not> is_close (snd x)) ms" and "attached t"
  shows "\<exists>t'. run_message_loop (ms @ rest) t = run_message_loop rest t' \<and> attached t' \<and> done_rx t' = done_rx t \<and>
    file_guard t' = file_guard t \<and> watcher t' = watcher t \<and> filter (\<lambda>c. c = Send_Close) (calls t') = filter (\<lambda>c. c = Send_Close) (calls t)"
  using assms
proof (induction ms arbitrary: t)
  case Nil
  then show ?case by (intro exI [of _ t]) simp
next
  case (Cons x ms)
  obtain got m where x: "x = (got, m)" by fastforce
  have "attached (dispatch m t)" using Cons.prems(2) by (rule dispatch_attached)
  from Cons.IH [OF _ this] Cons.prems(1) x dispatch_other [of m t] show ?case by auto
qed

lemma loop_watching:
  "watcher t = Some w \<Longrightarrow> \<not> done_rx t \<Longrightarrow>
     watcher (snd (run_message_loop ms t)) = Some w \<and> set (calls t) \<subseteq> set (calls (snd (run_message_loop ms t)))"
proof (induction ms arbitrary: t)
  case (Cons x ms)
  obtain got m where x: "x = (got, m)" by fastforce
  from dispatch_watching [OF Cons.prems, of m] Cons.IH [of "dispatch m t"] Cons.prems x show ?case by auto
qed simp

lemma watcher_exit_bounds:
  "\<exists>e. watcher_exit (now, now + from_secs 5, guard) reported (Some f) = Some (e, guard) \<and> now \<le> e \<and>
     e \<le> now + from_secs 5 + (if guard then f else 0) \<and>
     (case reported of None \<Rightarrow> True | Some d \<Rightarrow> e \<le> max now d + (if guard then f else 0))"
  by (auto simp: watcher_exit_def Let_def split: option.split)

lemma close_watched:
  assumes "attached t" and "done_rx t"
    and "list_all (\<lambda>x. 0 < fst x \<and> \<not> is_close (snd x)) before" and "is_close m" and "0 < got"
  shows "\<exists>w e. watcher (snd (run_message_loop (before @ (got, m) # after) t)) = Some w \<and> w = (msg_at m, msg_at m + from_secs 5, file_guard t) \<and>
    {Notify_Delete TRAY_UID, Destroy_Icon, Send_Close} \<subseteq> set (calls (snd (run_message_loop (before @ (got, m) # after) t))) \<and>
    watcher_exit w reported (Some f) = Some (e, file_guard t) \<and> msg_at m \<le> e \<and> e \<le> msg_at m + from_secs 5 + (if file_guard t then f else 0) \<and>
    (case reported of None \<Rightarrow> True | Some d \<Rightarrow> e \<le> max (msg_at m) d + (if file_guard t then f else 0))"
proof -
  obtain t1 where t1: "run_message_loop (before @ (got, m) # after) t = run_message_loop ((got, m) # after) t1"
    "attached t1" "done_rx t1" "file_guard t1 = file_guard t"
    using loop_other [OF assms(3,1), of "(got, m) # after"] assms(2) by auto
  let ?t2 = "dispatch m t1"
  have t2: "watcher ?t2 = Some (msg_at m, msg_at m + from_secs 5, file_guard t)" "\<not> done_rx ?t2"
    "{Notify_Delete TRAY_UID, Destroy_Icon, Send_Close} \<subseteq> set (calls ?t2)"
    using assms(4) t1(2-4) by (simp_all add: wndproc_def is_close_def Let_def CLOSE_TIMEOUT_def)
  have "run_message_loop (before @ (got, m) # after) t = run_message_loop after ?t2" using t1(1) assms(5) by simp
  with loop_watching [OF t2(1,2), of after] t2(3) watcher_exit_bounds [of "msg_at m" "file_guard t" reported f] show ?thesis by auto
qed

text \<open>
  Close ends the process: after any messages that are no Close command, the first one removes the icon, signals the agent and starts the
  one watcher there ever is. The process exits when the agent reports or its thread is gone, at once if that is so already, and no later than five seconds after
  the click; if there is a file log, it is flushed just before, which takes the time \<open>f\<close>. No later message, a second Close included,
  restarts or extends the wait.
\<close>

theorem close_exits_in_time:
  assumes "attached t" and "done_rx t"
    and "list_all (\<lambda>x. 0 < fst x \<and> \<not> is_close (snd x)) before" and "is_close m" and "0 < got"
  shows "\<exists>w e. watcher (snd (run_message_loop (before @ (got, m) # after) t)) = Some w \<and> w = (msg_at m, msg_at m + from_secs 5, file_guard t) \<and>
    {Notify_Delete TRAY_UID, Destroy_Icon, Send_Close} \<subseteq> set (calls (snd (run_message_loop (before @ (got, m) # after) t))) \<and>
    watcher_exit w reported (Some f) = Some (e, file_guard t) \<and> msg_at m \<le> e \<and> e \<le> msg_at m + from_secs 5 + (if file_guard t then f else 0) \<and>
    (case reported of None \<Rightarrow> True | Some d \<Rightarrow> e \<le> max (msg_at m) d + (if file_guard t then f else 0))"
  using assms by (rule close_watched)

definition click_close :: "instant \<Rightarrow> win_msg" where
  "click_close now = \<lparr>msg_at = now, msg_id = WM_COMMAND, msg_wparam = 1002, msg_lparam = 0\<rparr>"

definition example_tray :: tray where
  "example_tray = \<lparr>menu = [], attached = True, done_rx = True, file_guard = True, watcher = None, calls = []\<rparr>"

theorem close_exits_in_time_witness:
  "watcher (snd (run_message_loop [(1, click_close 7), (1, click_close 9)] example_tray)) = Some (7, 5000000007, True)"
proof -
  have "is_close (click_close 7)" by (simp add: is_close_def click_close_def ID_MENU_CLOSE_def)
  moreover have "attached example_tray" "done_rx example_tray" by (simp_all add: example_tray_def)
  ultimately show ?thesis
    using close_exits_in_time [of example_tray "[]" "click_close 7" 1 "[(1, click_close 9)]" None 0]
    by (auto simp: example_tray_def click_close_def from_secs_def)
qed

text \<open>
  The Close handler destroys the icon each time it runs: a second Close command that arrives before the process exits destroys the
  handle that the first one already destroyed.
\<close>

theorem close_twice_destroys_twice:
  "length (filter (\<lambda>c. c = Destroy_Icon) (calls (snd (run_message_loop [(1, click_close 7), (1, click_close 9)] example_tray)))) = 2"
  by code_simp

end
