(* ===== verification/Windows_Head.thy ===== *)
theory Windows_Head
  imports Settings Windows_Identity Nats_Auth Image_Cache Toast_Xml Tray
begin

section \<open>The Windows head: the agent (\<^verbatim>\<open>main.rs\<close>)\<close>

text \<open>
  The composition of the Windows program: the toast renderer, the persistent device id, the choice of identity and
  authentication at start-up, and the agent's life from its start to its shutdown. File system and notification platform are
  parameters; a failed \<^verbatim>\<open>expect\<close> is a panic (\<open>None\<close>).
\<close>

subsection \<open>The renderer\<close>

text \<open>\<open>env_var\<close> is \<^verbatim>\<open>std::env::var\<close> with its error. The HTTP client of the image cache may fail to be built, which is a panic.\<close>

definition getenv_of :: "(rstring \<Rightarrow> rstring + rstring) \<Rightarrow> getenv" where
  "getenv_of env_var k = (case env_var k of Inr v \<Rightarrow> Some v | Inl _ \<Rightarrow> None)"

definition app_dir :: "rstring \<Rightarrow> string \<Rightarrow> rstring" where
  "app_dir local name = path_join (path_join local (str ''DesktopNotificationAgent'')) (str name)"

definition renderer_new :: "bool \<Rightarrow> (rstring \<Rightarrow> rstring + rstring) \<Rightarrow> (rstring + cache_handle) option" where
  "renderer_new built env_var =
     (case env_var (str ''LOCALAPPDATA'') of Inl e \<Rightarrow> Some (Inl e) | Inr local \<Rightarrow>
      let dir = app_dir local ''image-cache'' in map_option Inr (image_cache_new built dir))"

text \<open>
  The renderer's image cache: a file it hands to the toast platform came, without a redirect, from an https URL without credentials.
\<close>

lemma renderer_images_https:
  assumes "renderer_new built env_var = Some (Inr ic)"
    and "fetch url_parse digest (ic_options ic) http fs list_dir removable dropped_at value c = (Some path, c')"
  shows "\<not> follows_redirects ic \<and> (\<exists>u. url_parse value = Some u \<and> url_scheme u = str ''https'' \<and> url_username u = [] \<and> url_password u = None)"
  using assms
  by (auto simp: renderer_new_def image_cache_new_def with_options_def image_cache_options_default_def fetch_def parse_image_url_def
      split: sum.splits option.splits if_splits)

text \<open>
  \<open>fetch_image\<close> is the image cache's \<open>fetch\<close>; \<open>platform\<close> stands for loading the document, creating the notification and showing
  it, with the submission time as its result.
\<close>

definition windows_show ::
  "url_parser \<Rightarrow> (rstring \<Rightarrow> image_cache \<Rightarrow> rstring option \<times> image_cache) \<Rightarrow> (rstring \<Rightarrow> rstring + datetime) \<Rightarrow>
     toast_request \<Rightarrow> image_cache \<Rightarrow> (rstring + datetime) \<times> image_cache" where
  "windows_show url_parse fetch_image platform toast c =
     (let (image_path, c) = (case t_image toast of
            Some image_ref \<Rightarrow> fetch_image (img_url image_ref) c
          | None \<Rightarrow> (None, c));
          xml = build_toast_xml url_parse toast image_path
      in (platform xml, c))"

subsection \<open>The device id\<close>

fun hex_str :: "nat \<Rightarrow> rstring" where
  "hex_str n = (if n < 16 then [hex_digit 97 n] else hex_str (n div 16) @ [hex_digit 97 (n mod 16)])"

declare hex_str.simps [simp del]

text \<open>
  \<open>file\<close> is the content of the device-id file, if it can be read. The file system's answers are those of
  \<^verbatim>\<open>create_dir_all\<close> and \<^verbatim>\<open>write\<close>; \<open>nanos\<close> is the time since the epoch, an error if the clock is before it.
\<close>

definition windows_device_id ::
  "getenv \<Rightarrow> (rstring \<Rightarrow> rstring + rstring) \<Rightarrow> rstring option \<Rightarrow> rstring + unit \<Rightarrow> rstring + nat \<Rightarrow> rstring + unit \<Rightarrow>
     rstring option \<Rightarrow> (rstring + rstring) \<times> rstring option" where
  "windows_device_id env env_var settings_device_id create_dir nanos write file =
     (case resolved_opt env ''NOTIFY_DEVICE_ID'' settings_device_id of
        Some v \<Rightarrow> (Inr v, file)
      | None \<Rightarrow>
          (case env_var (str ''LOCALAPPDATA'') of Inl e \<Rightarrow> (Inl e, file) | Inr dir \<Rightarrow>
           case create_dir of Inl e \<Rightarrow> (Inl e, file) | Inr _ \<Rightarrow>
           let existing = (case file of None \<Rightarrow> [] | Some s \<Rightarrow> trim s) in
           if existing \<noteq> [] then (Inr existing, file)
           else case nanos of Inl e \<Rightarrow> (Inl e, file) | Inr n \<Rightarrow>
             let ident = str ''d-'' @ hex_str n in
             case write of Inl e \<Rightarrow> (Inl e, file) | Inr _ \<Rightarrow> (Inr ident, Some ident)))"

subsection \<open>Start-up\<close>

datatype identity_mode = Device_Code device_code_identity | Windows_Username rstring

datatype auth_mode = External_Service rstring aad_token_provider | Creds_File creds_file_auth | Unauthenticated

record startup =
  su_config :: agent_config
  su_images :: cache_handle
  su_identity :: identity_mode
  su_auth :: auth_mode

text \<open>
  \<^verbatim>\<open>start_host\<close> up to \<^verbatim>\<open>AgentHost::start\<close>. \<open>cache_client\<close> and \<open>token_client\<close> say whether the HTTP clients of the image cache and of the token
  provider can be built, \<open>dev\<close> is the outcome of \<^verbatim>\<open>device_id\<close>, \<open>auth_built\<close> that of \<^verbatim>\<open>ExternalAuthServiceAuth::new\<close>.
\<close>

definition start_plan ::
  "(rstring \<Rightarrow> rstring + rstring) \<Rightarrow> settings \<Rightarrow> bool \<Rightarrow> rstring + rstring \<Rightarrow> bool \<Rightarrow> rstring + unit \<Rightarrow> (rstring + startup) option" where
  "start_plan env_var st cache_client dev token_client auth_built =
     (let env = getenv_of env_var;
          config = settings_agent_config env st in
      Option.bind (renderer_new cache_client env_var) (\<lambda>renderer.
      case renderer of Inl e \<Rightarrow> Some (Inl e) | Inr images \<Rightarrow>
      let client = resolved_opt env ''NOTIFY_AAD_CLIENT_ID'' (s_aad_client_id st);
          ten = resolved_str env ''NOTIFY_AAD_TENANT_ID'' (s_aad_tenant_id st) ''organizations'';
          url = resolved_opt env ''NOTIFY_NATS_AUTH_SERVICE_URL'' (s_nats_auth_service_url st);
          scope = resolved_opt env ''NOTIFY_NATS_AUTH_SERVICE_SCOPE'' (s_nats_auth_service_scope st);
          creds = resolved_opt env ''NOTIFY_NATS_CREDS_FILE'' (s_nats_creds_file st)
      in case validate_auth_service_config \<lparr>cfg_auth_service_url = url, cfg_auth_service_scope = scope,
             has_aad_identity = (client \<noteq> None)\<rparr> of Inl e \<Rightarrow> Some (Inl e) | Inr _ \<Rightarrow>
         let extra = (case scope of Some s \<Rightarrow> if url \<noteq> None then [s] else [] | None \<Rightarrow> []) in
         case (case client of
             Some cid \<Rightarrow>
               (case dev of Inl e \<Rightarrow> Inl e | Inr d \<Rightarrow>
                  Inr (Device_Code \<lparr>client_id = cid, tenant = ten, dc_device_id = d, extra_scopes = extra, has_sink = True\<rparr>))
           | None \<Rightarrow>
               (case dev of Inl e \<Rightarrow> Inl e | Inr d \<Rightarrow> Inr (Windows_Username d))) of
           Inl e \<Rightarrow> Some (Inl e)
         | Inr who \<Rightarrow>
             (case url of
                Some u \<Rightarrow>
                  Option.bind client (\<lambda>cid. Option.bind scope (\<lambda>sc.
                  Option.bind (aad_token_provider_new token_client cid ten sc) (\<lambda>token_provider.
                    case auth_built of Inl e \<Rightarrow> Some (Inl e) | Inr _ \<Rightarrow>
                    Some (Inr \<lparr>su_config = config, su_images = images, su_identity = who, su_auth = External_Service u token_provider\<rparr>))))
              | None \<Rightarrow>
                  (case creds of
                     Some path \<Rightarrow>
                       Some (Inr \<lparr>su_config = config, su_images = images, su_identity = who, su_auth = Creds_File \<lparr>creds_path = path\<rparr>\<rparr>)
                   | None \<Rightarrow> Some (Inr \<lparr>su_config = config, su_images = images, su_identity = who, su_auth = Unauthenticated\<rparr>)))))"

text \<open>
  The whole of \<^verbatim>\<open>start_host\<close>: the plan, carried out by \<^verbatim>\<open>AgentHost::start\<close>. \<open>sign_in\<close> and \<open>user_name_identity\<close> are what the two
  identity providers return, \<open>callback_options\<close> the client options that call the external auth service, \<open>load_creds\<close> the
  client library's credentials loader.
\<close>

definition start_host ::
  "(rstring \<Rightarrow> rstring + rstring) \<Rightarrow> settings \<Rightarrow> bool \<Rightarrow> rstring + rstring \<Rightarrow> bool \<Rightarrow> rstring + unit \<Rightarrow>
     (device_code_identity \<Rightarrow> rstring + agent_identity) \<Rightarrow> (rstring \<Rightarrow> rstring + agent_identity) \<Rightarrow>
     (rstring \<Rightarrow> aad_token_provider \<Rightarrow> 'opts) \<Rightarrow> (rstring \<Rightarrow> rstring + 'opts) \<Rightarrow> 'opts \<Rightarrow>
     ('opts \<Rightarrow> rstring \<Rightarrow> rstring + unit) \<Rightarrow> (rstring \<Rightarrow> rstring + unit) \<Rightarrow> instant \<Rightarrow> (rstring + agent_host) option" where
  "start_host env_var st cache_client dev token_client auth_built sign_in user_name_identity callback_options load_creds plain
       connect subscribe now =
     Option.bind (start_plan env_var st cache_client dev token_client auth_built) (\<lambda>plan.
       case plan of
         Inl e \<Rightarrow> Some (Inl e)
       | Inr su \<Rightarrow>
           host_start (su_config su)
             (case su_identity su of Device_Code dc \<Rightarrow> sign_in dc | Windows_Username d \<Rightarrow> user_name_identity d)
             (case su_auth su of
                External_Service url p \<Rightarrow> Some (Inr (callback_options url p))
              | Creds_File c \<Rightarrow> Some (creds_connect_options load_creds c)
              | Unauthenticated \<Rightarrow> None)
             plain connect subscribe now)"

text \<open>
  \<^verbatim>\<open>run_agent\<close>: \<open>started\<close> is the outcome of \<^verbatim>\<open>start_host\<close>, \<open>shutdown\<close> that of the host's shutdown, which comes after the first of Ctrl+C and Close.
  The result is the calls made on the tray and the outcome.
\<close>

definition run_agent :: "rstring + agent_host \<Rightarrow> (agent_host \<Rightarrow> rstring + unit) \<Rightarrow> (win_call list \<times> (rstring + unit)) option" where
  "run_agent started shutdown =
     (case started of
        Inl e \<Rightarrow> Option.bind set_start_failed (\<lambda>c. Some ([c], Inl e))
      | Inr host \<Rightarrow> Some ([], shutdown host))"

subsection \<open>Properties\<close>

text \<open>The optional settings as start-up resolves them, and the check of them.\<close>

abbreviation opt_client :: "(rstring \<Rightarrow> rstring + rstring) \<Rightarrow> settings \<Rightarrow> rstring option" where
  "opt_client env_var st \<equiv> resolved_opt (getenv_of env_var) ''NOTIFY_AAD_CLIENT_ID'' (s_aad_client_id st)"

abbreviation opt_url :: "(rstring \<Rightarrow> rstring + rstring) \<Rightarrow> settings \<Rightarrow> rstring option" where
  "opt_url env_var st \<equiv> resolved_opt (getenv_of env_var) ''NOTIFY_NATS_AUTH_SERVICE_URL'' (s_nats_auth_service_url st)"

abbreviation opt_scope :: "(rstring \<Rightarrow> rstring + rstring) \<Rightarrow> settings \<Rightarrow> rstring option" where
  "opt_scope env_var st \<equiv> resolved_opt (getenv_of env_var) ''NOTIFY_NATS_AUTH_SERVICE_SCOPE'' (s_nats_auth_service_scope st)"

abbreviation opt_creds :: "(rstring \<Rightarrow> rstring + rstring) \<Rightarrow> settings \<Rightarrow> rstring option" where
  "opt_creds env_var st \<equiv> resolved_opt (getenv_of env_var) ''NOTIFY_NATS_CREDS_FILE'' (s_nats_creds_file st)"

abbreviation opt_tenant :: "(rstring \<Rightarrow> rstring + rstring) \<Rightarrow> settings \<Rightarrow> rstring" where
  "opt_tenant env_var st \<equiv> resolved_str (getenv_of env_var) ''NOTIFY_AAD_TENANT_ID'' (s_aad_tenant_id st) ''organizations''"

abbreviation auth_settings :: "(rstring \<Rightarrow> rstring + rstring) \<Rightarrow> settings \<Rightarrow> nats_auth_config" where
  "auth_settings env_var st \<equiv> \<lparr>cfg_auth_service_url = opt_url env_var st, cfg_auth_service_scope = opt_scope env_var st,
     has_aad_identity = (opt_client env_var st \<noteq> None)\<rparr>"

text \<open>What a finished plan consists of.\<close>

definition planned ::
  "(rstring \<Rightarrow> rstring + rstring) \<Rightarrow> settings \<Rightarrow> bool \<Rightarrow> rstring + rstring \<Rightarrow> startup \<Rightarrow> bool" where
  "planned env_var st cache_client dev su \<longleftrightarrow> (\<exists>d. dev = Inr d \<and>
     renderer_new cache_client env_var = Some (Inr (su_images su)) \<and>
     su_config su = settings_agent_config (getenv_of env_var) st \<and>
     validate_auth_service_config (auth_settings env_var st) = Inr () \<and>
     su_identity su = (case opt_client env_var st of
       None \<Rightarrow> Windows_Username d
     | Some cid \<Rightarrow> Device_Code \<lparr>client_id = cid, tenant = opt_tenant env_var st, dc_device_id = d,
         extra_scopes = (case opt_url env_var st of None \<Rightarrow> [] | Some _ \<Rightarrow>
           case opt_scope env_var st of None \<Rightarrow> [] | Some sc \<Rightarrow> [sc]), has_sink = True\<rparr>) \<and>
     (case opt_url env_var st of
       None \<Rightarrow> su_auth su = (case opt_creds env_var st of None \<Rightarrow> Unauthenticated | Some path \<Rightarrow> Creds_File \<lparr>creds_path = path\<rparr>)
     | Some u \<Rightarrow> \<exists>cid sc p. opt_client env_var st = Some cid \<and> opt_scope env_var st = Some sc \<and>
         aad_token_provider_new True cid (opt_tenant env_var st) sc = Some p \<and> su_auth su = External_Service u p))"

lemma aad_token_provider_new_Some: "aad_token_provider_new b c t s = Some p \<Longrightarrow> aad_token_provider_new True c t s = Some p"
  by (simp add: aad_token_provider_new_def split: if_splits)

lemma validated_service:
  assumes "validate_auth_service_config \<lparr>cfg_auth_service_url = Some u, cfg_auth_service_scope = scope, has_aad_identity = aad\<rparr> = Inr ()"
  shows "aad \<and> scope \<noteq> None \<and> starts_with u (str ''https://'')"
  using assms by (auto simp: validate_auth_service_config_def split: if_splits)

lemma start_plan_planned:
  assumes a: "start_plan env_var st cache_client dev token_client auth_built = Some (Inr su)"
  shows "planned env_var st cache_client dev su"
proof -
  obtain r where r: "renderer_new cache_client env_var = Some r"
    using a by (cases "renderer_new cache_client env_var") (simp_all add: start_plan_def Let_def)
  obtain images where images: "renderer_new cache_client env_var = Some (Inr images)"
    using a r by (cases r) (simp_all add: start_plan_def Let_def)
  have check: "validate_auth_service_config (auth_settings env_var st) = Inr ()"
    using a images by (cases "validate_auth_service_config (auth_settings env_var st)") (simp_all add: start_plan_def Let_def)
  obtain d where d: "dev = Inr d"
    using a images check by (cases dev; cases "opt_client env_var st") (simp_all add: start_plan_def Let_def)
  note known = images check d
  show ?thesis
  proof (cases "opt_url env_var st")
    case None
    then show ?thesis
      using a known
      by (cases "opt_client env_var st"; cases "opt_scope env_var st"; cases "opt_creds env_var st")
        (force simp: start_plan_def planned_def Let_def)+
  next
    case (Some u)
    then obtain cid sc where c: "opt_client env_var st = Some cid" "opt_scope env_var st = Some sc"
      using validated_service [of u "opt_scope env_var st" "opt_client env_var st \<noteq> None"] check by auto
    obtain p where p: "aad_token_provider_new token_client cid (opt_tenant env_var st) sc = Some p"
      using a known Some c
      by (cases "aad_token_provider_new token_client cid (opt_tenant env_var st) sc") (simp_all add: start_plan_def Let_def)
    have "auth_built = Inr ()" using a known Some c p by (cases auth_built) (simp_all add: start_plan_def Let_def)
    with a known Some c p aad_token_provider_new_Some [OF p] show ?thesis by (force simp: start_plan_def planned_def Let_def)
  qed
qed

lemma renderer_new_safe:
  "renderer_new built env_var = Some (Inr ic) \<Longrightarrow> require_https (ic_options ic) \<and> follows_redirects ic = False"
  by (auto simp: renderer_new_def image_cache_new_def with_options_def image_cache_options_default_def
      split: sum.splits if_splits)

lemma renderer_new_None:
  "renderer_new built env_var = None \<longleftrightarrow> (\<exists>local. env_var (str ''LOCALAPPDATA'') = Inr local) \<and> \<not> built"
  by (auto simp: renderer_new_def image_cache_new_def with_options_def split: sum.split)

lemma start_plan_panics:
  "start_plan env_var st cache_client dev token_client auth_built = None \<longleftrightarrow>
     (\<exists>local. env_var (str ''LOCALAPPDATA'') = Inr local) \<and>
     (\<not> cache_client \<or> \<not> token_client \<and> opt_url env_var st \<noteq> None \<and>
        validate_auth_service_config (auth_settings env_var st) = Inr () \<and> (\<exists>d. dev = Inr d))"
proof (cases "renderer_new cache_client env_var")
  case None
  then show ?thesis using renderer_new_None [of cache_client env_var] by (auto simp: start_plan_def Let_def)
next
  case (Some r)
  show ?thesis
  proof (cases r)
    case (Inl e)
    with Some have "\<not> (\<exists>local. env_var (str ''LOCALAPPDATA'') = Inr local)"
      by (auto simp: renderer_new_def split: sum.splits)
    with Some Inl show ?thesis by (simp add: start_plan_def Let_def)
  next
    case (Inr images)
    with Some have up: "\<exists>local. env_var (str ''LOCALAPPDATA'') = Inr local" cache_client
      by (auto simp: renderer_new_def image_cache_new_def with_options_def split: sum.splits if_splits)
    show ?thesis
    proof (cases "validate_auth_service_config (auth_settings env_var st)")
      case bad: (Inl e)
      with Some Inr up show ?thesis by (simp add: start_plan_def Let_def)
    next
      case check: (Inr x)
      show ?thesis
      proof (cases "opt_url env_var st")
        case None
        with Some Inr up check show ?thesis by (auto simp: start_plan_def Let_def split: sum.split option.split)
      next
        case url: (Some u)
        with check have "opt_client env_var st \<noteq> None" "opt_scope env_var st \<noteq> None"
          using validated_service [of u "opt_scope env_var st" "opt_client env_var st \<noteq> None"] by simp_all
        then obtain cid sc where "opt_client env_var st = Some cid" "opt_scope env_var st = Some sc" by blast
        with url Some Inr up check show ?thesis
          by (cases dev) (auto simp: start_plan_def Let_def aad_token_provider_new_def split: sum.split)
      qed
    qed
  qed
qed

text \<open>
  Property C33. Start-up panics exactly if an HTTP client it needs cannot be built: that of the image cache or, once the configuration check and the device id have been
  passed and an auth service is configured, that of the token provider. The \<^verbatim>\<open>expect\<close> calls on the client id and the scope never fail. If the external auth service
  is used, its URL is https, the identity is the device-code one of the same client and tenant, the service's scope was
  requested at sign-in, and the refresh token is kept for it; so an agent without an AAD identity
  never talks to the service. Images are fetched over https without following redirects.
\<close>

theorem start_plan_safe:
  "(start_plan env_var st cache_client dev token_client auth_built = None \<longleftrightarrow>
     (\<exists>local. env_var (str ''LOCALAPPDATA'') = Inr local) \<and>
     (cache_client = False \<or> token_client = False \<and> opt_url env_var st \<noteq> None \<and>
        validate_auth_service_config (auth_settings env_var st) = Inr () \<and> (\<exists>d. dev = Inr d))) \<and>
   (case start_plan env_var st cache_client dev token_client auth_built of
      Some (Inr su) \<Rightarrow>
        require_https (ic_options (su_images su)) \<and> follows_redirects (su_images su) = False \<and>
        (case su_auth su of
           External_Service url p \<Rightarrow> opt_url env_var st = Some url \<and> starts_with url (str ''https://'') \<and>
             (case su_identity su of
                Device_Code dc \<Rightarrow> client_id dc = aad_client_id p \<and> tenant dc = aad_tenant p \<and>
                  extra_scopes dc = [aad_scope p] \<and> has_sink dc
              | Windows_Username _ \<Rightarrow> False)
         | _ \<Rightarrow> True)
    | _ \<Rightarrow> True)"
proof -
  have "require_https (ic_options (su_images su)) \<and> follows_redirects (su_images su) = False \<and>
      (case su_auth su of
         External_Service url p \<Rightarrow> opt_url env_var st = Some url \<and> starts_with url (str ''https://'') \<and>
           (case su_identity su of
              Device_Code dc \<Rightarrow> client_id dc = aad_client_id p \<and> tenant dc = aad_tenant p \<and>
                extra_scopes dc = [aad_scope p] \<and> has_sink dc
            | Windows_Username _ \<Rightarrow> False)
       | _ \<Rightarrow> True)"
    if "start_plan env_var st cache_client dev token_client auth_built = Some (Inr su)" for su
  proof -
    note p = start_plan_planned [OF that, unfolded planned_def]
    from p have "renderer_new cache_client env_var = Some (Inr (su_images su))" by blast
    then have "require_https (ic_options (su_images su)) \<and> follows_redirects (su_images su) = False" by (rule renderer_new_safe)
    with p validated_service show ?thesis
      by (cases "opt_url env_var st") (auto simp: aad_token_provider_new_def split: option.splits)
  qed
  then show ?thesis using start_plan_panics by (auto split: option.split sum.split)
qed

subsection \<open>Precedence of the settings\<close>

definition su_device :: "startup \<Rightarrow> rstring" where
  "su_device su = (case su_identity su of Device_Code dc \<Rightarrow> dc_device_id dc | Windows_Username d \<Rightarrow> d)"

text \<open>What a setting is to be: the first of environment and file, or also of the default, that is present and not blank.\<close>

definition chosen :: "(rstring \<Rightarrow> rstring + rstring) \<Rightarrow> string \<Rightarrow> rstring option \<Rightarrow> rstring option" where
  "chosen env_var var file = first_trimmed [getenv_of env_var (str var), file]"

definition chosen_or :: "(rstring \<Rightarrow> rstring + rstring) \<Rightarrow> string \<Rightarrow> rstring option \<Rightarrow> string \<Rightarrow> rstring option" where
  "chosen_or env_var var file d = first_trimmed [getenv_of env_var (str var), file, Some (str d)]"

lemma resolved_chosen: "resolved_opt (getenv_of env_var) var file = chosen env_var var file"
  by (simp add: chosen_def resolved_opt_first)

lemma persisted_device:
  "fst (windows_device_id env env_var sd create_dir nanos write file) =
     (case resolved_opt env ''NOTIFY_DEVICE_ID'' sd of
        Some v \<Rightarrow> Inr v | None \<Rightarrow> fst (windows_device_id (\<lambda>_. None) env_var None create_dir nanos write file))"
  by (simp add: windows_device_id_def resolved_opt_def [of "\<lambda>_. None"] split: option.split)

text \<open>
  Property C40. Precedence of the settings: each of the ten settings that start-up uses is the first one present
  and not blank of the environment variable, the settings file and, where there is one, the built-in default, without
  surrounding white space. Without an AAD client id the identity is the Windows user name; without a device id it is the persisted
  one; the credentials file counts only without an auth service.
\<close>

theorem settings_precedence:
  assumes "start_plan env_var st cache_client
      (fst (windows_device_id (getenv_of env_var) env_var (s_device_id st) create_dir nanos write file)) token_client auth_built = Some (Inr su)"
  shows "Some (nats_url (su_config su)) = chosen_or env_var ''NOTIFY_NATS_URL'' (s_nats_url st) ''nats://127.0.0.1:4222'' \<and>
    Some (subject_template (su_config su)) =
      chosen_or env_var ''NOTIFY_SUBJECT_TEMPLATE'' (s_subject_template st) ''notify.user.{0}.desktop'' \<and>
    Some (ack_subject (su_config su)) = chosen_or env_var ''NOTIFY_ACK_SUBJECT'' (s_ack_subject st) ''notify.ack.desktop'' \<and>
    Some (resolve_log_directive (getenv_of env_var) st) = chosen_or env_var ''RUST_LOG'' (s_log_level st) ''info'' \<and>
    (case su_identity su of
       Device_Code dc \<Rightarrow> Some (client_id dc) = chosen env_var ''NOTIFY_AAD_CLIENT_ID'' (s_aad_client_id st) \<and>
         Some (tenant dc) = chosen_or env_var ''NOTIFY_AAD_TENANT_ID'' (s_aad_tenant_id st) ''organizations''
     | Windows_Username d \<Rightarrow> chosen env_var ''NOTIFY_AAD_CLIENT_ID'' (s_aad_client_id st) = None) \<and>
    (case chosen env_var ''NOTIFY_DEVICE_ID'' (s_device_id st) of
       Some v \<Rightarrow> su_device su = v
     | None \<Rightarrow> fst (windows_device_id (\<lambda>_. None) env_var None create_dir nanos write file) = Inr (su_device su)) \<and>
    (case su_auth su of
       External_Service u p \<Rightarrow>
         Some u = chosen env_var ''NOTIFY_NATS_AUTH_SERVICE_URL'' (s_nats_auth_service_url st) \<and>
         Some (aad_scope p) = chosen env_var ''NOTIFY_NATS_AUTH_SERVICE_SCOPE'' (s_nats_auth_service_scope st)
     | Creds_File c \<Rightarrow> chosen env_var ''NOTIFY_NATS_AUTH_SERVICE_URL'' (s_nats_auth_service_url st) = None \<and>
         Some (creds_path c) = chosen env_var ''NOTIFY_NATS_CREDS_FILE'' (s_nats_creds_file st)
     | Unauthenticated \<Rightarrow> chosen env_var ''NOTIFY_NATS_AUTH_SERVICE_URL'' (s_nats_auth_service_url st) = None \<and>
         chosen env_var ''NOTIFY_NATS_CREDS_FILE'' (s_nats_creds_file st) = None)"
proof -
  note defaults = connection_settings [of "getenv_of env_var" st, folded chosen_or_def]
    log_setting [of "getenv_of env_var" st, folded chosen_or_def] tenant_setting [of "getenv_of env_var" st, folded chosen_or_def]
  from start_plan_planned [OF assms] obtain d where d:
    "fst (windows_device_id (getenv_of env_var) env_var (s_device_id st) create_dir nanos write file) = Inr d"
    and p: "planned env_var st cache_client (Inr d) su" by (auto simp: planned_def)
  have "su_device su = d" using p by (auto simp: planned_def su_device_def split: option.split)
  with d have dev: "case chosen env_var ''NOTIFY_DEVICE_ID'' (s_device_id st) of
       Some v \<Rightarrow> su_device su = v
     | None \<Rightarrow> fst (windows_device_id (\<lambda>_. None) env_var None create_dir nanos write file) = Inr (su_device su)"
    unfolding persisted_device [of "getenv_of env_var"] resolved_chosen by (auto split: option.splits)
  have config: "su_config su = settings_agent_config (getenv_of env_var) st" using p by (auto simp: planned_def)
  have "case su_identity su of
       Device_Code dc \<Rightarrow> Some (client_id dc) = chosen env_var ''NOTIFY_AAD_CLIENT_ID'' (s_aad_client_id st) \<and>
         Some (tenant dc) = chosen_or env_var ''NOTIFY_AAD_TENANT_ID'' (s_aad_tenant_id st) ''organizations''
     | Windows_Username d \<Rightarrow> chosen env_var ''NOTIFY_AAD_CLIENT_ID'' (s_aad_client_id st) = None"
    using p defaults(5) by (auto simp: planned_def resolved_chosen split: option.splits)
  moreover have "case su_auth su of
       External_Service u p \<Rightarrow>
         Some u = chosen env_var ''NOTIFY_NATS_AUTH_SERVICE_URL'' (s_nats_auth_service_url st) \<and>
         Some (aad_scope p) = chosen env_var ''NOTIFY_NATS_AUTH_SERVICE_SCOPE'' (s_nats_auth_service_scope st)
     | Creds_File c \<Rightarrow> chosen env_var ''NOTIFY_NATS_AUTH_SERVICE_URL'' (s_nats_auth_service_url st) = None \<and>
         Some (creds_path c) = chosen env_var ''NOTIFY_NATS_CREDS_FILE'' (s_nats_creds_file st)
     | Unauthenticated \<Rightarrow> chosen env_var ''NOTIFY_NATS_AUTH_SERVICE_URL'' (s_nats_auth_service_url st) = None \<and>
         chosen env_var ''NOTIFY_NATS_CREDS_FILE'' (s_nats_creds_file st) = None"
    using p by (auto simp: planned_def resolved_chosen aad_token_provider_new_def split: option.splits)
  ultimately show ?thesis using dev defaults(1-4) unfolding config by blast
qed

definition example_vars :: "rstring \<Rightarrow> rstring + rstring" where
  "example_vars k = (if k = str ''LOCALAPPDATA'' then Inr (str ''L'') else if k = str ''NOTIFY_NATS_CREDS_FILE'' then Inr (str '' f '') else Inl [])"

theorem settings_precedence_witness:
  "\<exists>su. start_plan example_vars (settings_default\<lparr>s_device_id := Some (str ''d-1'')\<rparr>) True (Inr (str ''d-1'')) True (Inr ()) = Some (Inr su) \<and>
     su_device su = str ''d-1'' \<and> (\<exists>c. su_auth su = Creds_File c \<and> creds_path c = str ''f'')"
proof -
  let ?st = "settings_default\<lparr>s_device_id := Some (str ''d-1'')\<rparr>"
  let ?dev = "fst (windows_device_id (getenv_of example_vars) example_vars (s_device_id ?st) (Inr ()) (Inr 1) (Inr ()) None)"
  have dev: "?dev = Inr (str ''d-1'')" by code_simp
  have creds: "opt_creds example_vars ?st = Some (str ''f'')" by code_simp
  have none: "opt_url example_vars ?st = None" "opt_client example_vars ?st = None" by code_simp+
  obtain images where "renderer_new True example_vars = Some (Inr images)"
    by (simp add: renderer_new_def example_vars_def image_cache_new_def with_options_def)
  then obtain su where su: "start_plan example_vars ?st True ?dev True (Inr ()) = Some (Inr su)" "su_auth su = Creds_File \<lparr>creds_path = str ''f''\<rparr>"
    using dev creds none by (simp add: start_plan_def Let_def validate_auth_service_config_def)
  have "chosen example_vars ''NOTIFY_DEVICE_ID'' (s_device_id ?st) = Some (str ''d-1'')" by code_simp
  with settings_precedence [OF su(1)] su dev show ?thesis by auto
qed

lemma hex_digit_not_space: "d < 16 \<Longrightarrow> \<not> is_whitespace (hex_digit 97 d)"
  by (auto simp: hex_digit_def is_whitespace_def)

lemma hex_str_no_space: "\<forall>c \<in> set (hex_str n). \<not> is_whitespace c"
proof (induction n rule: hex_str.induct)
  case (1 n)
  then show ?case by (cases "n < 16") (auto simp: hex_str.simps [of n] hex_digit_not_space)
qed

lemma trim_no_space: "\<forall>c \<in> set s. \<not> is_whitespace c \<Longrightarrow> trim s = s"
proof -
  assume plain: "\<forall>c \<in> set s. \<not> is_whitespace c"
  have "dropWhile is_whitespace xs = xs" if "\<forall>c \<in> set xs. \<not> is_whitespace c" for xs
    using that by (cases xs) auto
  from this [of s] this [of "rev s"] plain show ?thesis by (simp add: trim_def)
qed

lemma fresh_device_id: "trim (str ''d-'' @ hex_str n) = str ''d-'' @ hex_str n"
  by (rule trim_no_space) (use hex_str_no_space in \<open>auto simp: str_def is_whitespace_def\<close>)



text \<open>
  A toast's image never decides its fate: whatever the image cache does, the platform is asked to show the document that reads as
  the toast's content, with the image element exactly when a local file was obtained, and its answer
  is the renderer's answer.
\<close>

theorem windows_show_document:
  "\<exists>xml path c'. windows_show p (fetch p digest opts http fs list_dir removable dropped_at) platform toast c = (platform xml, c') \<and>
     read_xml xml = toast_tokens p toast path \<and>
     path = Option.bind (t_image toast) (\<lambda>i. fst (fetch p digest opts http fs list_dir removable dropped_at (img_url i) c))"
proof -
  have read: "read_xml (build_toast_xml p toast path) = toast_tokens p toast path" for path
    by (rule read_built)
  show ?thesis
  proof (cases "t_image toast")
    case None
    then show ?thesis
      using read [of None] by (intro exI [of _ "build_toast_xml p toast None"] exI [of _ None]) (simp add: windows_show_def)
  next
    case (Some i)
    obtain path c' where "fetch p digest opts http fs list_dir removable dropped_at (img_url i) c = (path, c')" by fastforce
    with Some read show ?thesis by (auto simp: windows_show_def)
  qed
qed

end
