(* ===== verification/Windows_Process.thy ===== *)
theory Windows_Process
  imports Windows_Head
begin

section \<open>The Windows head: the process (\<^verbatim>\<open>main.rs\<close>)\<close>

text \<open>
  \<^verbatim>\<open>run\<close>: the single instance, the registration of the application id, the settings, the log sinks, the tray, the agent's thread and the message
  pump. The answers of the system are collected in \<open>run_world\<close>; what the process does to its surroundings before the pump starts
  is a list of effects. \<open>None\<close> is a panic.
\<close>

definition AUMID :: rstring where
  "AUMID = str ''NotifyAgent.Rust''"

definition aumid_key :: rstring where
  "aumid_key = str ''Software'' @ [92] @ str ''Classes'' @ [92] @ str ''AppUserModelId'' @ [92] @ AUMID"

definition register_aumid ::
  "(rstring \<Rightarrow> rstring + 'k) \<Rightarrow> ('k \<Rightarrow> rstring \<Rightarrow> rstring \<Rightarrow> rstring + unit) \<Rightarrow> rstring + unit" where
  "register_aumid create_subkey set_value =
     (case create_subkey aumid_key of Inl e \<Rightarrow> Inl e | Inr key \<Rightarrow>
      case set_value key (str ''DisplayName'') (str ''Desktop Notification Agent (Rust)'') of Inl e \<Rightarrow> Inl e | Inr _ \<Rightarrow> Inr ())"

text \<open>The \<^verbatim>\<open>main\<close> of a build for another system: what it prints, and its exit code.\<close>

definition unsupported_main :: "rstring \<times> nat" where
  "unsupported_main = (str ''notify-agent-windows only runs on Windows. Build with --target x86_64-pc-windows-gnu.'', 2)"

text \<open>\<open>daily\<close> is \<^verbatim>\<open>rolling::daily\<close>, which panics if it cannot open the log file.\<close>

definition file_log_writer ::
  "(rstring \<Rightarrow> rstring + rstring) \<Rightarrow> (rstring \<Rightarrow> rstring + unit) \<Rightarrow> (rstring \<Rightarrow> rstring \<Rightarrow> bool) \<Rightarrow> (rstring + rstring) option" where
  "file_log_writer env_var create_dir_all daily =
     (case env_var (str ''LOCALAPPDATA'') of Inl e \<Rightarrow> Some (Inl e) | Inr local \<Rightarrow>
      let dir = app_dir local ''logs'' in
      case create_dir_all dir of Inl e \<Rightarrow> Some (Inl e) | Inr _ \<Rightarrow>
      if daily dir (str ''agent.log'') then Some (Inr dir) else None)"

datatype log_sink = Stdout | Log_File rstring

datatype 'f effect =
    Registered
  | Log_Installed "log_sink list" 'f
  | Warned rstring
  | Log_Enabled rstring
  | Tray_Calls "win_call list"
  | Log_Flushed

record 'f run_world =
  mutex :: "rstring + bool"
  create_subkey :: "rstring \<Rightarrow> rstring + rstring"
  set_value :: "rstring \<Rightarrow> rstring \<Rightarrow> rstring \<Rightarrow> rstring + unit"
  env_var :: "rstring \<Rightarrow> rstring + rstring"
  json_from_str :: "rstring \<Rightarrow> rstring + settings"
  read_to_string :: "rstring \<Rightarrow> io_error + rstring"
  try_new :: "rstring \<Rightarrow> 'f option"
  info_filter :: 'f
  create_dir_all :: "rstring \<Rightarrow> rstring + unit"
  daily :: "rstring \<Rightarrow> rstring \<Rightarrow> bool"
  build_version :: rstring
  tray_answers :: create_answers

record 'f running =
  r_settings :: settings
  r_tray :: tray
  r_sinks :: "log_sink list"
  r_filter :: 'f

text \<open>
  \<^verbatim>\<open>run\<close> up to the message pump. \<open>Inr None\<close> is the early, successful return of a second instance.
\<close>

definition run_start :: "'f run_world \<Rightarrow> ('f effect list \<times> (rstring + 'f running option)) option" where
  "run_start w =
     (case mutex w of Inl e \<Rightarrow> Some ([], Inl e) | Inr already_exists \<Rightarrow>
      if already_exists then Some ([], Inr None) else
      case register_aumid (create_subkey w) (set_value w) of Inl e \<Rightarrow> Some ([], Inl e) | Inr _ \<Rightarrow>
      let (st, settings_diagnostics) = load (json_from_str w) (read_to_string w) (env_var w);
          log_filter = resolve_log_filter (try_new w) (info_filter w) (getenv_of (env_var w)) st
      in Option.bind (file_log_writer (env_var w) (create_dir_all w) (daily w)) (\<lambda>file_log_result.
      let file_log_error = (case file_log_result of Inl e \<Rightarrow> Some e | Inr _ \<Rightarrow> None);
          (guard, sinks, log_dir) =
            (case file_log_result of
               Inr dir \<Rightarrow> (True, [Stdout, Log_File dir], Some dir)
             | Inl _ \<Rightarrow> (False, [Stdout], None));
          effects = [Registered, Log_Installed sinks log_filter] @ map Warned settings_diagnostics
      in Option.bind
           (case log_dir of
              Some dir \<Rightarrow> Some (effects @ [Log_Enabled dir])
            | None \<Rightarrow> (case file_log_error of Some error \<Rightarrow> Some (effects @ [Warned error]) | None \<Rightarrow> None))
           (\<lambda>effects.
      Option.bind (create (build_version w) (tray_answers w) guard) (\<lambda>(tray, made, flushed).
        let effects = effects @ [Tray_Calls made] @ (if flushed then [Log_Flushed] else []) in
        case tray of
          Inl e \<Rightarrow> Some (effects, Inl e)
        | Inr t \<Rightarrow> Some (effects, Inr (Some \<lparr>r_settings = st, r_tray = t, r_sinks = sinks, r_filter = log_filter\<rparr>))))))"

text \<open>
  The agent's thread: the runtime may fail to build, which ends the thread; else the agent runs, and an error of its start or its shutdown marks the
  tray. In both cases the watcher's receiver is released: by the report, or by the dropped sender. The result is the calls on
  the tray and, if the thread ran to its end, the outcome it reported.
\<close>

definition agent_thread ::
  "bool \<Rightarrow> rstring + agent_host \<Rightarrow> (agent_host \<Rightarrow> rstring + unit) \<Rightarrow> (win_call list \<times> (rstring + unit) option) option" where
  "agent_thread runtime_built started shutdown =
     (if \<not> runtime_built then Some ([], None)
      else Option.bind (run_agent started shutdown) (\<lambda>(made, result).
        case result of
          Inl e \<Rightarrow> Option.bind set_start_failed (\<lambda>c. Some (made @ [c], Some (Inl e)))
        | Inr _ \<Rightarrow> Some (made, Some (Inr ()))))"

subsection \<open>Properties\<close>

lemma file_log_Some: "(\<And>d f. open_log d f) \<Longrightarrow> \<exists>r. file_log_writer vars create_dirs open_log = Some r"
  by (auto simp: file_log_writer_def Let_def split: sum.split)

definition sinks_of :: "rstring + rstring \<Rightarrow> log_sink list" where
  "sinks_of fl = (case fl of Inr dir \<Rightarrow> [Stdout, Log_File dir] | Inl _ \<Rightarrow> [Stdout])"

lemma run_start_first:
  assumes "mutex w = Inr False" and "register_aumid (create_subkey w) (set_value w) = Inr ()"
    and "file_log_writer (env_var w) (create_dir_all w) (daily w) = Some fl"
    and "load (json_from_str w) (read_to_string w) (env_var w) = (st, ds)"
    and "create (build_version w) (tray_answers w) (\<not> isl fl) = Some (r, made, flushed)"
  shows "run_start w = Some
    ([Registered, Log_Installed (sinks_of fl) (resolve_log_filter (try_new w) (info_filter w) (getenv_of (env_var w)) st)] @
       map Warned ds @ [case fl of Inr dir \<Rightarrow> Log_Enabled dir | Inl e \<Rightarrow> Warned e] @ [Tray_Calls made] @
       (if flushed then [Log_Flushed] else []),
     map_sum id (\<lambda>t. Some \<lparr>r_settings = st, r_tray = t, r_sinks = sinks_of fl,
       r_filter = resolve_log_filter (try_new w) (info_filter w) (getenv_of (env_var w)) st\<rparr>) r)"
  using assms by (cases fl; cases r) (simp_all add: run_start_def Let_def sinks_of_def)

lemma run_start_result:
  assumes "\<And>d f. daily w d f"
  shows "\<exists>eff r. run_start w = Some (eff, r) \<and>
    ((\<exists>p. r = Inr (Some p)) \<longleftrightarrow> mutex w = Inr False \<and> register_aumid (create_subkey w) (set_value w) = Inr () \<and>
       (\<exists>t made fl guard. create (build_version w) (tray_answers w) guard = Some (Inr t, made, fl))) \<and>
    (case r of
       Inl e \<Rightarrow> mutex w \<noteq> Inr True
     | Inr None \<Rightarrow> mutex w = Inr True \<and> eff = []
     | Inr (Some p) \<Rightarrow>
         (let (st, diagnostics) = load (json_from_str w) (read_to_string w) (env_var w) in
          r_settings p = st \<and> r_filter p = resolve_log_filter (try_new w) (info_filter w) (getenv_of (env_var w)) st \<and>
          Log_Installed (r_sinks p) (r_filter p) \<in> set eff \<and> set (map Warned diagnostics) \<subseteq> set eff) \<and>
         (file_guard (r_tray p) \<longleftrightarrow> (\<exists>dir. Log_File dir \<in> set (r_sinks p))) \<and>
         attached (r_tray p) \<and> done_rx (r_tray p) \<and> watcher (r_tray p) = None)"
proof -
  obtain fl where fl: "file_log_writer (env_var w) (create_dir_all w) (daily w) = Some fl"
    using file_log_Some [of "daily w"] assms by blast
  obtain st ds where load: "load (json_from_str w) (read_to_string w) (env_var w) = (st, ds)" by fastforce
  consider "mutex w \<noteq> Inr False" | e where "mutex w = Inr False" "register_aumid (create_subkey w) (set_value w) = Inl e"
    | "mutex w = Inr False" "register_aumid (create_subkey w) (set_value w) = Inr ()"
    by (metis old.unit.exhaust sumE)
  then show ?thesis
  proof cases
    case 1
    then show ?thesis by (auto simp: run_start_def split: sum.split)
  next
    case 2
    then show ?thesis by (simp add: run_start_def)
  next
    case 3
    obtain r made flushed where c: "create (build_version w) (tray_answers w) (\<not> isl fl) = Some (r, made, flushed)"
      using create_Some by blast
    have iff: "(\<exists>t. r = Inr t) \<longleftrightarrow> (\<exists>t made fl guard. create (build_version w) (tray_answers w) guard = Some (Inr t, made, fl))"
      using create_Inr_iff [of "build_version w" "tray_answers w"] c by (metis option.inject prod.inject)
    have sinks: "(\<exists>dir. Log_File dir \<in> set (sinks_of fl)) \<longleftrightarrow> \<not> isl fl" by (cases fl) (auto simp: sinks_of_def)
    show ?thesis
    proof (cases r)
      case (Inl e)
      with 3 iff show ?thesis unfolding run_start_first [OF 3 fl load c] by simp
    next
      case (Inr t)
      with 3 iff create_Inr [OF c [unfolded Inr]] sinks load show ?thesis unfolding run_start_first [OF 3 fl load c] by auto
    qed
  qed
qed

text \<open>
  Starting the Windows process: provided the log file can be opened, it never panics. It runs exactly when it is the first instance,
  the application id is registered and the tray is created, each in that order; then it has the settings that were loaded, the log level and
  sinks they ask for, has reported every diagnostic of the settings, and the tray holds the log's guard exactly if there is a
  file log. A second instance returns at once without doing anything.
\<close>

theorem run_start_outcome:
  assumes "\<And>d f. daily w d f"
  shows "\<exists>eff r. run_start w = Some (eff, r) \<and>
    ((\<exists>p. r = Inr (Some p)) \<longleftrightarrow> mutex w = Inr False \<and> register_aumid (create_subkey w) (set_value w) = Inr () \<and>
       (\<exists>t made fl guard. create (build_version w) (tray_answers w) guard = Some (Inr t, made, fl))) \<and>
    (case r of
       Inl e \<Rightarrow> mutex w \<noteq> Inr True
     | Inr None \<Rightarrow> mutex w = Inr True \<and> eff = []
     | Inr (Some p) \<Rightarrow>
         (let (st, diagnostics) = load (json_from_str w) (read_to_string w) (env_var w) in
          r_settings p = st \<and> r_filter p = resolve_log_filter (try_new w) (info_filter w) (getenv_of (env_var w)) st \<and>
          Log_Installed (r_sinks p) (r_filter p) \<in> set eff \<and> set (map Warned diagnostics) \<subseteq> set eff) \<and>
         (file_guard (r_tray p) \<longleftrightarrow> (\<exists>dir. Log_File dir \<in> set (r_sinks p))) \<and>
         attached (r_tray p) \<and> done_rx (r_tray p) \<and> watcher (r_tray p) = None)"
  using assms by (rule run_start_result)

text \<open>
  The agent's thread never panics by itself once its runtime is built, and the tray says that the agent failed exactly if it ended with an
  error: with two updates if the start failed, with one if the shutdown did.
\<close>

theorem agent_thread_outcome:
  "\<exists>made. agent_thread True started shutdown =
      Some (made, Some (case started of Inl e \<Rightarrow> Inl e | Inr h \<Rightarrow> shutdown h)) \<and>
    (made \<noteq> [] \<longleftrightarrow> (\<exists>e. (case started of Inl e \<Rightarrow> Inl e | Inr h \<Rightarrow> shutdown h) = Inl e)) \<and>
    length made = (case started of Inl e \<Rightarrow> 2 | Inr h \<Rightarrow> case shutdown h of Inl e \<Rightarrow> 1 | Inr _ \<Rightarrow> 0)"
proof -
  obtain c where c: "set_start_failed = Some c"
    using set_tip_Some [of "replicate 128 0" "BASE_TOOLTIP @ str '' (agent failed to start)''"] by (auto simp: set_start_failed_def)
  show ?thesis
    by (cases started) (auto simp: agent_thread_def run_agent_def c split: sum.splits)
qed

definition logs_to_file :: "'f running \<Rightarrow> bool" where
  "logs_to_file p \<longleftrightarrow> (\<exists>dir. Log_File dir \<in> set (r_sinks p))"

lemma run_start_running:
  assumes a: "run_start w = Some (eff, Inr (Some p))"
  shows "attached (r_tray p) \<and> done_rx (r_tray p) \<and> file_guard (r_tray p) = logs_to_file p"
proof -
  have first: "mutex w = Inr False" using a by (cases "mutex w") (auto simp: run_start_def split: if_splits)
  have reg: "register_aumid (create_subkey w) (set_value w) = Inr ()"
    using a first by (cases "register_aumid (create_subkey w) (set_value w)") (auto simp: run_start_def)
  obtain st ds where load: "load (json_from_str w) (read_to_string w) (env_var w) = (st, ds)" by fastforce
  obtain fl where fl: "file_log_writer (env_var w) (create_dir_all w) (daily w) = Some fl"
    using a first reg load by (cases "file_log_writer (env_var w) (create_dir_all w) (daily w)") (simp_all add: run_start_def Let_def)
  obtain r made flushed where c: "create (build_version w) (tray_answers w) (\<not> isl fl) = Some (r, made, flushed)"
    using create_Some by blast
  from a run_start_first [OF first reg fl load c] obtain t where t: "r = Inr t" "r_tray p = t" "r_sinks p = sinks_of fl"
    by (cases r) auto
  have "(\<exists>dir. Log_File dir \<in> set (sinks_of fl)) \<longleftrightarrow> \<not> isl fl" by (cases fl) (auto simp: sinks_of_def)
  with create_Inr [OF c [unfolded t(1)]] t(2,3) show ?thesis by (simp add: logs_to_file_def)
qed

text \<open>
  Property C21. The Windows process ends when the user closes it: once it runs, after any messages, the first Close command makes it exit, not before the click, no later than five
  seconds afterwards, at once if the agent has reported by then and else as soon as it does. If there is a file log, and only then, it is flushed before the exit, which comes later
  by the time \<open>f\<close> the flush takes. Whatever the agent does, hangs, panics or fails, does not matter for that.
\<close>

theorem windows_process_ends:
  assumes "run_start w = Some (eff, Inr (Some p))"
    and "list_all (\<lambda>x. 0 < fst x \<and> \<not> is_close (snd x)) before" and "is_close m" and "0 < got"
  shows "\<exists>x e. watcher (snd (run_message_loop (before @ (got, m) # after) (r_tray p))) = Some x \<and>
    Send_Close \<in> set (calls (snd (run_message_loop (before @ (got, m) # after) (r_tray p)))) \<and>
    watcher_exit x reported (Some f) = Some (e, logs_to_file p) \<and>
    msg_at m \<le> e \<and> e \<le> msg_at m + from_secs 5 + (if logs_to_file p then f else 0) \<and>
    (case reported of None \<Rightarrow> True
     | Some d \<Rightarrow> e \<le> max (msg_at m) d + (if logs_to_file p then f else 0))"
proof -
  have p: "attached (r_tray p)" "done_rx (r_tray p)" "file_guard (r_tray p) = logs_to_file p"
    using run_start_running [OF assms(1)] by simp_all
  from close_watched [OF p(1,2) assms(2-4), of after reported f] show ?thesis unfolding p(3) by blast
qed

subsection \<open>Examples\<close>

definition example_answers :: create_answers where
  "example_answers = \<lparr>module_handle = Inr (), load_cursor = Inr (), register_class = 1, last_error = [], popup_menu = Inr (),
     append_menu = (\<lambda>_. Inr ()), load_image = (\<lambda>_ _ _. Inr ()), small_icon = (16, 16), create_window = Inr (), notify_add = Inr ()\<rparr>"

definition example_world :: "unit run_world" where
  "example_world = \<lparr>mutex = Inr False, create_subkey = Inr, set_value = (\<lambda>_ _ _. Inr ()),
     env_var = (\<lambda>k. if k = str ''LOCALAPPDATA'' then Inr (str ''L'') else Inl []), json_from_str = Inl,
     read_to_string = (\<lambda>_. Inr []), try_new = (\<lambda>_. Some ()), info_filter = (), create_dir_all = (\<lambda>_. Inr ()),
     daily = (\<lambda>_ _. True), build_version = str ''0.1.0'', tray_answers = example_answers\<rparr>"

lemma example_world_starts: "\<exists>eff p. run_start example_world = Some (eff, Inr (Some p))"
proof -
  have "\<exists>t made fl. create (str ''0.1.0'') example_answers True = Some (Inr t, made, fl)"
    unfolding create_Inr_iff by (simp add: example_answers_def menu_items_def)
  then obtain t made fl where "create (build_version example_world) (tray_answers example_world) (\<not> isl (Inr (app_dir (str ''L'') ''logs'') :: rstring + rstring)) =
      Some (Inr t, made, fl)" by (auto simp: example_world_def)
  moreover have "file_log_writer (env_var example_world) (create_dir_all example_world) (daily example_world) =
      Some (Inr (app_dir (str ''L'') ''logs''))" by (simp add: example_world_def file_log_writer_def)
  moreover obtain st ds where "load (json_from_str example_world) (read_to_string example_world) (env_var example_world) = (st, ds)"
    by fastforce
  moreover have "mutex example_world = Inr False" "register_aumid (create_subkey example_world) (set_value example_world) = Inr ()"
    by (simp_all add: example_world_def register_aumid_def)
  ultimately show ?thesis using run_start_first [of example_world] by fastforce
qed

theorem run_start_outcome_witness:
  "\<exists>eff p. run_start example_world = Some (eff, Inr (Some p)) \<and> attached (r_tray p) \<and>
     (file_guard (r_tray p) \<longleftrightarrow> (\<exists>dir. Log_File dir \<in> set (r_sinks p)))"
proof -
  have "daily example_world d f" for d f by (simp add: example_world_def)
  from run_start_outcome [of example_world, OF this] example_world_starts show ?thesis by auto
qed

theorem windows_process_ends_witness:
  "\<exists>eff p x e fl. run_start example_world = Some (eff, Inr (Some p)) \<and>
     watcher (snd (run_message_loop [(1, click_close 7)] (r_tray p))) = Some x \<and>
     watcher_exit x (Some 3) (Some 100) = Some (e, fl) \<and> 7 \<le> e \<and> e \<le> 107"
proof -
  obtain eff p where p: "run_start example_world = Some (eff, Inr (Some p))" using example_world_starts by blast
  have "is_close (click_close 7)" by (simp add: is_close_def click_close_def ID_MENU_CLOSE_def)
  from windows_process_ends [OF p, of "[]" "click_close 7" 1 "[]" "Some 3" 100] this
  obtain x e fl where x: "watcher (snd (run_message_loop [(1, click_close 7)] (r_tray p))) = Some x"
    "watcher_exit x (Some 3) (Some 100) = Some (e, fl)" "7 \<le> e" "e \<le> 7 + (if fl then 100 else 0)"
    by (auto simp: click_close_def)
  have "e \<le> 107" using x(4) by (cases fl) auto
  with p x(1-3) show ?thesis by blast
qed

end
