(* ===== verification/Console_Head.thy ===== *)
theory Console_Head
  imports Host Nats_Auth
begin

section \<open>The console head (\<^verbatim>\<open>notify-agent-console/src/main.rs\<close>)\<close>

text \<open>
  The development head: a renderer that prints, and the choice of identity and authentication from the environment.
  Printing is the list of lines written.
\<close>

definition console_lines :: "toast_request \<Rightarrow> rstring list" where
  "console_lines toast =
     [str ''[TOAST] '' @ t_title toast, str ''        '' @ t_message toast] @
     (case attribution toast of
        None \<Rightarrow> []
      | Some a \<Rightarrow> [str ''        '' @ [8212] @ str '' '' @ a]) @
     (case t_image toast of
        None \<Rightarrow> []
      | Some img \<Rightarrow>
          let shape = (case img_shape img of Circle \<Rightarrow> str ''circle'' | Square \<Rightarrow> str ''square'') in
          [str ''        [image] '' @ img_url img @ str '' ('' @ shape @ str '')'']) @
     (case (t_action_label toast, t_action_url toast) of
        (Some label, Some url) \<Rightarrow> [str ''        ['' @ label @ str ''] -> '' @ url]
      | _ \<Rightarrow> [])"

definition console_show :: "datetime \<Rightarrow> toast_request \<Rightarrow> rstring list \<Rightarrow> (rstring + datetime) \<times> rstring list" where
  "console_show now toast out = (Inr now, out @ console_lines toast)"

datatype console_identity = Console_Device_Code device_code_identity | Console_Env

definition console_identity_mode :: "ucd \<Rightarrow> getenv \<Rightarrow> rstring \<Rightarrow> console_identity" where
  "console_identity_mode u env hostname =
     (case env (str ''NOTIFY_AAD_CLIENT_ID'') of
        Some cid \<Rightarrow>
          if trim cid \<noteq> [] then
            Console_Device_Code \<lparr>client_id = cid,
              tenant = (case env (str ''NOTIFY_AAD_TENANT_ID'') of None \<Rightarrow> str ''organizations'' | Some t \<Rightarrow> t),
              dc_device_id = (case env (str ''NOTIFY_DEVICE_ID'') of
                  Some d \<Rightarrow> if d \<noteq> [] then d else default_device_id u hostname
                | None \<Rightarrow> default_device_id u hostname),
              extra_scopes = [], has_sink = False\<rparr>
          else Console_Env
      | None \<Rightarrow> Console_Env)"

definition console_auth :: "getenv \<Rightarrow> creds_file_auth option" where
  "console_auth env = map_option (\<lambda>p. \<lparr>creds_path = p\<rparr>) (non_blank (env (str ''NOTIFY_NATS_CREDS_FILE'')))"

text \<open>
  \<^verbatim>\<open>main\<close> up to the running host. \<open>sign_in\<close> is the device-code sign-in of a given identity, \<open>load_creds\<close> the client
  library's credentials loader, \<open>plain\<close> its default options.
\<close>

definition console_start ::
  "ucd \<Rightarrow> getenv \<Rightarrow> rstring \<Rightarrow> (device_code_identity \<Rightarrow> rstring + agent_identity) \<Rightarrow> (rstring \<Rightarrow> rstring + 'opts) \<Rightarrow> 'opts \<Rightarrow>
     ('opts \<Rightarrow> rstring \<Rightarrow> rstring + unit) \<Rightarrow> (rstring \<Rightarrow> rstring + unit) \<Rightarrow> instant \<Rightarrow> (rstring + agent_host) option" where
  "console_start u env hostname sign_in load_creds plain connect subscribe now =
     (let who = (case console_identity_mode u env hostname of
            Console_Device_Code dc \<Rightarrow> sign_in dc
          | Console_Env \<Rightarrow> env_identity u env hostname);
          auth = map_option (creds_connect_options load_creds) (console_auth env)
      in host_start (from_env env) who auth plain connect subscribe now)"

text \<open>
  \<^verbatim>\<open>main\<close>: the lines it prints itself, and its result. \<open>ctrl_c\<close> is the outcome of the wait for Ctrl+C, \<open>shutdown\<close> that of the host's shutdown.
\<close>

definition console_main ::
  "ucd \<Rightarrow> getenv \<Rightarrow> rstring \<Rightarrow> (device_code_identity \<Rightarrow> rstring + agent_identity) \<Rightarrow> (rstring \<Rightarrow> rstring + 'opts) \<Rightarrow> 'opts \<Rightarrow>
     ('opts \<Rightarrow> rstring \<Rightarrow> rstring + unit) \<Rightarrow> (rstring \<Rightarrow> rstring + unit) \<Rightarrow> instant \<Rightarrow> rstring + unit \<Rightarrow>
     (agent_host \<Rightarrow> rstring + unit) \<Rightarrow> (rstring list \<times> (rstring + unit)) option" where
  "console_main u env hostname sign_in load_creds plain connect subscribe now ctrl_c shutdown =
     Option.bind (console_start u env hostname sign_in load_creds plain connect subscribe now) (\<lambda>started.
       case started of
         Inl e \<Rightarrow> Some ([], Inl e)
       | Inr host \<Rightarrow>
           let out = [str ''Agent subscribed to '' @ subject host @ str '' on '' @ nats_url (from_env env) @ str ''. Ctrl+C to exit.''] in
           (case ctrl_c of
              Inl e \<Rightarrow> Some (out, Inl e)
            | Inr _ \<Rightarrow> Some (out @ [str ''Shutting down.''], shutdown host)))"

lemma host_start_total: "\<exists>r. host_start cfg identity auth plain connect subscribe now = Some r"
  using host_start_result [of cfg identity auth plain connect subscribe now] by (elim exE conjE) (rule exI)

text \<open>
  The console program never panics, and it ends with success exactly when the host started, Ctrl+C was awaited and the shutdown,
  which is run only then, succeeded; then and only then it has announced both the subscription and the shutdown.
\<close>

lemma console_main_outcome:
  "\<exists>out r. console_main u env hostname sign_in load_creds plain connect subscribe now ctrl_c shutdown = Some (out, r) \<and>
     (r = Inr () \<longleftrightarrow> (\<exists>h. console_start u env hostname sign_in load_creds plain connect subscribe now = Some (Inr h) \<and>
        ctrl_c = Inr () \<and> shutdown h = Inr ())) \<and>
     (length out = 2 \<longleftrightarrow> (\<exists>h. console_start u env hostname sign_in load_creds plain connect subscribe now = Some (Inr h)) \<and> ctrl_c = Inr ())"
proof -
  have "\<exists>r. console_start u env hostname sign_in load_creds plain connect subscribe now = Some r"
    unfolding console_start_def Let_def by (rule host_start_total)
  then obtain r where r: "console_start u env hostname sign_in load_creds plain connect subscribe now = Some r" by blast
  show ?thesis by (cases r; cases ctrl_c) (auto simp: console_main_def r)
qed

text \<open>
  The console shows every part of a toast: the title and message lines, then one line each for the
  attribution, the image and the action that are present.
\<close>

lemma console_lines_count:
  "length (console_lines t) = 2 + (if attribution t = None then 0 else 1) + (if t_image t = None then 0 else 1) +
     (if t_action_label t = None \<or> t_action_url t = None then 0 else 1)"
  by (auto simp: console_lines_def Let_def split: option.split)

text \<open>
  The console head subscribes for the user of the environment: without an AAD client id, a run that starts has
  \<^verbatim>\<open>NOTIFY_USER_ID\<close>, not blank, in its subject, and without that variable it does not start; with an AAD client id
  it signs in with the device code instead, whatever \<^verbatim>\<open>NOTIFY_USER_ID\<close> says.
\<close>

theorem console_start_identity:
  assumes "console_start u env hostname sign_in load_creds plain connect subscribe now = Some (Inr h)"
  shows "\<exists>who. subject h = replace_str (str ''{0}'') (id_user_id who) (subject_template (from_env env)) \<and>
    device_id (agent h) = id_device_id who \<and>
    (case non_blank (env (str ''NOTIFY_AAD_CLIENT_ID'')) of
       None \<Rightarrow> non_blank (env (str ''NOTIFY_USER_ID'')) = Some (id_user_id who)
     | Some cid \<Rightarrow> \<exists>dc. sign_in dc = Inr who \<and> client_id dc = cid)"
proof -
  define who where "who = (case console_identity_mode u env hostname of
      Console_Device_Code dc \<Rightarrow> sign_in dc | Console_Env \<Rightarrow> env_identity u env hostname)"
  obtain i where i: "who = Inr i"
    "subject h = replace_str (str ''{0}'') (id_user_id i) (subject_template (from_env env))"
    "device_id (agent h) = id_device_id i"
    using host_start_started [of "from_env env" who "map_option (creds_connect_options load_creds) (console_auth env)"
        plain connect subscribe now h] assms
    by (auto simp: console_start_def who_def Let_def)
  then show ?thesis
    by (auto simp: who_def console_identity_mode_def non_blank_def env_identity_def Let_def
        split: option.splits if_splits intro!: exI [of _ i])
qed

theorem console_start_identity_witness:
  "\<exists>h. console_start ascii_ucd (\<lambda>k. if k = str ''NOTIFY_USER_ID'' then Some (str ''alice'') else None) (str ''pc'')
       (\<lambda>_. Inl []) (\<lambda>_. Inl []) () (\<lambda>_ _. Inr ()) (\<lambda>_. Inr ()) 0 = Some (Inr h) \<and>
     subject h = str ''notify.user.alice.desktop''"
proof -
  let ?env = "\<lambda>k. if k = str ''NOTIFY_USER_ID'' then Some (str ''alice'') else None"
  let ?start = "console_start ascii_ucd ?env (str ''pc'') (\<lambda>_. Inl []) (\<lambda>_. Inl []) () (\<lambda>_ _. Inr ()) (\<lambda>_. Inr ()) 0"
  have name: "non_blank (?env (str ''NOTIFY_USER_ID'')) = Some (str ''alice'')" by code_simp
  have none: "?env (str ''NOTIFY_AAD_CLIENT_ID'') = None" "?env (str ''NOTIFY_NATS_CREDS_FILE'') = None"
    by (simp_all add: str_def)
  have "\<exists>h. ?start = Some (Inr h)"
    using host_start_result [of "from_env ?env" "env_identity ascii_ucd ?env (str ''pc'')" None "()" "\<lambda>_ _. Inr ()" "\<lambda>_. Inr ()" 0]
      name none
    by (auto simp: console_start_def console_identity_mode_def console_auth_def env_identity_def Let_def)
  then obtain h where h: "?start = Some (Inr h)" by blast
  have template: "replace_str (str ''{0}'') (str ''alice'') (subject_template (from_env ?env)) = str ''notify.user.alice.desktop''"
    by code_simp
  show ?thesis using h console_start_identity [OF h] name none(1) template by auto
qed

end
