(* ===== verification/Agent_Trace.thy ===== *)
theory Agent_Trace
  imports Pipeline
begin

section \<open>Traces of the agent: what becomes of every event\<close>

text \<open>
  The steps of the agent are labelled with what they do to an event. A trace is the list of labels of
  a run; a run of the agent and a trace are two views of the same steps. The multisets of events a trace
  has queued, parsed, admitted, observed, offered, lost, shown, refused and submitted are the
  books of the agent, and the balance equations say where each event is.
\<close>

datatype event =
    Queued received_event
  | Overflowed received_event
  | Invalid received_event parse_error
  | Accepted received_event inbound_notification
  | Decided instant inbound_notification bool
  | Observed_Ack inbound_notification
  | Offered inbound_notification "inbound_notification multiset" bool
  | Shown datetime toast_request
  | Refused toast_request
  | Submitted_Ack datetime inbound_notification
  | Quiet

abbreviation parses :: "env \<Rightarrow> received_event \<Rightarrow> parse_error + inbound_notification" where
  "parses E evt \<equiv> parse_event (env_ucd E) (env_url_parse E) (env_from_slice E) (re_payload evt) (re_received_at evt) (re_seq evt)"

text \<open>Steps that move no event.\<close>

inductive quiet_step :: "env \<Rightarrow> agent \<Rightarrow> agent \<Rightarrow> bool" for E where
  q_stop: "worker_is i Idle s \<Longrightarrow> queue s = [] \<Longrightarrow> \<not> channel_open s \<Longrightarrow> quiet_step E s (set_worker i Stopped s)"
| q_clock: "worker_is i (Parsed n) s \<Longrightarrow> quiet_step E s (set_worker i (Clock_Read n (clock s)) s)"
| q_handle: "tx_alive s \<Longrightarrow> quiet_step E s (intake_handle s)"
| q_drop: "0 < handles s \<Longrightarrow> quiet_step E s (drop_handle s)"
| q_close: "quiet_step E s (pipeline_close s)"
| q_tick: "quiet_step E s (s\<lparr>clock := clock s + d\<rparr>)"
| q_wake: "quiet_step E s (s\<lparr>aggr := timer_wake (clock s) tid (aggr s)\<rparr>)"
| q_fire: "timer_fire (env_graphemes E) tid (aggr s) = Some a' \<Longrightarrow> quiet_step E s (s\<lparr>aggr := a'\<rparr>)"
| q_flush: "agg_flush (env_graphemes E) k (aggr s) = Some a' \<Longrightarrow> quiet_step E s (s\<lparr>aggr := a'\<rparr>)"
| q_done: "acking s = xs @ (at, []) # ys \<Longrightarrow> quiet_step E s (s\<lparr>acking := xs @ ys\<rparr>)"

text \<open>
  An offer to the aggregator is labelled with what the aggregator lost by it (an event dropped at the bucket limit, a
  stale replaceable event, or the events a newer replaceable one replaces) and whether its overflow counter moved.
\<close>

inductive agent_event :: "env \<Rightarrow> agent \<Rightarrow> event \<Rightarrow> agent \<Rightarrow> bool" for E where
  e_enqueue: "channel_open s \<Longrightarrow> try_enqueue evt s = (ok, s') \<Longrightarrow>
    agent_event E s (if ok then Queued evt else Overflowed evt) s'"
| e_invalid: "worker_is i Idle s \<Longrightarrow> queue s = evt # q \<Longrightarrow> parses E evt = Inl e \<Longrightarrow>
    agent_event E s (Invalid evt e) (s\<lparr>queue := q\<rparr>)"
| e_accept: "worker_is i Idle s \<Longrightarrow> queue s = evt # q \<Longrightarrow> parses E evt = Inr n \<Longrightarrow>
    agent_event E s (Accepted evt n) (set_worker i (Parsed n) (s\<lparr>queue := q\<rparr>))"
| e_decide: "worker_is i (Clock_Read n t) s \<Longrightarrow> try_add (dedup s) t (deduplication_key n) = (b, d') \<Longrightarrow>
    agent_event E s (Decided t n b) (set_worker i (if b then Fresh n else Idle) (s\<lparr>dedup := d'\<rparr>))"
| e_observe: "worker_is i (Fresh n) s \<Longrightarrow>
    publish_ack telemetry (observed_ack (device_id s) n) (log s) = (lg, d) \<Longrightarrow>
    agent_event E s (Observed_Ack n) (set_worker i (Observed n) (s\<lparr>log := lg\<rparr>))"
| e_offer: "worker_is i (Observed n) s \<Longrightarrow> agg_add (env_graphemes E) (clock s) n (aggr s) = Some a' \<Longrightarrow>
    agent_event E s (Offered n (add_mset n (held (aggr s)) - held a')
        (dropped_bucket_overflow a' \<noteq> dropped_bucket_overflow (aggr s)))
      (set_worker i Idle (s\<lparr>aggr := a'\<rparr>))"
| e_refused: "renders (aggr s) = ts @ toast # us \<Longrightarrow>
    agent_event E s (Refused toast) (s\<lparr>aggr := (aggr s)\<lparr>renders := ts @ us\<rparr>\<rparr>)"
| e_shown: "renders (aggr s) = ts @ toast # us \<Longrightarrow>
    agent_event E s (Shown at toast)
      (s\<lparr>aggr := (aggr s)\<lparr>renders := ts @ us\<rparr>, acking := acking s @ [(at, sources toast)]\<rparr>)"
| e_submit: "acking s = xs @ (at, n # ns) # ys \<Longrightarrow>
    publish_ack telemetry (submitted_ack (device_id s) at n) (log s) = (lg, d) \<Longrightarrow>
    agent_event E s (Submitted_Ack at n) (s\<lparr>acking := xs @ (at, ns) # ys, log := lg\<rparr>)"
| e_quiet: "quiet_step E s s' \<Longrightarrow> agent_event E s Quiet s'"

inductive agent_trace :: "env \<Rightarrow> agent \<Rightarrow> event list \<Rightarrow> agent \<Rightarrow> bool" for E s0 where
  t_start: "agent_trace E s0 [] s0"
| t_step: "agent_trace E s0 tr s \<Longrightarrow> agent_event E s ev s' \<Longrightarrow> agent_trace E s0 (tr @ [ev]) s'"

inductive_cases quiet_stepE: "quiet_step E s s'"
inductive_cases agent_eventE: "agent_event E s ev s'"

subsection \<open>Labels and steps agree\<close>

lemma quiet_is_step: "quiet_step E s s' \<Longrightarrow> agent_step E s s'"
  by (induction rule: quiet_step.induct) (auto intro: agent_step.intros worker_step.intros)

lemma agent_event_step:
  assumes "agent_event E s ev s'"
  shows "agent_step E s s'"
  using assms
proof cases
  case (e_enqueue evt ok)
  then show ?thesis
    using agent_step.enqueue [of s E evt] agent_step.handle_enqueue [of s E evt]
    by (auto simp: channel_open_def handle_enqueue_eq)
next
  case (e_decide i n t b d')
  then show ?thesis
    using duplicate [of i s n t d' E] admitted [of i s n t d' E] by (cases b) (auto intro!: work)
qed (blast intro: agent_step.intros worker_step.intros quiet_is_step)+

lemma agent_step_event:
  assumes "agent_step E s s'"
  shows "\<exists>ev. agent_event E s ev s'"
  using assms
proof cases
  case work
  then show ?thesis
  proof cases
    case (duplicate i n t d')
    then show ?thesis using e_decide [of i s n t False d' E] by auto
  next
    case (admitted i n t d')
    then show ?thesis using e_decide [of i s n t True d' E] by auto
  qed (blast intro: agent_event.intros quiet_step.intros)+
next
  case (enqueue evt)
  then show ?thesis
    using e_enqueue [of s evt _ _ E] by (metis channel_open_def prod.collapse)
next
  case (handle_enqueue evt)
  then show ?thesis
    using e_enqueue [of s evt _ _ E] by (metis channel_open_def handle_enqueue_eq prod.collapse)
qed (blast intro: agent_event.intros quiet_step.intros)+

lemma trace_reachable: "agent_trace E s0 tr s \<Longrightarrow> reachable E s0 s"
  by (induction rule: agent_trace.induct) (auto intro: reachable.intros agent_event_step)

lemma reachable_trace: "reachable E s0 s \<Longrightarrow> \<exists>tr. agent_trace E s0 tr s"
  by (induction rule: reachable.induct) (metis agent_trace.intros agent_step_event)+

lemma agent_trace_append_iff:
  "agent_trace E s0 (tr @ tr') s \<longleftrightarrow> (\<exists>s1. agent_trace E s0 tr s1 \<and> agent_trace E s1 tr' s)"
proof (induction tr' arbitrary: s rule: rev_induct)
  case Nil
  show ?case by (auto intro: t_start elim: agent_trace.cases)
next
  case (snoc ev tr')
  show ?case
  proof
    assume "agent_trace E s0 (tr @ tr' @ [ev]) s"
    then obtain s2 where "agent_trace E s0 (tr @ tr') s2" "agent_event E s2 ev s"
      by (cases rule: agent_trace.cases) auto
    with snoc show "\<exists>s1. agent_trace E s0 tr s1 \<and> agent_trace E s1 (tr' @ [ev]) s"
      by (meson t_step)
  next
    assume "\<exists>s1. agent_trace E s0 tr s1 \<and> agent_trace E s1 (tr' @ [ev]) s"
    then obtain s1 where s1: "agent_trace E s0 tr s1" "agent_trace E s1 (tr' @ [ev]) s" by blast
    from s1(2) obtain s2 where "agent_trace E s1 tr' s2" "agent_event E s2 ev s"
      by (cases rule: agent_trace.cases) auto
    with s1(1) snoc have "agent_trace E s0 ((tr @ tr') @ [ev]) s" by (blast intro: t_step)
    then show "agent_trace E s0 (tr @ tr' @ [ev]) s" by simp
  qed
qed

subsection \<open>The books\<close>

definition tally :: "('e \<Rightarrow> 'a multiset) \<Rightarrow> 'e list \<Rightarrow> 'a multiset" where
  "tally f xs = sum_list (map f xs)"

lemma tally_simps [simp]:
  "tally f [] = {#}" "tally f (x # xs) = f x + tally f xs" "tally f (xs @ ys) = tally f xs + tally f ys"
  by (simp_all add: tally_def)

lemma tally_update:
  "i < length xs \<Longrightarrow> tally f (xs[i := x]) + f (xs ! i) = tally f xs + f x"
proof (induction xs arbitrary: i)
  case (Cons v xs)
  then show ?case by (cases i) (auto simp: ac_simps)
qed simp

lemma tally_updateD:
  "i < length xs \<Longrightarrow> xs ! i = y \<Longrightarrow> tally f xs + f x = tally f (xs[i := x]) + f y"
  using tally_update [of i xs f x] by simp

lemma tally_const: "f x = {#} \<Longrightarrow> tally f (map (\<lambda>_. x) ys) = {#}"
  by (induction ys) auto

fun queued :: "event \<Rightarrow> received_event multiset" where
  "queued (Queued evt) = {#evt#}"
| "queued _ = {#}"

fun overflowed :: "event \<Rightarrow> received_event multiset" where
  "overflowed (Overflowed evt) = {#evt#}"
| "overflowed _ = {#}"

fun invalid :: "event \<Rightarrow> received_event multiset" where
  "invalid (Invalid evt _) = {#evt#}"
| "invalid _ = {#}"

fun accepted_raw :: "event \<Rightarrow> received_event multiset" where
  "accepted_raw (Accepted evt _) = {#evt#}"
| "accepted_raw _ = {#}"

fun accepted :: "event \<Rightarrow> inbound_notification multiset" where
  "accepted (Accepted _ n) = {#n#}"
| "accepted _ = {#}"

fun admitted :: "event \<Rightarrow> inbound_notification multiset" where
  "admitted (Decided _ n True) = {#n#}"
| "admitted _ = {#}"

fun suppressed :: "event \<Rightarrow> inbound_notification multiset" where
  "suppressed (Decided _ n False) = {#n#}"
| "suppressed _ = {#}"

fun observed :: "event \<Rightarrow> inbound_notification multiset" where
  "observed (Observed_Ack n) = {#n#}"
| "observed _ = {#}"

fun offered :: "event \<Rightarrow> inbound_notification multiset" where
  "offered (Offered n _ _) = {#n#}"
| "offered _ = {#}"

fun lost :: "event \<Rightarrow> inbound_notification multiset" where
  "lost (Offered _ l _) = l"
| "lost _ = {#}"

fun shown :: "event \<Rightarrow> inbound_notification multiset" where
  "shown (Shown _ toast) = mset (sources toast)"
| "shown _ = {#}"

fun refused :: "event \<Rightarrow> inbound_notification multiset" where
  "refused (Refused toast) = mset (sources toast)"
| "refused _ = {#}"

fun submitted :: "event \<Rightarrow> inbound_notification multiset" where
  "submitted (Submitted_Ack _ n) = {#n#}"
| "submitted _ = {#}"

fun undecided :: "worker \<Rightarrow> inbound_notification multiset" where
  "undecided (Parsed n) = {#n#}"
| "undecided (Clock_Read n _) = {#n#}"
| "undecided _ = {#}"

fun unobserved :: "worker \<Rightarrow> inbound_notification multiset" where
  "unobserved (Fresh n) = {#n#}"
| "unobserved _ = {#}"

lemma pool_events_tally: "pool_events ws = tally worker_events ws"
  unfolding pool_events_def tally_def by (induction ws) auto

text \<open>
  The balance of the books against the state: what a stage took in and has not passed on is where the
  state says it is.
\<close>

definition balanced :: "event list \<Rightarrow> agent \<Rightarrow> bool" where
  "balanced tr s \<longleftrightarrow>
     tally queued tr = mset (queue s) + tally invalid tr + tally accepted_raw tr \<and>
     tally accepted tr = tally undecided (pool s) + tally suppressed tr + tally admitted tr \<and>
     tally admitted tr = tally unobserved (pool s) + tally observed tr \<and>
     tally observed tr = tally worker_events (pool s) + tally offered tr \<and>
     tally offered tr = held (aggr s) + tally lost tr + tally refused tr + tally shown tr \<and>
     tally shown tr = acking_events (acking s) + tally submitted tr"

lemma balanced_chain:
  assumes "balanced tr s"
  shows "tally submitted tr \<subseteq># tally shown tr" "tally shown tr \<subseteq># tally offered tr"
    "tally offered tr \<subseteq># tally observed tr" "tally observed tr \<subseteq># tally admitted tr"
    "tally admitted tr \<subseteq># tally accepted tr" "tally accepted_raw tr \<subseteq># tally queued tr"
  using assms unfolding balanced_def by (metis mset_subset_eq_add_right)+

lemma quiet_step_frame:
  assumes "quiet_step E s s'" and "agg_inv (aggr s)"
  shows "queue s' = queue s \<and> tally undecided (pool s') = tally undecided (pool s) \<and>
    tally unobserved (pool s') = tally unobserved (pool s) \<and>
    tally worker_events (pool s') = tally worker_events (pool s) \<and> held (aggr s') = held (aggr s) \<and>
    acking_events (acking s') = acking_events (acking s) \<and> log s' = log s \<and> dedup s' = dedup s \<and>
    dropped_queue_full s' = dropped_queue_full s \<and> device_id s' = device_id s \<and> clock s \<le> clock s'"
  using assms(1)
proof cases
  case (q_stop i)
  then show ?thesis
    using tally_updateD [of i "pool s" Idle undecided Stopped] tally_updateD [of i "pool s" Idle unobserved Stopped]
      tally_updateD [of i "pool s" Idle worker_events Stopped] by simp
next
  case (q_clock i n)
  then show ?thesis
    using tally_updateD [of i "pool s" "Parsed n" undecided "Clock_Read n (clock s)"]
      tally_updateD [of i "pool s" "Parsed n" unobserved "Clock_Read n (clock s)"]
      tally_updateD [of i "pool s" "Parsed n" worker_events "Clock_Read n (clock s)"] by simp
next
  case (q_fire tid a')
  then show ?thesis using timer_fire_held [OF assms(2)] by simp
next
  case (q_flush k a')
  then show ?thesis using agg_flush_held [OF agg_inv_ok [OF assms(2)]] by simp
qed (simp_all add: intake_handle_def drop_handle_def pipeline_close_def acking_events_split)

lemma balanced_step:
  assumes "agent_event E s ev s'" and "agg_inv (aggr s)" and "balanced tr s"
  shows "balanced (tr @ [ev]) s'"
  using assms(1)
proof cases
  case (e_enqueue evt ok)
  then show ?thesis using assms(3) by (auto simp: balanced_def try_enqueue_def split: if_splits)
next
  case (e_invalid i evt q e)
  then show ?thesis using assms(3) by (simp add: balanced_def)
next
  case (e_accept i evt q n)
  then show ?thesis
    using assms(3) tally_updateD [of i "pool s" Idle undecided "Parsed n"]
      tally_updateD [of i "pool s" Idle unobserved "Parsed n"] tally_updateD [of i "pool s" Idle worker_events "Parsed n"]
    by (simp add: balanced_def)
next
  case (e_decide i n t b d')
  let ?w = "if b then Fresh n else Idle"
  show ?thesis
    using e_decide assms(3) tally_updateD [of i "pool s" "Clock_Read n t" undecided ?w]
      tally_updateD [of i "pool s" "Clock_Read n t" unobserved ?w]
      tally_updateD [of i "pool s" "Clock_Read n t" worker_events ?w]
    by (cases b) (simp_all add: balanced_def)
next
  case (e_observe i n tel lg d)
  then show ?thesis
    using assms(3) tally_updateD [of i "pool s" "Fresh n" undecided "Observed n"]
      tally_updateD [of i "pool s" "Fresh n" unobserved "Observed n"]
      tally_updateD [of i "pool s" "Fresh n" worker_events "Observed n"]
    by (simp add: balanced_def)
next
  case (e_offer i n a')
  have "add_mset n (held (aggr s)) = held a' + (add_mset n (held (aggr s)) - held a')"
    using agg_add_held [OF assms(2) e_offer(4)] by (simp add: subset_mset.add_diff_inverse)
  then show ?thesis
    using e_offer assms(3) tally_updateD [of i "pool s" "Observed n" undecided Idle]
      tally_updateD [of i "pool s" "Observed n" unobserved Idle]
      tally_updateD [of i "pool s" "Observed n" worker_events Idle]
    by (simp add: balanced_def)
next
  case (e_refused ts toast us)
  then show ?thesis using assms(3) held_render [OF e_refused(3)] by (simp add: balanced_def)
next
  case (e_shown ts toast us at)
  then show ?thesis
    using assms(3) held_render [OF e_shown(3)] acking_events_split [of "acking s" at "sources toast" "[]"]
    by (simp add: balanced_def)
next
  case (e_submit xs at n ns ys tel lg d)
  then show ?thesis using assms(3) by (simp add: balanced_def acking_events_split)
next
  case e_quiet
  then show ?thesis using assms(3) quiet_step_frame [OF e_quiet(2) assms(2)] by (simp add: balanced_def)
qed

lemma balanced_start:
  assumes "build_agent pcfg acfg dd now dev = Some s0"
  shows "balanced [] s0"
  using assms held_empty [of acfg]
  by (auto simp: build_agent_def pipeline_start_def balanced_def acking_events_def tally_const split: if_splits)

lemma agent_trace_balanced:
  assumes "agent_trace E s0 tr s" and "agent_inv s0" and "balanced [] s0"
  shows "balanced tr s"
  using assms
proof (induction rule: agent_trace.induct)
  case (t_step tr s ev s')
  have "agg_inv (aggr s)" using reachable_inv [OF trace_reachable [OF t_step.hyps(1)]] t_step.prems(1) by (simp add: agent_inv_def)
  with t_step balanced_step show ?case by blast
qed simp

subsection \<open>What a single label says\<close>

fun errors :: "event \<Rightarrow> parse_error multiset" where
  "errors (Invalid _ e) = {#e#}"
| "errors _ = {#}"

lemma trace_parses:
  assumes "agent_trace E s0 tr s"
  shows "image_mset (parses E) (tally invalid tr) = image_mset Inl (tally errors tr) \<and>
    image_mset (parses E) (tally accepted_raw tr) = image_mset Inr (tally accepted tr)"
  using assms
proof (induction rule: agent_trace.induct)
  case (t_step tr s ev s')
  from t_step.hyps(2) show ?case by cases (use t_step.IH in auto)
qed simp

text \<open>A clock value in use was read in the past.\<close>

definition clocks_past :: "agent \<Rightarrow> bool" where
  "clocks_past s \<longleftrightarrow> (\<forall>n t. Clock_Read n t \<in> set (pool s) \<longrightarrow> t \<le> clock s)"

lemma agent_event_clock:
  assumes "agent_event E s ev s'" and "clocks_past s"
  shows "clocks_past s' \<and> clock s \<le> clock s' \<and> (\<forall>t n b. ev = Decided t n b \<longrightarrow> t \<le> clock s)"
  using assms(1)
proof cases
  case (e_enqueue evt ok)
  then show ?thesis using assms(2) by (auto simp: clocks_past_def try_enqueue_def split: if_splits)
next
  case e_quiet
  from e_quiet(2) show ?thesis
    by cases (use assms(2) e_quiet(1) in \<open>auto simp: clocks_past_def intake_handle_def drop_handle_def pipeline_close_def
        dest!: subsetD [OF set_update_subset_insert] intro: le_add1 order_trans [OF _ le_add1]\<close>)
next
  case (e_decide i n t b d')
  then have "Clock_Read n t \<in> set (pool s)" by (metis nth_mem)
  with e_decide assms(2) show ?thesis
    by (auto simp: clocks_past_def dest!: subsetD [OF set_update_subset_insert] split: if_splits)
qed (use assms(2) in \<open>auto simp: clocks_past_def dest!: subsetD [OF set_update_subset_insert]\<close>)

lemma trace_clock:
  assumes "agent_trace E s0 tr s" and "clocks_past s0"
  shows "clocks_past s \<and> clock s0 \<le> clock s \<and> (\<forall>t n b. Decided t n b \<in> set tr \<longrightarrow> t \<le> clock s)"
  using assms
proof (induction rule: agent_trace.induct)
  case (t_step tr s ev s')
  with agent_event_clock [OF t_step.hyps(2)] show ?case by fastforce
qed simp

text \<open>The decisions of a trace are a run of the duplicate cache.\<close>

fun decision :: "event \<Rightarrow> (instant \<times> rstring) list" where
  "decision (Decided t n _) = [(t, deduplication_key n)]"
| "decision _ = []"

fun verdict :: "event \<Rightarrow> bool list" where
  "verdict (Decided _ _ b) = [b]"
| "verdict _ = []"

lemma try_add_all_append:
  "try_add_all c (es @ es') =
     (fst (try_add_all c es) @ fst (try_add_all (snd (try_add_all c es)) es'),
      snd (try_add_all (snd (try_add_all c es)) es'))"
  by (induction es arbitrary: c) (auto simp: Let_def split: prod.splits)

lemma trace_dedup:
  assumes "agent_trace E s0 tr s" and "agent_inv s0"
  shows "try_add_all (dedup s0) (concat (map decision tr)) = (concat (map verdict tr), dedup s)"
  using assms
proof (induction rule: agent_trace.induct)
  case (t_step tr s ev s')
  have IH: "try_add_all (dedup s0) (concat (map decision tr)) = (concat (map verdict tr), dedup s)" using t_step by blast
  have inv: "agg_inv (aggr s)"
    using reachable_inv [OF trace_reachable [OF t_step.hyps(1)] t_step.prems] by (simp add: agent_inv_def)
  from t_step.hyps(2) show ?case
  proof cases
    case (e_enqueue evt ok)
    then show ?thesis using IH by (auto simp: try_enqueue_def split: if_splits)
  next
    case e_quiet
    then show ?thesis using IH quiet_step_frame [OF e_quiet(2) inv] by simp
  qed (use IH in \<open>simp_all add: try_add_all_append\<close>)
qed simp

lemma length_decisions: "length (concat (map verdict tr)) = length (concat (map decision tr))"
proof (induction tr)
  case (Cons ev tr)
  then show ?case by (cases ev) auto
qed simp

lemma admitted_verdicts: "length (filter (\<lambda>b. b) (concat (map verdict tr))) = size (tally admitted tr)"
proof (induction tr)
  case (Cons ev tr)
  then show ?case
  proof (cases ev)
    case (Decided t n b)
    with Cons show ?thesis by (cases b) auto
  qed auto
qed simp

lemma in_decisions: "x \<in> set (concat (map decision tr)) \<longleftrightarrow> (\<exists>t n b. Decided t n b \<in> set tr \<and> x = (t, deduplication_key n))"
proof (induction tr)
  case (Cons ev tr)
  then show ?case by (cases ev) auto
qed simp

lemma in_verdicts:
  "((t, k), b) \<in> set (zip (concat (map decision tr)) (concat (map verdict tr))) \<longleftrightarrow>
     (\<exists>n. Decided t n b \<in> set tr \<and> k = deduplication_key n)"
proof (induction tr)
  case (Cons ev tr)
  then show ?case by (cases ev) auto
qed simp

lemma decisions_split:
  assumes "try_add_all c (concat (map decision (tr1 @ Decided t1 n1 b1 # tr2 @ [Decided t2 n2 b2]))) =
      (concat (map verdict (tr1 @ Decided t1 n1 b1 # tr2 @ [Decided t2 n2 b2])), d)"
  obtains c0 c1 c2 c3 where "try_add_all c (concat (map decision tr1)) = (concat (map verdict tr1), c0)"
    "try_add c0 t1 (deduplication_key n1) = (b1, c1)"
    "try_add_all c1 (concat (map decision tr2)) = (concat (map verdict tr2), c2)"
    "try_add c2 t2 (deduplication_key n2) = (b2, c3)"
proof -
  have len: "length (fst (try_add_all c (concat (map decision tr)))) = length (concat (map verdict tr))" for c tr
    by (simp only: try_add_all_answers fst_conv dc.length_answers length_decisions)
  let ?c0 = "snd (try_add_all c (concat (map decision tr1)))"
  let ?c1 = "snd (try_add ?c0 t1 (deduplication_key n1))"
  let ?c2 = "snd (try_add_all ?c1 (concat (map decision tr2)))"
  show thesis
    by (rule that [of ?c0 ?c1 ?c2 "snd (try_add ?c2 t2 (deduplication_key n2))"])
      (use assms len [of c tr1] len [of ?c1 tr2] in
        \<open>simp_all add: try_add_all_append Let_def split_beta prod_eq_iff append_eq_append_conv\<close>)
qed

text \<open>The log holds the acknowledgements of the trace, in its order.\<close>

fun acks_of :: "rstring \<Rightarrow> event \<Rightarrow> ack_payload list" where
  "acks_of dev (Observed_Ack n) = [observed_ack dev n]"
| "acks_of dev (Submitted_Ack at n) = [submitted_ack dev at n]"
| "acks_of dev _ = []"

lemma trace_log:
  assumes "agent_trace E s0 tr s" and "agent_inv s0"
  shows "map fst (log s) = map fst (log s0) @ concat (map (acks_of (device_id s0)) tr)"
  using assms
proof (induction rule: agent_trace.induct)
  case (t_step tr s ev s')
  have IH: "map fst (log s) = map fst (log s0) @ concat (map (acks_of (device_id s0)) tr)" using t_step by blast
  have s: "agg_inv (aggr s)" "device_id s = device_id s0"
    using reachable_inv [OF trace_reachable [OF t_step.hyps(1)] t_step.prems]
      reachable_frame [OF trace_reachable [OF t_step.hyps(1)]] by (auto simp: agent_inv_def)
  from t_step.hyps(2) show ?case
  proof cases
    case (e_enqueue evt ok)
    then show ?thesis using IH by (auto simp: try_enqueue_def split: if_splits)
  next
    case e_quiet
    then show ?thesis using IH quiet_step_frame [OF e_quiet(2) s(1)] by simp
  next
    case (e_observe i n tel lg d)
    then show ?thesis using IH s(2) publish_ack_log [OF e_observe(4)] by auto
  next
    case (e_submit xs at n ns ys tel lg d)
    then show ?thesis using IH s(2) publish_ack_log [OF e_submit(4)] by auto
  qed (use IH in simp_all)
qed simp

text \<open>Both overflow counters count what the trace says, modulo their 64 bits.\<close>

fun at_limit :: "event \<Rightarrow> bool" where
  "at_limit (Offered _ _ over) = over"
| "at_limit _ = False"

lemma agg_flush_dropped: "agg_flush g k a = Some a' \<Longrightarrow> dropped_bucket_overflow a' = dropped_bucket_overflow a"
  by (erule agg_flushE) simp_all

lemma timer_fire_dropped: "timer_fire g tid a = Some a' \<Longrightarrow> dropped_bucket_overflow a' = dropped_bucket_overflow a"
  by (auto simp: timer_fire_def dest: agg_flush_dropped split: option.splits)

lemma agg_add_dropped:
  assumes "agg_add g now n a = Some a'"
  shows "dropped_bucket_overflow a' =
    dropped_bucket_overflow a + (if dropped_bucket_overflow a' \<noteq> dropped_bucket_overflow a then 1 else 0)"
  using assms by (cases rule: agg_addE) simp_all

lemma trace_counters:
  assumes "agent_trace E s0 tr s"
  shows "dropped_queue_full s = dropped_queue_full s0 + of_nat (size (tally overflowed tr)) \<and>
    dropped_bucket_overflow (aggr s) = dropped_bucket_overflow (aggr s0) + of_nat (length (filter at_limit tr))"
  using assms
proof (induction rule: agent_trace.induct)
  case (t_step tr s ev s')
  note IH = t_step.IH
  from t_step.hyps(2) show ?case
  proof cases
    case (e_enqueue evt ok)
    then show ?thesis using IH by (auto simp: try_enqueue_def split: if_splits)
  next
    case (e_offer i n a')
    then show ?thesis using IH agg_add_dropped [OF e_offer(4)] by (auto split: if_splits)
  next
    case e_quiet
    from e_quiet(2) show ?thesis
      by cases (use IH e_quiet(1) in \<open>auto simp: intake_handle_def drop_handle_def pipeline_close_def timer_wake_def
          dest: agg_flush_dropped timer_fire_dropped\<close>)
  qed (use IH in simp_all)
qed simp

subsection \<open>What an offer may lose\<close>

lemma waiting_bucket:
  assumes "hm_ok (buckets a)" and "hm_get (buckets a) k = Some b" and "e \<in> set (events b)"
  shows "e \<in># held a"
  using assms by (simp add: held_def waiting_remove [OF assms(1,2)])

lemma agg_add_loss:
  assumes inv: "agg_inv a" and add: "agg_add g now n a = Some a'"
  defines "l \<equiv> add_mset n (held a) - held a'"
  obtains (none) "l = {#}" "dropped_bucket_overflow a' = dropped_bucket_overflow a"
  | (full) "l = {#n#}" "priority n \<noteq> Critical" "dropped_bucket_overflow a' \<noteq> dropped_bucket_overflow a"
  | (stale) m where "l = {#n#}" "priority n \<noteq> Critical" "replaceable n" "m \<in># held a" "key_of m = key_of n" "seq n < seq m"
      "dropped_bucket_overflow a' = dropped_bucket_overflow a"
  | (replaced) "priority n \<noteq> Critical" "replaceable n" "\<forall>e \<in># l. key_of e = key_of n \<and> seq e \<le> seq n"
      "dropped_bucket_overflow a' = dropped_bucket_overflow a"
  using add
proof (cases rule: agg_addE)
  case (critical toast)
  then show thesis by (intro none) (simp_all add: l_def held_def from_single_sources)
next
  case overflow
  then show thesis by (intro full) (simp_all add: l_def held_def)
next
  case opened
  have "waiting a' = add_mset n (waiting a)"
    using opened(2) agg_inv_ok [OF inv] by (simp add: opened(4) waiting_def mset_hm_insert hm_remove_absent)
  then show thesis by (intro none) (simp_all add: l_def held_def opened(4))
next
  case (join b)
  note ok = agg_inv_ok [OF inv]
  let ?w = "waiting (a\<lparr>buckets := hm_remove (key_of n) (buckets a)\<rparr>) + rendering a"
  have "held a = ?w + mset (events b)" "held a' = ?w + mset (apply_to_bucket (events b) n)"
    unfolding join(3) held_def waiting_insert [OF ok] waiting_remove [OF ok join(2)] by simp_all
  then have l: "l = add_mset n (mset (events b)) - mset (apply_to_bucket (events b) n)"
    by (simp add: l_def)
  have over: "dropped_bucket_overflow a' = dropped_bucket_overflow a" by (simp add: join(3))
  have same: "\<forall>e \<in> set (events b). key_of e = key_of n"
    using agg_inv_bucket [OF inv join(2)] by (simp add: bucket_ok_def)
  show thesis
  proof (cases "replaceable n")
    case False
    then show thesis using l over by (intro none) (simp_all add: apply_to_bucket_cases)
  next
    case True
    show thesis
    proof (cases "\<forall>e \<in> set (events b). seq e \<le> seq n")
      case all: True
      show thesis
        by (rule replaced) (use True all join(1) l over same in \<open>auto simp: apply_to_bucket_cases\<close>)
    next
      case False
      then obtain m where "m \<in> set (events b)" "seq n < seq m" by (auto simp: not_le)
      with True False join(1) l over same waiting_bucket [OF ok join(2)] show thesis
        by (intro stale [of m]) (auto simp: apply_to_bucket_cases)
    qed
  qed
qed

subsection \<open>Rest\<close>

definition quiescent :: "agent \<Rightarrow> bool" where
  "quiescent s \<longleftrightarrow> queue s = [] \<and> list_all (\<lambda>w. w = Idle \<or> w = Stopped) (pool s) \<and>
     buckets (aggr s) = [] \<and> renders (aggr s) = [] \<and> list_all (\<lambda>x. snd x = []) (acking s)"

lemma tally_empty: "\<forall>x \<in> set xs. f x = {#} \<Longrightarrow> tally f xs = {#}"
  by (induction xs) auto

lemma quiescent_empty:
  assumes "quiescent s"
  shows "tally undecided (pool s) = {#}" "tally unobserved (pool s) = {#}" "tally worker_events (pool s) = {#}"
    "held (aggr s) = {#}" "acking_events (acking s) = {#}"
proof -
  have idle: "\<forall>w \<in> set (pool s). w = Idle \<or> w = Stopped" using assms by (simp add: quiescent_def list_all_iff)
  then show "tally undecided (pool s) = {#}" "tally unobserved (pool s) = {#}" "tally worker_events (pool s) = {#}"
    by (auto intro!: tally_empty)
  show "held (aggr s) = {#}" using assms by (simp add: quiescent_def held_def waiting_def rendering_def)
  have "acking_events xs = {#}" if "list_all (\<lambda>x. snd x = []) xs" for xs
    using that by (induction xs) (auto simp: acking_events_def)
  then show "acking_events (acking s) = {#}" using assms by (simp add: quiescent_def)
qed

lemma built_trace:
  assumes "dedup_inv dd" and "build_agent pcfg acfg dd now dev = Some s0" and "agent_trace E s0 tr s"
  shows "agent_inv s0" "balanced tr s" "log s0 = []" "device_id s0 = dev" "dedup s0 = dd"
    "dropped_queue_full s0 = 0" "dropped_bucket_overflow (aggr s0) = 0" "clocks_past s0"
proof -
  show inv: "agent_inv s0" using build_agent_inv [OF assms(2,1)] .
  show "balanced tr s" using agent_trace_balanced [OF assms(3) inv balanced_start [OF assms(2)]] .
  show "log s0 = []" "device_id s0 = dev" "dedup s0 = dd" "dropped_queue_full s0 = 0"
    "dropped_bucket_overflow (aggr s0) = 0" "clocks_past s0"
    using assms(2) by (auto simp: build_agent_def pipeline_start_def aggregator_new_def clocks_past_def split: if_splits)
qed

lemma rest_accounts:
  assumes "dedup_inv dd" and "build_agent pcfg acfg dd now dev = Some s0" and "agent_trace E s0 tr s"
    and "quiescent s"
  shows "image_mset (parses E) (tally queued tr) = image_mset Inl (tally errors tr) +
    image_mset Inr (tally suppressed tr + tally lost tr + tally refused tr + tally submitted tr)"
proof -
  note built = built_trace [OF assms(1-3)]
  have "tally queued tr = tally invalid tr + tally accepted_raw tr"
    "tally accepted tr = tally suppressed tr + (tally lost tr + tally refused tr + tally submitted tr)"
    using built(2) assms(4) quiescent_empty [OF assms(4)] by (auto simp: balanced_def quiescent_def)
  then show ?thesis using trace_parses [OF assms(3)] by (simp add: ac_simps)
qed

subsection \<open>Coming to rest\<close>

lemma flushing_empties:
  assumes "agent_inv s"
  shows "\<exists>a'. (agent_step E)\<^sup>*\<^sup>* s (s\<lparr>aggr := a'\<rparr>) \<and> buckets a' = []"
  using assms
proof (induction "hm_len (buckets (aggr s))" arbitrary: s rule: less_induct)
  case less
  show ?case
  proof (cases "buckets (aggr s)")
    case Nil
    then show ?thesis by (intro exI [of _ "aggr s"]) simp
  next
    case (Cons p bs)
    have ok: "hm_ok (buckets (aggr s))" using less.prems by (auto simp: agent_inv_def intro: agg_inv_ok)
    have some: "hm_get (buckets (aggr s)) (fst p) = Some (snd p)" using Cons by (cases p) (simp add: hm_get_def)
    obtain a1 where a1: "agg_flush (env_graphemes E) (fst p) (aggr s) = Some a1" using agg_flush_Some by blast
    have gone: "hm_ok (buckets a1)" "hm_get (buckets a1) = (hm_get (buckets (aggr s)))(fst p := None)"
      using agg_flush_gone [OF ok a1] by auto
    have "hm_len (buckets a1) = card (dom (hm_get (buckets (aggr s))) - {fst p})"
      using hm.len_card [OF gone(1)] gone(2) by simp
    also have "\<dots> < card (dom (hm_get (buckets (aggr s))))"
      using some hm.finite_dom [OF ok] by (intro psubset_card_mono) auto
    finally have smaller: "hm_len (buckets a1) < hm_len (buckets (aggr s))" using hm.len_card [OF ok] by simp
    have step: "agent_step E s (s\<lparr>aggr := a1\<rparr>)" using a1 by (rule flush)
    from less.hyps [of "s\<lparr>aggr := a1\<rparr>"] smaller agent_step_inv [OF step less.prems]
    obtain a' where "(agent_step E)\<^sup>*\<^sup>* (s\<lparr>aggr := a1\<rparr>) (s\<lparr>aggr := a'\<rparr>)" "buckets a' = []" by auto
    with step show ?thesis by (meson converse_rtranclp_into_rtranclp)
  qed
qed

lemma showing_empties:
  "\<exists>xs. (agent_step E)\<^sup>*\<^sup>* s (s\<lparr>aggr := (aggr s)\<lparr>renders := []\<rparr>, acking := xs\<rparr>)"
proof (induction "renders (aggr s)" arbitrary: s)
  case Nil
  then have "s\<lparr>aggr := (aggr s)\<lparr>renders := []\<rparr>, acking := acking s\<rparr> = s" by (intro agent.equality aggregator.equality) simp_all
  then show ?case by (metis rtranclp.rtrancl_refl)
next
  case (Cons toast us)
  let ?s1 = "s\<lparr>aggr := (aggr s)\<lparr>renders := us\<rparr>, acking := acking s @ [(0, sources toast)]\<rparr>"
  have "agent_step E s ?s1" using show_ok [of s "[]" toast us E 0] Cons.hyps(2) by simp
  moreover obtain xs where "(agent_step E)\<^sup>*\<^sup>* ?s1 (?s1\<lparr>aggr := (aggr ?s1)\<lparr>renders := []\<rparr>, acking := xs\<rparr>)"
    using Cons.hyps(1) [of ?s1] by auto
  ultimately show ?case by (intro exI [of _ xs]) (simp add: converse_rtranclp_into_rtranclp)
qed

lemma acking_empties:
  "\<exists>xs lg. (agent_step E)\<^sup>*\<^sup>* s (s\<lparr>acking := xs, log := lg\<rparr>) \<and> list_all (\<lambda>x. snd x = []) xs"
proof (induction "sum_list (map (length \<circ> snd) (acking s))" arbitrary: s rule: less_induct)
  case less
  show ?case
  proof (cases "list_all (\<lambda>x. snd x = []) (acking s)")
    case True
    have "s\<lparr>acking := acking s, log := log s\<rparr> = s" by (intro agent.equality) simp_all
    with True show ?thesis by (metis rtranclp.rtrancl_refl)
  next
    case False
    then obtain x where "x \<in> set (acking s)" "snd x \<noteq> []" by (auto simp: list_all_iff)
    then obtain xs ys at n ns where split: "acking s = xs @ (at, n # ns) # ys"
      by (metis list.exhaust prod.collapse split_list)
    obtain lg d where pub: "publish_ack (\<lambda>_. (Inr (), None)) (submitted_ack (device_id s) at n) (log s) = (lg, d)" by fastforce
    let ?s1 = "s\<lparr>acking := xs @ (at, ns) # ys, log := lg\<rparr>"
    have "agent_step E s ?s1" using split pub by (rule submit)
    moreover obtain xs' lg' where "(agent_step E)\<^sup>*\<^sup>* ?s1 (?s1\<lparr>acking := xs', log := lg'\<rparr>)" "list_all (\<lambda>x. snd x = []) xs'"
      using less [of ?s1] split by auto
    ultimately show ?thesis by (intro exI [of _ xs'] exI [of _ lg']) (simp add: converse_rtranclp_into_rtranclp)
  qed
qed

lemma closed_rests:
  assumes "agent_inv s" and "\<not> channel_open s" and "pool s \<noteq> []"
  shows "\<exists>s'. (agent_step E)\<^sup>*\<^sup>* s s' \<and> quiescent s'"
proof -
  obtain s1 where s1: "(worker_step E)\<^sup>*\<^sup>* s s1" "work_left s1 = 0" using closed_drains [OF assms] by blast
  have w: "(agent_step E)\<^sup>*\<^sup>* s s1" using s1(1) by (rule mono_rtranclp [rule_format, rotated]) (rule work)
  have "agent_inv s1" using w assms(1) by (induction rule: rtranclp_induct) (auto intro: agent_step_inv)
  then obtain a where a: "(agent_step E)\<^sup>*\<^sup>* s1 (s1\<lparr>aggr := a\<rparr>)" "buckets a = []" using flushing_empties by blast
  obtain xs where xs: "(agent_step E)\<^sup>*\<^sup>* (s1\<lparr>aggr := a\<rparr>) (s1\<lparr>aggr := a\<lparr>renders := []\<rparr>, acking := xs\<rparr>)"
    using showing_empties [of E "s1\<lparr>aggr := a\<rparr>"] by auto
  obtain ys lg where ys: "(agent_step E)\<^sup>*\<^sup>* (s1\<lparr>aggr := a\<lparr>renders := []\<rparr>, acking := xs\<rparr>)
      (s1\<lparr>aggr := a\<lparr>renders := []\<rparr>, acking := ys, log := lg\<rparr>)" "list_all (\<lambda>x. snd x = []) ys"
    using acking_empties [of E "s1\<lparr>aggr := a\<lparr>renders := []\<rparr>, acking := xs\<rparr>"] by auto
  have "quiescent (s1\<lparr>aggr := a\<lparr>renders := []\<rparr>, acking := ys, log := lg\<rparr>)"
    using s1(2) a(2) ys(2) by (auto simp: quiescent_def work_left_0 list_all_iff)
  with w a(1) xs ys(1) show ?thesis by (meson rtranclp_trans)
qed

subsection \<open>Losses and admissions in a trace\<close>

lemma trace_clock_from:
  assumes "agent_trace E s0 tr s" and "\<forall>n t. Clock_Read n t \<in> set (pool s0) \<longrightarrow> clock s0 \<le> t" and "clocks_past s0"
  shows "(\<forall>n t. Clock_Read n t \<in> set (pool s) \<longrightarrow> clock s0 \<le> t) \<and> (\<forall>t n b. Decided t n b \<in> set tr \<longrightarrow> clock s0 \<le> t)"
  using assms
proof (induction rule: agent_trace.induct)
  case (t_step tr s ev s')
  then have IH: "\<forall>n t. Clock_Read n t \<in> set (pool s) \<longrightarrow> clock s0 \<le> t" "\<forall>t n b. Decided t n b \<in> set tr \<longrightarrow> clock s0 \<le> t" by auto
  have now: "clock s0 \<le> clock s" using trace_clock [OF t_step.hyps(1) t_step.prems(2)] by blast
  from t_step.hyps(2) show ?case
  proof cases
    case (e_enqueue evt ok)
    then show ?thesis using IH by (auto simp: try_enqueue_def split: if_splits)
  next
    case e_quiet
    from e_quiet(2) show ?thesis
      by cases (use IH now e_quiet(1) in \<open>auto simp: intake_handle_def drop_handle_def pipeline_close_def
          dest!: subsetD [OF set_update_subset_insert]\<close>)
  next
    case (e_decide i n t b d')
    then have "Clock_Read n t \<in> set (pool s)" by (metis nth_mem)
    with e_decide IH show ?thesis by (auto dest!: subsetD [OF set_update_subset_insert] split: if_splits)
  qed (use IH in \<open>auto dest!: subsetD [OF set_update_subset_insert]\<close>)
qed simp

lemma offer_loss:
  assumes "dedup_inv dd" and "build_agent pcfg acfg dd now dev = Some s0"
    and "agent_trace E s0 (tr @ Offered n l over # tr') s"
  shows "(l = {#} \<and> \<not> over) \<or>
    priority n \<noteq> Critical \<and>
    (l = {#n#} \<and> over \<or>
     l = {#n#} \<and> \<not> over \<and> replaceable n \<and> (\<exists>m \<in># tally offered tr. key_of m = key_of n \<and> seq n < seq m) \<or>
     \<not> over \<and> replaceable n \<and> (\<forall>e \<in># l. key_of e = key_of n \<and> seq e \<le> seq n))"
proof -
  obtain s1 s2 where s1: "agent_trace E s0 tr s1" and ev: "agent_event E s1 (Offered n l over) s2"
  proof -
    have "agent_trace E s0 ((tr @ [Offered n l over]) @ tr') s" using assms(3) by simp
    then obtain s2 where "agent_trace E s0 (tr @ [Offered n l over]) s2" unfolding agent_trace_append_iff by blast
    then show thesis by (cases rule: agent_trace.cases) (use that in auto)
  qed
  have inv: "agg_inv (aggr s1)"
    using reachable_inv [OF trace_reachable [OF s1]] built_trace(1) [OF assms(1,2) s1] by (simp add: agent_inv_def)
  have held: "held (aggr s1) \<subseteq># tally offered tr"
    using built_trace(2) [OF assms(1,2) s1] unfolding balanced_def by (metis mset_subset_eq_add_left union_assoc)
  from ev obtain a' where a': "agg_add (env_graphemes E) (clock s1) n (aggr s1) = Some a'"
    "l = add_mset n (held (aggr s1)) - held a'"
    "over \<longleftrightarrow> dropped_bucket_overflow a' \<noteq> dropped_bucket_overflow (aggr s1)"
    by (cases rule: agent_event.cases) (auto split: if_splits)
  from inv a'(1) show ?thesis
  proof (cases rule: agg_add_loss)
    case (stale m)
    then show ?thesis using a'(2,3) mset_subset_eqD [OF held] by auto
  qed (use a'(2,3) in auto)
qed

lemma admits_once:
  assumes "dedup_new cap life = Some dd" and "0 < life" and "build_agent pcfg acfg dd now dev = Some s0"
    and "agent_trace E s0 (tr1 @ Decided t1 n1 True # tr2 @ [Decided t2 n2 True]) s"
    and "deduplication_key n1 = deduplication_key n2" and "clock s < t1 + life"
  shows "cap \<le> size (tally admitted tr2)"
proof -
  let ?tr = "tr1 @ Decided t1 n1 True # tr2 @ [Decided t2 n2 True]"
  note built = built_trace [OF dedup_new_inv [OF assms(1)] assms(3,4)]
  have past: "t < t1 + life" if "Decided t n b \<in> set ?tr" for t n b
  proof -
    have "t \<le> clock s" using trace_clock [OF assms(4) built(8)] that by blast
    then show ?thesis using assms(6) by (rule le_less_trans)
  qed
  have "try_add_all dd (concat (map decision ?tr)) = (concat (map verdict ?tr), dedup s)"
    using trace_dedup [OF assms(4) built(1)] built(5) by simp
  then obtain c0 c1 c2 c3 where run: "try_add_all dd (concat (map decision tr1)) = (concat (map verdict tr1), c0)"
    "try_add c0 t1 (deduplication_key n1) = (True, c1)"
    "try_add_all c1 (concat (map decision tr2)) = (concat (map verdict tr2), c2)"
    "try_add c2 t2 (deduplication_key n2) = (True, c3)"
    by (rule decisions_split)
  have "\<forall>x \<in> set (concat (map decision tr2)). fst x < t1 + life" using past by (fastforce simp: in_decisions simp del: set_concat)
  moreover have "t2 < t1 + life" using past [of t2 n2 True] by simp
  ultimately show ?thesis using accepted_twice [OF assms(1,2) _ _ run [folded assms(5)]] by (simp add: admitted_verdicts)
qed

subsection \<open>Properties\<close>

text \<open>
  Property C1. Chain of custody: in every run of the agent, under any interleaving, the events acknowledged as submitted were
  shown, the events shown were offered to the aggregator, the events offered were acknowledged as observed before, those were
  admitted by the duplicate cache, and those are what the parser made of messages taken from the queue; no step passes on an event
  more often than it received it. The published acknowledgements are exactly those of the observed and
  submitted events, in the order of the run and with the agent's device id. Since every prefix of a run is a
  run, this holds at every moment.
\<close>

theorem custody_chain:
  assumes "dedup_inv dd" and "build_agent pcfg acfg dd now dev = Some s0" and "agent_trace E s0 tr s"
  shows "tally submitted tr \<subseteq># tally shown tr \<and> tally shown tr \<subseteq># tally offered tr \<and>
    tally offered tr \<subseteq># tally observed tr \<and> tally observed tr \<subseteq># tally admitted tr \<and>
    tally admitted tr \<subseteq># tally accepted tr \<and>
    image_mset Inr (tally accepted tr) \<subseteq># image_mset (parses E) (tally queued tr) \<and>
    map fst (log s) = concat (map (acks_of dev) tr)"
proof -
  note built = built_trace [OF assms]
  note chain = balanced_chain [OF built(2)]
  have "image_mset Inr (tally accepted tr) \<subseteq># image_mset (parses E) (tally queued tr)"
    using trace_parses [OF assms(3)] image_mset_subseteq_mono [OF chain(6), of "parses E"] by simp
  moreover have "map fst (log s) = concat (map (acks_of dev) tr)"
    using trace_log [OF assms(3) built(1)] built(3,4) by simp
  ultimately show ?thesis using chain by blast
qed

text \<open>
  Nothing vanishes: once the agent is at rest (queue, workers, buckets and renders empty), the messages it took into the queue
  are accounted for exactly: each one was invalid with a reason, or a suppressed duplicate, or lost in the aggregator, or
  in a toast the platform refused, or it was shown and acknowledged as submitted.
\<close>

theorem nothing_vanishes:
  assumes "dedup_inv dd" and "build_agent pcfg acfg dd now dev = Some s0" and "agent_trace E s0 tr s"
    and "quiescent s"
  shows "image_mset (parses E) (tally queued tr) = image_mset Inl (tally errors tr) +
    image_mset Inr (tally suppressed tr + tally lost tr + tally refused tr + tally submitted tr)"
  using assms by (rule rest_accounts)

text \<open>
  The agent can always be brought to rest: from every reachable state in which the senders are gone, some
  run of the agent ends with queue, workers, buckets, renders and outstanding acknowledgements done; and over the whole run from the
  start, every message taken into the queue is then invalid, suppressed, lost by the policy, refused by the platform, or
  acknowledged as submitted.
\<close>

theorem shutdown_accounts_for_all:
  assumes "dedup_inv dd" and "build_agent pcfg acfg dd now dev = Some s0" and "0 < workers pcfg"
    and "reachable E s0 s" and "\<not> channel_open s"
  shows "\<exists>s' tr. (agent_step E)\<^sup>*\<^sup>* s s' \<and> quiescent s' \<and> agent_trace E s0 tr s' \<and>
    image_mset (parses E) (tally queued tr) = image_mset Inl (tally errors tr) +
      image_mset Inr (tally suppressed tr + tally lost tr + tally refused tr + tally submitted tr)"
proof -
  have inv: "agent_inv s" using reachable_inv [OF assms(4)] build_agent_inv [OF assms(2,1)] by blast
  have "length (pool s) = workers pcfg"
    using reachable_frame [OF assms(4)] assms(2) by (auto simp: build_agent_def pipeline_start_def split: if_splits)
  with assms(3) have "pool s \<noteq> []" by auto
  from closed_rests [OF inv assms(5) this] obtain s' where s': "(agent_step E)\<^sup>*\<^sup>* s s'" "quiescent s'" by blast
  obtain tr where "agent_trace E s0 tr s'" using reachable_trace reachable_steps [OF s'(1) assms(4)] by blast
  with s' rest_accounts [OF assms(1,2) this s'(2)] show ?thesis by blast
qed


text \<open>
  Property C6. At most once for the whole agent: while its clock has not passed a key's time to live, the agent admits no second event with that
  deduplication key, unless the cache's capacity of other events was admitted in between, although its workers race
  between the clock and the cache's lock.
\<close>

theorem agent_admits_once:
  assumes "dedup_new cap life = Some dd" and "0 < life" and "build_agent pcfg acfg dd now dev = Some s0"
    and "agent_trace E s0 (tr1 @ Decided t1 n1 True # tr2 @ [Decided t2 n2 True]) s"
    and "deduplication_key n1 = deduplication_key n2" and "clock s < t1 + life"
  shows "cap \<le> size (tally admitted tr2)"
  using assms by (rule admits_once)

text \<open>
  Property C19. No false suppression in the whole agent: an event is suppressed as a duplicate only if an event with the same deduplication key
  was admitted before, by a worker whose clock reading makes it unexpired at this one.
\<close>

theorem agent_suppresses_duplicates:
  assumes "dedup_new cap life = Some dd" and "build_agent pcfg acfg dd now dev = Some s0"
    and "agent_trace E s0 (tr @ [Decided t n False]) s"
  shows "\<exists>t' n'. Decided t' n' True \<in> set tr \<and> deduplication_key n' = deduplication_key n \<and> t < t' + life"
proof -
  note built = built_trace [OF dedup_new_inv [OF assms(1)] assms(2,3)]
  let ?es = "concat (map decision (tr @ [Decided t n False]))" and ?bs = "concat (map verdict (tr @ [Decided t n False]))"
  let ?i = "length (concat (map decision tr))"
  have bs: "dc.answers dd ?es = ?bs"
    using trace_dedup [OF assms(3) built(1)] built(5) by (simp add: try_add_all_answers)
  have len: "length (concat (map verdict tr)) = ?i" by (simp only: length_decisions)
  have "\<not> dc.answers dd ?es ! ?i" unfolding bs using len by (simp add: nth_append)
  from dc.rejected_provenance [OF dedup_new_inv [OF assms(1)] dedup_new_not_live [OF assms(1)] _ this]
  obtain j where j: "j < ?i" "snd (?es ! j) = snd (?es ! ?i)" "?bs ! j" "fst (?es ! ?i) < fst (?es ! j) + ttl dd"
    unfolding bs by auto
  then have "(concat (map decision tr) ! j, True) \<in> set (zip (concat (map decision tr)) (concat (map verdict tr)))"
    using len by (auto simp: set_zip nth_append)
  then obtain t' n' where "Decided t' n' True \<in> set tr" "concat (map decision tr) ! j = (t', deduplication_key n')"
    by (cases "concat (map decision tr) ! j") (auto simp: in_verdicts)
  moreover have "ttl dd = life" using dedup_new_sync [OF assms(1)] by simp
  ultimately show ?thesis using j by (force simp: nth_append)
qed

text \<open>
  Every drop is counted: the queue's counter is the number of messages refused because the queue was full, and the
  aggregator's counter the number of events dropped at the bucket limit, both modulo \<open>2\<close> to the \<open>64\<close>.
\<close>

theorem drops_counted:
  assumes "build_agent pcfg acfg dd now dev = Some s0" and "agent_trace E s0 tr s"
  shows "unat (dropped_queue_full s) = size (tally overflowed tr) mod 2 ^ 64 \<and>
    unat (dropped_bucket_overflow (aggr s)) = length (filter at_limit tr) mod 2 ^ 64"
proof -
  have "dropped_queue_full s0 = 0" "dropped_bucket_overflow (aggr s0) = 0"
    using assms(1) by (auto simp: build_agent_def pipeline_start_def aggregator_new_def split: if_splits)
  then show ?thesis using trace_counters [OF assms(2)] by (simp add: unat_of_nat)
qed

subsection \<open>Examples\<close>

text \<open>A message that arrives at an idle agent, up to the decision about it, and on to the aggregator.\<close>

lemma arrival_trace:
  assumes "agent_trace E s0 tr s" and "channel_open s" and "queue s = []" and "0 < q_capacity s" and "worker_is i Idle s"
    and "parses E evt = Inr n" and "try_add (dedup s) (clock s) (deduplication_key n) = (b, d')"
  shows "agent_trace E s0 (tr @ [Queued evt, Accepted evt n, Quiet, Decided (clock s) n b])
    (set_worker i (if b then Fresh n else Idle) (s\<lparr>dedup := d'\<rparr>))"
proof -
  let ?s1 = "s\<lparr>queue := [evt]\<rparr>"
  let ?s2 = "set_worker i (Parsed n) s"
  let ?s3 = "set_worker i (Clock_Read n (clock s)) s"
  have 1: "agent_event E s (Queued evt) ?s1"
    using e_enqueue [of s evt True ?s1 E] assms(2,3,4) by (simp add: try_enqueue_def)
  have same: "s\<lparr>queue := [], pool := p\<rparr> = s\<lparr>pool := p\<rparr>" for p
    by (rule agent.equality) (simp_all add: assms(3))
  have 2: "agent_event E ?s1 (Accepted evt n) ?s2"
    using e_accept [of i ?s1 evt "[]" E n] assms(5,6) by (simp add: same)
  have 3: "agent_event E ?s2 Quiet ?s3"
    using q_clock [of i ?s2 n E] assms(5) by (intro e_quiet) simp
  have 4: "agent_event E ?s3 (Decided (clock s) n b) (set_worker i (if b then Fresh n else Idle) (s\<lparr>dedup := d'\<rparr>))"
    using e_decide [of i ?s3 n "clock s" b d' E] assms(5,7) by simp
  from t_step [OF t_step [OF t_step [OF t_step [OF assms(1) 1] 2] 3] 4] show ?thesis by simp
qed

lemma offer_trace:
  assumes "agent_trace E s0 tr s" and "worker_is i (Fresh n) s"
  shows "\<exists>l over s'. agent_trace E s0 (tr @ [Observed_Ack n, Offered n l over]) s'"
proof -
  obtain lg d where "publish_ack (\<lambda>_. (Inr (), None)) (observed_ack (device_id s) n) (log s) = (lg, d)" by fastforce
  from e_observe [OF assms(2) this]
  have 1: "agent_event E s (Observed_Ack n) (set_worker i (Observed n) (s\<lparr>log := lg\<rparr>))" (is "agent_event E s _ ?s1") .
  obtain a' where a': "agg_add (env_graphemes E) (clock ?s1) n (aggr ?s1) = Some a'" using agg_add_Some by blast
  have "worker_is i (Observed n) ?s1" using assms(2) by simp
  from t_step [OF t_step [OF assms(1) 1] e_offer [OF this a']] show ?thesis by (intro exI) simp
qed

text \<open>Three workers, a cache of one entry, and messages whose payload is their event id.\<close>

definition trace_env :: env where
  "trace_env = \<lparr>env_ucd = ascii_ucd, env_url_parse = example_url_parse,
     env_from_slice = (\<lambda>p. Inr (example_wire\<lparr>w_event_id := Some (map unat p)\<rparr>)), env_graphemes = crlf_graphemes\<rparr>"

definition trace_msg :: "u8 \<Rightarrow> received_event" where
  "trace_msg c = \<lparr>re_payload = [c], re_received_at = 7, re_seq = 1\<rparr>"

definition trace_cache :: dedup_cache where
  "trace_cache = the (dedup_new 1 600)"

definition trace_agent :: agent where
  "trace_agent = the (build_agent \<lparr>queue_capacity = 5, workers = 3\<rparr> aggregator_config_default trace_cache 0 (str ''d''))"

lemma trace_setup:
  "dedup_new 1 600 = Some trace_cache"
  "build_agent \<lparr>queue_capacity = 5, workers = 3\<rparr> aggregator_config_default trace_cache 0 (str ''d'') = Some trace_agent"
  "dedup_inv trace_cache"
proof -
  show c: "dedup_new 1 600 = Some trace_cache" by (simp add: trace_cache_def dedup_new_def)
  then show "dedup_inv trace_cache" by (rule dedup_new_inv)
  show "build_agent \<lparr>queue_capacity = 5, workers = 3\<rparr> aggregator_config_default trace_cache 0 (str ''d'') = Some trace_agent"
    by (simp add: trace_agent_def build_agent_def pipeline_start_def)
qed

lemma trace_agent_state [simp]:
  "queue trace_agent = []" "q_capacity trace_agent = 5" "channel_open trace_agent" "pool trace_agent = [Idle, Idle, Idle]"
  "dedup trace_agent = trace_cache" "clock trace_agent = 0" "tx_alive trace_agent"
  by (simp_all add: trace_agent_def build_agent_def pipeline_start_def channel_open_def numeral_3_eq_3)

lemma trace_parse: "\<exists>n. parses trace_env (trace_msg c) = Inr n \<and> deduplication_key n = [unat c]" if "c = 97 \<or> c = 98"
proof -
  have "case parses trace_env (trace_msg c) of Inr n \<Rightarrow> deduplication_key n = [unat c] | Inl _ \<Rightarrow> False"
    using that by (elim disjE; hypsubst) code_simp+
  then show ?thesis by (auto split: sum.splits)
qed

lemma first_arrival:
  "\<exists>n c1. parses trace_env (trace_msg 97) = Inr n \<and> deduplication_key n = [97] \<and>
     try_add trace_cache 0 [97] = (True, c1) \<and>
     agent_trace trace_env trace_agent [Queued (trace_msg 97), Accepted (trace_msg 97) n, Quiet, Decided 0 n True]
       (set_worker 0 (Fresh n) (trace_agent\<lparr>dedup := c1\<rparr>))"
proof -
  obtain n where n: "parses trace_env (trace_msg 97) = Inr n" "deduplication_key n = [97]"
    using trace_parse [of 97] by auto
  have "fst (try_add trace_cache 0 [97])" unfolding trace_cache_def by code_simp
  then obtain c1 where c1: "try_add trace_cache 0 [97] = (True, c1)" by (metis (full_types) prod.collapse)
  from arrival_trace [OF t_start, of trace_agent 0 trace_env "trace_msg 97" n True c1] n c1 show ?thesis by auto
qed

theorem custody_chain_witness:
  "\<exists>tr s n. agent_trace trace_env trace_agent tr s \<and> tally observed tr = {#n#} \<and> tally observed tr \<subseteq># tally admitted tr \<and>
     map fst (log s) = [observed_ack (str ''d'') n]"
proof -
  obtain n c1 where a: "agent_trace trace_env trace_agent [Queued (trace_msg 97), Accepted (trace_msg 97) n, Quiet, Decided 0 n True]
       (set_worker 0 (Fresh n) (trace_agent\<lparr>dedup := c1\<rparr>))"
    using first_arrival by blast
  from offer_trace [OF a, of 0 n] obtain l over s where
    tr: "agent_trace trace_env trace_agent [Queued (trace_msg 97), Accepted (trace_msg 97) n, Quiet, Decided 0 n True,
      Observed_Ack n, Offered n l over] s" by auto
  from custody_chain [OF trace_setup(3,2) tr] tr show ?thesis by (intro exI conjI) (assumption, simp_all)
qed

theorem nothing_vanishes_witness:
  "\<exists>m. agent_trace trace_env trace_agent [Queued m, Invalid m Empty] trace_agent \<and>
     image_mset (parses trace_env) {#m#} = image_mset Inl {#Empty#}"
proof -
  define m :: received_event where "m = \<lparr>re_payload = [], re_received_at = 7, re_seq = 1\<rparr>"
  have empty: "parses trace_env m = Inl Empty" by (simp add: m_def parse_event_def)
  let ?s1 = "trace_agent\<lparr>queue := [m]\<rparr>"
  have same: "?s1\<lparr>queue := []\<rparr> = trace_agent" by (rule agent.equality) simp_all
  have "agent_event trace_env trace_agent (Queued m) ?s1"
    using e_enqueue [of trace_agent m True ?s1 trace_env] by (simp add: try_enqueue_def)
  moreover have "agent_event trace_env ?s1 (Invalid m Empty) trace_agent"
    using e_invalid [of 0 ?s1 m "[]" trace_env Empty] empty same by simp
  ultimately have tr: "agent_trace trace_env trace_agent ([] @ [Queued m] @ [Invalid m Empty]) trace_agent"
    by (metis append_assoc t_start t_step)
  have "buckets (aggr trace_agent) = []" "renders (aggr trace_agent) = []" "acking trace_agent = []"
    by (simp_all add: trace_agent_def build_agent_def pipeline_start_def aggregator_new_def)
  then have "quiescent trace_agent" by (simp add: quiescent_def)
  from nothing_vanishes [OF trace_setup(3,2) tr this] tr show ?thesis by auto
qed

theorem shutdown_accounts_for_all_witness:
  "\<exists>s' tr. (agent_step trace_env)\<^sup>*\<^sup>* (pipeline_close trace_agent) s' \<and> quiescent s' \<and> agent_trace trace_env trace_agent tr s'"
proof -
  have "agent_step trace_env trace_agent (pipeline_close trace_agent)" by (rule close)
  then have "reachable trace_env trace_agent (pipeline_close trace_agent)" by (rule reachable.step [OF reachable.start])
  moreover have "\<not> channel_open (pipeline_close trace_agent)"
    by (simp add: channel_open_def pipeline_close_def trace_agent_def build_agent_def pipeline_start_def)
  ultimately show ?thesis using shutdown_accounts_for_all [OF trace_setup(3,2)] by fastforce
qed


theorem agent_admits_once_witness:
  "\<exists>tr2 n1 n2 s. agent_trace trace_env trace_agent
       ([Queued (trace_msg 97), Accepted (trace_msg 97) n1, Quiet] @ Decided 0 n1 True # tr2 @ [Decided 0 n2 True]) s \<and>
     deduplication_key n1 = deduplication_key n2 \<and> 1 \<le> size (tally admitted tr2)"
proof -
  obtain n1 c1 where 1: "parses trace_env (trace_msg 97) = Inr n1" "deduplication_key n1 = [97]"
    "try_add trace_cache 0 [97] = (True, c1)"
    "agent_trace trace_env trace_agent [Queued (trace_msg 97), Accepted (trace_msg 97) n1, Quiet, Decided 0 n1 True]
       (set_worker 0 (Fresh n1) (trace_agent\<lparr>dedup := c1\<rparr>))"
    using first_arrival by blast
  obtain n2 where n2: "parses trace_env (trace_msg 98) = Inr n2" "deduplication_key n2 = [98]"
    using trace_parse [of 98] by auto
  have c: "fst (try_add (snd (try_add trace_cache 0 [97])) 0 [98])"
    "fst (try_add (snd (try_add (snd (try_add trace_cache 0 [97])) 0 [98])) 0 [97])"
    unfolding trace_cache_def by code_simp+
  obtain c2 c3 where c2: "try_add c1 0 [98] = (True, c2)" and c3: "try_add c2 0 [97] = (True, c3)"
    using c 1(3) by (metis (full_types) prod.collapse snd_conv)
  let ?s1 = "set_worker 0 (Fresh n1) (trace_agent\<lparr>dedup := c1\<rparr>)"
  let ?s2 = "set_worker 1 (Fresh n2) (?s1\<lparr>dedup := c2\<rparr>)"
  have "channel_open ?s1" "channel_open ?s2" by (simp_all add: channel_open_def)
  then have 2: "agent_trace trace_env trace_agent ([Queued (trace_msg 97), Accepted (trace_msg 97) n1, Quiet, Decided 0 n1 True] @
      [Queued (trace_msg 98), Accepted (trace_msg 98) n2, Quiet, Decided 0 n2 True]) ?s2"
    using arrival_trace [OF 1(4), of 1 "trace_msg 98" n2 True c2] n2 c2 by simp
  have 3: "agent_trace trace_env trace_agent (([Queued (trace_msg 97), Accepted (trace_msg 97) n1, Quiet, Decided 0 n1 True] @
      [Queued (trace_msg 98), Accepted (trace_msg 98) n2, Quiet, Decided 0 n2 True]) @
      [Queued (trace_msg 97), Accepted (trace_msg 97) n1, Quiet, Decided 0 n1 True]) (set_worker 2 (Fresh n1) (?s2\<lparr>dedup := c3\<rparr>))"
    using arrival_trace [OF 2, of 2 "trace_msg 97" n1 True c3] 1(1,2) c3 \<open>channel_open ?s2\<close> by simp
  then have tr: "agent_trace trace_env trace_agent ([Queued (trace_msg 97), Accepted (trace_msg 97) n1, Quiet] @ Decided 0 n1 True #
      [Queued (trace_msg 98), Accepted (trace_msg 98) n2, Quiet, Decided 0 n2 True, Queued (trace_msg 97), Accepted (trace_msg 97) n1, Quiet] @
      [Decided 0 n1 True]) (set_worker 2 (Fresh n1) (?s2\<lparr>dedup := c3\<rparr>))" by simp
  from agent_admits_once [OF trace_setup(1) _ trace_setup(2) tr] tr show ?thesis by (intro exI conjI) (assumption, simp_all)
qed

theorem agent_suppresses_duplicates_witness:
  "\<exists>tr n s. agent_trace trace_env trace_agent (tr @ [Decided 0 n False]) s \<and> (\<exists>t' n'. Decided t' n' True \<in> set tr)"
proof -
  obtain n c1 where 1: "parses trace_env (trace_msg 97) = Inr n" "deduplication_key n = [97]"
    "try_add trace_cache 0 [97] = (True, c1)"
    "agent_trace trace_env trace_agent [Queued (trace_msg 97), Accepted (trace_msg 97) n, Quiet, Decided 0 n True]
       (set_worker 0 (Fresh n) (trace_agent\<lparr>dedup := c1\<rparr>))"
    using first_arrival by blast
  have "\<not> fst (try_add (snd (try_add trace_cache 0 [97])) 0 [97])" unfolding trace_cache_def by code_simp
  then obtain c2 where c2: "try_add c1 0 [97] = (False, c2)" using 1(3) by (metis (full_types) prod.collapse snd_conv)
  have "channel_open (set_worker 0 (Fresh n) (trace_agent\<lparr>dedup := c1\<rparr>))" by (simp add: channel_open_def)
  then have "agent_trace trace_env trace_agent ([Queued (trace_msg 97), Accepted (trace_msg 97) n, Quiet, Decided 0 n True] @
      [Queued (trace_msg 97), Accepted (trace_msg 97) n, Quiet, Decided 0 n False])
      (set_worker 1 Idle (set_worker 0 (Fresh n) (trace_agent\<lparr>dedup := c1\<rparr>)\<lparr>dedup := c2\<rparr>))"
    using arrival_trace [OF 1(4), of 1 "trace_msg 97" n False c2] 1(1,2) c2 by simp
  then obtain s where tr: "agent_trace trace_env trace_agent (([Queued (trace_msg 97), Accepted (trace_msg 97) n, Quiet, Decided 0 n True] @
      [Queued (trace_msg 97), Accepted (trace_msg 97) n, Quiet]) @ [Decided 0 n False]) s" by auto
  from agent_suppresses_duplicates [OF trace_setup(1,2) tr] tr show ?thesis by blast
qed

theorem drops_counted_witness:
  "\<exists>s0 s. build_agent \<lparr>queue_capacity = 1, workers = 1\<rparr> aggregator_config_default trace_cache 0 (str ''d'') = Some s0 \<and>
     agent_trace trace_env s0 [Queued (trace_msg 97), Overflowed (trace_msg 98)] s \<and> unat (dropped_queue_full s) = 1"
proof -
  obtain s0 where s0: "build_agent \<lparr>queue_capacity = 1, workers = 1\<rparr> aggregator_config_default trace_cache 0 (str ''d'') = Some s0"
    by (simp add: build_agent_def pipeline_start_def)
  then have q: "queue s0 = []" "q_capacity s0 = 1" "tx_alive s0" by (auto simp: build_agent_def pipeline_start_def)
  let ?s1 = "s0\<lparr>queue := [trace_msg 97]\<rparr>"
  have "agent_event trace_env s0 (Queued (trace_msg 97)) ?s1"
    using e_enqueue [of s0 "trace_msg 97" True ?s1 trace_env] q by (simp add: try_enqueue_def channel_open_def)
  moreover have "agent_event trace_env ?s1 (Overflowed (trace_msg 98)) (snd (try_enqueue (trace_msg 98) ?s1))"
    using e_enqueue [of ?s1 "trace_msg 98" False _ trace_env] q by (simp add: try_enqueue_def channel_open_def)
  ultimately have tr: "agent_trace trace_env s0 ([] @ [Queued (trace_msg 97)] @ [Overflowed (trace_msg 98)]) (snd (try_enqueue (trace_msg 98) ?s1))"
    by (metis append_assoc t_start t_step)
  from conjunct1 [OF drops_counted [OF s0 tr]] s0 tr show ?thesis by (intro exI conjI) (assumption, simp_all)
qed

end
