(* ===== verification/Host_Trace.thy ===== *)
theory Host_Trace
  imports Host Agent_Trace "HOL-Library.Sublist"
begin

section \<open>Runs of the host: every message from its arrival on\<close>

text \<open>
  A run of the host is what its subscribe loop does with the messages, interleaved with what the agent does by itself and, once, the
  beginning of the shutdown. It keeps the list of the messages with their receipt times, and the labels of the agent's
  trace. So the theorems about the agent's books become theorems about messages.
\<close>

text \<open>The loop hands a message to the intake queue only if it is not empty, with the next stamp.\<close>

definition arrival_labels :: "agent_host \<Rightarrow> u8 list \<Rightarrow> datetime \<Rightarrow> event list" where
  "arrival_labels h payload now =
     (if payload = [] then []
      else let evt = \<lparr>re_payload = payload, re_received_at = now, re_seq = next_seq h + 1\<rparr> in
        [if fst (handle_enqueue evt (agent h)) then Queued evt else Overflowed evt])"

inductive host_run :: "env \<Rightarrow> agent_host \<Rightarrow> (u8 list \<times> datetime) list \<Rightarrow> event list \<Rightarrow> agent_host \<Rightarrow> bool" for E h0 where
  r_start: "host_run E h0 [] [] h0"
| r_message: "host_run E h0 ms tr h \<Longrightarrow> 0 < handles (agent h) \<Longrightarrow> on_message h (Some payload) now = Running h' \<Longrightarrow>
    host_run E h0 (ms @ [(payload, now)]) (tr @ arrival_labels h payload now) h'"
| r_agent: "host_run E h0 ms tr h \<Longrightarrow> agent_event E (agent h) ev s' \<Longrightarrow> queued ev = {#} \<Longrightarrow> overflowed ev = {#} \<Longrightarrow>
    tx_alive s' = tx_alive (agent h) \<Longrightarrow> handles s' = handles (agent h) \<Longrightarrow> host_run E h0 ms (tr @ [ev]) (h\<lparr>agent := s'\<rparr>)"
| r_shutdown: "host_run E h0 ms tr h \<Longrightarrow> 0 < handles (agent h) \<Longrightarrow> host_run E h0 ms (tr @ [Quiet, Quiet]) (shutdown_begin h)"

text \<open>The messages as the loop stamps them, and the order in which a trace puts them into the queue, refuses them and takes them out.\<close>

fun stamped :: "u64 \<Rightarrow> (u8 list \<times> datetime) list \<Rightarrow> received_event list" where
  "stamped k [] = []"
| "stamped k ((payload, now) # ms) =
     (if payload = [] then stamped k ms
      else \<lparr>re_payload = payload, re_received_at = now, re_seq = k + 1\<rparr> # stamped (k + 1) ms)"

fun arrived :: "event \<Rightarrow> received_event list" where
  "arrived (Queued evt) = [evt]"
| "arrived (Overflowed evt) = [evt]"
| "arrived _ = []"

fun put_in :: "event \<Rightarrow> received_event list" where
  "put_in (Queued evt) = [evt]"
| "put_in _ = []"

fun taken_out :: "event \<Rightarrow> received_event list" where
  "taken_out (Invalid evt _) = [evt]"
| "taken_out (Accepted evt _) = [evt]"
| "taken_out _ = []"

lemma stamped_append:
  "stamped k (ms @ ms') = stamped k ms @ stamped (k + of_nat (length (stamped k ms))) ms'"
  by (induction k ms rule: stamped.induct) (simp_all add: ac_simps)

lemma arrived_books: "mset (concat (map arrived tr)) = tally queued tr + tally overflowed tr"
proof (induction tr)
  case (Cons ev tr)
  then show ?case by (cases ev) simp_all
qed simp

lemma put_in_arrived: "subseq (concat (map put_in tr)) (concat (map arrived tr))"
proof (induction tr)
  case (Cons ev tr)
  then show ?case by (cases ev) (auto intro: subseq_Cons')
qed simp

text \<open>The queue is first in, first out, whatever the workers do.\<close>

lemma trace_fifo:
  assumes "agent_trace E s0 tr s"
  shows "queue s0 @ concat (map put_in tr) = concat (map taken_out tr) @ queue s"
  using assms
proof (induction rule: agent_trace.induct)
  case (t_step tr s ev s')
  note IH = t_step.IH
  from t_step.hyps(2) show ?case
  proof cases
    case (e_enqueue evt ok)
    then show ?thesis using IH by (auto simp: try_enqueue_def split: if_splits)
  next
    case e_quiet
    from e_quiet(2) show ?thesis
      by cases (use IH e_quiet(1) in \<open>auto simp: intake_handle_def drop_handle_def pipeline_close_def\<close>)
  qed (use IH in auto)
qed simp

lemma host_run_books:
  assumes "host_run E h0 ms tr h" and "tx_alive (agent h0)" and "handles (agent h0) = 1"
  shows "agent_trace E (agent h0) tr (agent h) \<and> concat (map arrived tr) = stamped (next_seq h0) ms \<and>
    next_seq h = next_seq h0 + of_nat (length (stamped (next_seq h0) ms)) \<and>
    (tx_alive (agent h) \<and> handles (agent h) = 1 \<or> \<not> tx_alive (agent h) \<and> handles (agent h) = 0)"
  using assms(1)
proof (induction rule: host_run.induct)
  case r_start
  show ?case using assms(2,3) by (simp add: t_start)
next
  case (r_message ms tr h payload now h')
  show ?case
  proof (cases "payload = []")
    case True
    then have "h' = h" using r_message.hyps(3) by (simp add: on_message_def)
    with True r_message.IH show ?thesis by (simp add: arrival_labels_def stamped_append)
  next
    case False
    let ?evt = "\<lparr>re_payload = payload, re_received_at = now, re_seq = next_seq h + 1\<rparr>"
    have h': "h' = h\<lparr>next_seq := next_seq h + 1, agent := snd (try_enqueue ?evt (agent h))\<rparr>"
      using r_message.hyps(3) False by (simp add: on_message_def Let_def handle_enqueue_eq)
    have "agent_event E (agent h) (if fst (try_enqueue ?evt (agent h)) then Queued ?evt else Overflowed ?evt) (snd (try_enqueue ?evt (agent h)))"
      using r_message.hyps(2) by (intro e_enqueue) (simp_all add: channel_open_def)
    then show ?thesis
      using False r_message.IH t_step
      by (auto simp: h' arrival_labels_def handle_enqueue_eq stamped_append try_enqueue_def)
  qed
next
  case (r_agent ms tr h ev s')
  have "arrived ev = []" using r_agent.hyps by (cases ev) auto
  with r_agent show ?case by (auto intro: t_step)
next
  case (r_shutdown ms tr h)
  have "agent_event E (agent h) Quiet (drop_handle (agent h))" using r_shutdown.hyps by (intro e_quiet q_drop)
  moreover have "agent_event E (drop_handle (agent h)) Quiet (pipeline_close (drop_handle (agent h)))" by (intro e_quiet q_close)
  ultimately have "agent_trace E (agent h0) ((tr @ [Quiet]) @ [Quiet]) (agent (shutdown_begin h))"
    using r_shutdown.IH unfolding shutdown_begin_def by (auto intro: t_step simp del: append_assoc)
  with r_shutdown show ?case by (auto simp: shutdown_begin_def pipeline_close_def drop_handle_def)
qed

text \<open>After the shutdown has begun the host goes on as the agent does.\<close>

lemma closed_host_run:
  assumes "host_run E h0 ms tr h" and "\<not> channel_open (agent h)" and "(agent_step E)\<^sup>*\<^sup>* (agent h) s'"
  shows "\<exists>tr'. host_run E h0 ms (tr @ tr') (h\<lparr>agent := s'\<rparr>) \<and> \<not> channel_open s'"
  using assms(3)
proof (induction rule: rtranclp_induct)
  case base
  have "h\<lparr>agent := agent h\<rparr> = h" by simp
  with assms(1,2) show ?case by (metis append_Nil2)
next
  case (step s s')
  then obtain tr' where tr': "host_run E h0 ms (tr @ tr') (h\<lparr>agent := s\<rparr>)" "\<not> channel_open s" by blast
  have closed: "\<not> channel_open s'" using closed_step [OF step.hyps(2) tr'(2)] by blast
  obtain ev where ev: "agent_event E s ev s'" using agent_step_event [OF step.hyps(2)] by blast
  have "queued ev = {#}" "overflowed ev = {#}" using ev tr'(2) by (cases; simp)+
  with r_agent [OF tr'(1)] ev closed tr'(2) have "host_run E h0 ms ((tr @ tr') @ [ev]) (h\<lparr>agent := s'\<rparr>)"
    by (auto simp: channel_open_def)
  with closed show ?case by (metis append_assoc)
qed

lemma sorted_subseq: "subseq xs ys \<Longrightarrow> sorted_wrt P ys \<Longrightarrow> sorted_wrt P xs"
  by (induction rule: list_emb.induct) (auto dest: subseq_order.order_trans list_emb_set)

lemma stamped_sorted:
  "unat k + length ms < 2 ^ 64 \<Longrightarrow> sorted_wrt (<) (map re_seq (stamped k ms)) \<and> (\<forall>e \<in> set (stamped k ms). k < re_seq e)"
proof (induction k ms rule: stamped.induct)
  case (2 k payload now ms)
  show ?case
  proof (cases "payload = []")
    case False
    have next_stamp: "unat (k + 1) = unat k + 1" using "2.prems" by (simp add: unat_word_ariths)
    then have "k < k + 1" by (simp add: word_less_nat_alt)
    moreover have "sorted_wrt (<) (map re_seq (stamped (k + 1) ms)) \<and> (\<forall>e \<in> set (stamped (k + 1) ms). k + 1 < re_seq e)"
      using "2.IH"(2) [OF False] "2.prems" next_stamp by simp
    ultimately show ?thesis using False by (auto intro: less_trans)
  qed (use 2 in auto)
qed simp

subsection \<open>Properties\<close>

lemma started_run:
  assumes "host_start cfg identity auth plain connect subscribe now = Some (Inr h0)" and "host_run E h0 ms tr h"
  obtains dd ag who where "dedup_new 10000 (from_secs 600) = Some dd" "build_agent pipeline_config_default aggregator_config_default dd now (id_device_id who) = Some ag"
    "identity = Inr who" "agent_trace E ag (Quiet # tr) (agent h)" "concat (map arrived tr) = stamped 0 ms"
    "tx_alive (agent h) \<and> handles (agent h) = 1 \<or> \<not> channel_open (agent h)" "queue ag = []" "length (pool (agent h)) = 2"
proof -
  obtain dd who ag where start: "dedup_new 10000 (from_secs 600) = Some dd" "identity = Inr who"
    "build_agent pipeline_config_default aggregator_config_default dd now (id_device_id who) = Some ag"
    "agent h0 = intake_handle ag" "next_seq h0 = 0"
    using assms(1)
    by (auto simp: host_start_def Let_def bind_eq_Some_conv split: sum.splits option.splits) (metis sumE old.unit.exhaust)+
  have ag: "tx_alive ag" "handles ag = 0" "queue ag = []" "length (pool ag) = 2"
    using start(3) by (auto simp: build_agent_def pipeline_start_def pipeline_config_default_def split: if_splits)
  note books = host_run_books [OF assms(2)]
  have run: "agent_trace E (agent h0) tr (agent h)" "concat (map arrived tr) = stamped 0 ms"
    "tx_alive (agent h) \<and> handles (agent h) = 1 \<or> \<not> channel_open (agent h)"
    using books start(4,5) ag by (auto simp: intake_handle_def channel_open_def)
  have "agent_event E ag Quiet (intake_handle ag)" using ag(1) by (intro e_quiet q_handle)
  from t_step [OF t_start this] run(1) start(4) have tr: "agent_trace E ag (Quiet # tr) (agent h)"
    using agent_trace_append_iff [of E ag "[Quiet]" tr "agent h"] by auto
  have "length (pool (agent h)) = 2" using reachable_frame [OF trace_reachable [OF tr]] ag(4) by simp
  with that [OF start(1) start(3) start(2) tr run(2,3) ag(3)] show thesis by blast
qed

lemma host_rests:
  assumes "host_start cfg identity auth plain connect subscribe now = Some (Inr h0)" and "host_run E h0 ms tr h"
  shows "\<exists>tr' h'. host_run E h0 ms (tr @ tr') h' \<and> \<not> channel_open (agent h') \<and> quiescent (agent h')"
proof -
  obtain dd ag who where
    dd: "dedup_new 10000 (from_secs 600) = Some dd" and ag: "build_agent pipeline_config_default aggregator_config_default dd now (id_device_id who) = Some ag"
    and "identity = Inr who" and tr: "agent_trace E ag (Quiet # tr) (agent h)" "concat (map arrived tr) = stamped 0 ms"
    and chan: "tx_alive (agent h) \<and> handles (agent h) = 1 \<or> \<not> channel_open (agent h)"
    and "queue ag = []" and pool: "length (pool (agent h)) = 2"
    by (rule started_run [OF assms])
  note built = dedup_new_inv [OF dd] ag
  have inv: "agent_inv (agent h)"
    using reachable_inv [OF trace_reachable [OF tr(1)]] build_agent_inv [OF built(2,1)] by blast
  have some: "pool (agent h) \<noteq> []" using pool by auto
  obtain tr1 h1 where closed: "host_run E h0 ms (tr @ tr1) h1" "\<not> channel_open (agent h1)" "agent_inv (agent h1)" "pool (agent h1) \<noteq> []"
  proof (cases "channel_open (agent h)")
    case True
    with chan have one: "handles (agent h) = 1" by blast
    then have "host_run E h0 ms (tr @ [Quiet, Quiet]) (shutdown_begin h)" by (intro r_shutdown assms(2)) simp
    with shutdown_begin_closes [OF inv one] some that show thesis by metis
  next
    case False
    with that [of "[]" h] assms(2) inv some show thesis by simp
  qed
  obtain s' where s': "(agent_step E)\<^sup>*\<^sup>* (agent h1) s'" "quiescent s'" using closed_rests [OF closed(3,2,4)] by blast
  obtain tr2 where tr2: "host_run E h0 ms ((tr @ tr1) @ tr2) (h1\<lparr>agent := s'\<rparr>)" "\<not> channel_open s'"
    using closed_host_run [OF closed(1,2) s'(1)] by blast
  show ?thesis
    by (intro exI [of _ "tr1 @ tr2"] exI [of _ "h1\<lparr>agent := s'\<rparr>"]) (use tr2 s'(2) in simp)
qed

text \<open>
  Property C2. Every message has exactly one fate, from the subscription on: from every state of a started host the shutdown can be
  completed, down to a state in which nothing waits or is in flight; and whenever the host is at rest, the non-empty
  messages it was sent are the ones refused at the full queue, as many as the drop counter says, and the ones taken into the queue, and of
  these each was invalid with the recorded reason, a suppressed duplicate, lost by the aggregator's policy, in
  a toast the platform refused, or shown and acknowledged as submitted.
\<close>

theorem every_message_has_a_fate:
  assumes "host_start cfg identity auth plain connect subscribe now = Some (Inr h0)" and "host_run E h0 ms tr h"
  shows "(\<exists>tr' h'. host_run E h0 ms (tr @ tr') h' \<and> \<not> channel_open (agent h') \<and> quiescent (agent h')) \<and>
    (quiescent (agent h) \<longrightarrow>
      mset (stamped 0 ms) = tally overflowed tr + tally queued tr \<and>
      dropped_queue_full (agent h) = of_nat (size (tally overflowed tr)) \<and>
      image_mset (parses E) (tally queued tr) = image_mset Inl (tally errors tr) +
        image_mset Inr (tally suppressed tr + tally lost tr + tally refused tr + tally submitted tr))"
proof -
  obtain dd ag who where
    dd: "dedup_new 10000 (from_secs 600) = Some dd" and ag: "build_agent pipeline_config_default aggregator_config_default dd now (id_device_id who) = Some ag"
    and "identity = Inr who" and tr: "agent_trace E ag (Quiet # tr) (agent h)" "concat (map arrived tr) = stamped 0 ms"
    and chan: "tx_alive (agent h) \<and> handles (agent h) = 1 \<or> \<not> channel_open (agent h)"
    and "queue ag = []" and pool: "length (pool (agent h)) = 2"
    by (rule started_run [OF assms])
  note built = dedup_new_inv [OF dd] ag
  note rests = host_rests [OF assms]
  have "image_mset (parses E) (tally queued tr) = image_mset Inl (tally errors tr) +
      image_mset Inr (tally suppressed tr + tally lost tr + tally refused tr + tally submitted tr)" if "quiescent (agent h)"
    using rest_accounts [OF built tr(1) that] by simp
  moreover have "dropped_queue_full (agent h) = of_nat (size (tally overflowed tr))"
    using trace_counters [OF tr(1)] built_trace(6) [OF built tr(1)] by simp
  moreover have "mset (stamped 0 ms) = tally overflowed tr + tally queued tr"
    using arrived_books [of tr] tr(2) by (simp add: ac_simps)
  ultimately show ?thesis using rests by simp
qed

text \<open>A host that was started on stubs and has been sent three messages, one of them empty.\<close>

definition stub_config :: agent_config where
  "stub_config = \<lparr>nats_url = str ''nats://h'', subject_template = str ''s.{0}'', ack_subject = str ''a''\<rparr>"

definition stub_start :: "(rstring + agent_host) option" where
  "stub_start = host_start stub_config (Inr \<lparr>id_user_id = str ''u'', id_device_id = str ''d''\<rparr>) None () (\<lambda>_ _. Inr ()) (\<lambda>_. Inr ()) 0"

definition three_messages :: "(u8 list \<times> datetime) list" where
  "three_messages = [([97], 7), ([], 8), ([98], 9)]"

lemma stub_run: "\<exists>h0 tr h. stub_start = Some (Inr h0) \<and> host_run E h0 three_messages tr h \<and> clock (agent h) = 0"
proof -
  obtain h0 where h0: "stub_start = Some (Inr h0)" "handles (agent h0) = 1" "clock (agent h0) = 0"
    by (simp add: stub_start_def host_start_def dedup_new_def build_agent_def pipeline_start_def pipeline_config_default_def
        intake_handle_def Let_def)
  define after where "after = (\<lambda>(h :: agent_host) p now. h\<lparr>next_seq := next_seq h + 1,
    agent := snd (handle_enqueue \<lparr>re_payload = p, re_received_at = now, re_seq = next_seq h + 1\<rparr> (agent h))\<rparr>)"
  have one: "host_run E h0 (ms @ [(p, now)]) (tr @ arrival_labels h p now) (after h p now) \<and> handles (agent (after h p now)) = 1 \<and> clock (agent (after h p now)) = clock (agent h)"
    if "host_run E h0 ms tr h" "handles (agent h) = 1" "p \<noteq> []" for ms tr h p now
    using r_message [OF that(1), of p now "after h p now"] that(2,3) by (simp add: after_def on_message_def Let_def handle_enqueue_def)
  have none: "host_run E h0 (ms @ [([], now)]) tr h" if "host_run E h0 ms tr h" "handles (agent h) = 1" for ms tr h now
    using r_message [OF that(1), of "[]" now h] that(2) by (simp add: on_message_def arrival_labels_def)
  obtain tr1 h1 where 1: "host_run E h0 [([97], 7)] tr1 h1" "handles (agent h1) = 1" "clock (agent h1) = 0"
    using one [OF r_start h0(2), of "[97]" 7] h0(3) by auto
  have 2: "host_run E h0 [([97], 7), ([], 8)] tr1 h1" using none [OF 1(1,2)] by simp
  show ?thesis using one [OF 2 1(2), of "[98]" 9] 1(3) h0(1) by (auto simp: three_messages_def)
qed

theorem every_message_has_a_fate_witness:
  "\<exists>h0 tr h. stub_start = Some (Inr h0) \<and> host_run example_env h0 three_messages tr h \<and> quiescent (agent h) \<and>
     size (tally overflowed tr) + size (tally queued tr) = 2"
proof -
  obtain h0 tr h where run: "stub_start = Some (Inr h0)" "host_run example_env h0 three_messages tr h" using stub_run by blast
  note start = run(1) [unfolded stub_start_def]
  obtain tr' h' where rest: "host_run example_env h0 three_messages (tr @ tr') h'" "quiescent (agent h')"
    using every_message_has_a_fate [OF start run(2)] by blast
  have "mset (stamped 0 three_messages) = tally overflowed (tr @ tr') + tally queued (tr @ tr')"
    using every_message_has_a_fate [OF start rest(1)] rest(2) by blast
  from arg_cong [OF this, of size] have "size (tally overflowed (tr @ tr')) + size (tally queued (tr @ tr')) = 2"
    by (simp add: three_messages_def)
  with run(1) rest show ?thesis by blast
qed

text \<open>
  Property C10. Messages are worked off in the order of arrival: at every moment of a started host, the messages the workers have taken so far
  followed by the ones still queued are the messages sent, in their order and with consecutive stamps from one on, less the empty
  ones and the ones refused at the full queue; and once fewer than \<open>2\<close> to the \<open>64\<close> messages have come, these stamps increase strictly.
\<close>

theorem arrival_order_kept:
  assumes "host_start cfg identity auth plain connect subscribe now = Some (Inr h0)" and "host_run E h0 ms tr h"
  shows "concat (map put_in tr) = concat (map taken_out tr) @ queue (agent h) \<and>
    subseq (concat (map taken_out tr) @ queue (agent h)) (stamped 0 ms) \<and>
    (length ms < 2 ^ 64 \<longrightarrow> sorted_wrt (<) (map re_seq (concat (map taken_out tr) @ queue (agent h))))"
proof -
  obtain dd ag who where "dedup_new 10000 (from_secs 600) = Some dd"
    and "build_agent pipeline_config_default aggregator_config_default dd now (id_device_id who) = Some ag" and "identity = Inr who"
    and tr: "agent_trace E ag (Quiet # tr) (agent h)" "concat (map arrived tr) = stamped 0 ms"
    and "tx_alive (agent h) \<and> handles (agent h) = 1 \<or> \<not> channel_open (agent h)"
    and empty: "queue ag = []" and "length (pool (agent h)) = 2"
    by (rule started_run [OF assms])
  have fifo: "concat (map put_in tr) = concat (map taken_out tr) @ queue (agent h)" using trace_fifo [OF tr(1)] empty by simp
  have sub: "subseq (concat (map put_in tr)) (stamped 0 ms)" using put_in_arrived [of tr] tr(2) by simp
  have "sorted_wrt (<) (map re_seq (concat (map put_in tr)))" if "length ms < 2 ^ 64"
    by (rule sorted_subseq [OF subseq_map [OF sub]]) (use stamped_sorted [of 0 ms] that in simp)
  with fifo sub show ?thesis by simp
qed

theorem arrival_order_kept_witness:
  "\<exists>h0 tr h. stub_start = Some (Inr h0) \<and> host_run example_env h0 three_messages tr h \<and>
     subseq (concat (map taken_out tr) @ queue (agent h)) (stamped 0 three_messages) \<and>
     sorted_wrt (<) (map re_seq (concat (map taken_out tr) @ queue (agent h)))"
proof -
  obtain h0 tr h where run: "stub_start = Some (Inr h0)" "host_run example_env h0 three_messages tr h" using stub_run by blast
  have "length three_messages < 2 ^ 64" by (simp add: three_messages_def)
  then show ?thesis using run arrival_order_kept [OF run(1) [unfolded stub_start_def] run(2)] by blast
qed

end
