(* ===== verification/Host_Guarantees.thy ===== *)
theory Host_Guarantees
  imports Host_Trace
begin

section \<open>What the outside can rely on\<close>

text \<open>
  The guarantees of a started host in terms of what can be observed from outside: the messages sent to it, the acknowledgements it publishes
  and the toasts it shows.
\<close>

fun submissions :: "event \<Rightarrow> (datetime \<times> inbound_notification) multiset" where
  "submissions (Submitted_Ack t n) = {#(t, n)#}"
| "submissions _ = {#}"

lemma submissions_snd: "image_mset snd (tally submissions tr) = tally submitted tr"
proof (induction tr)
  case (Cons ev tr)
  then show ?case by (cases ev) auto
qed simp

lemma acks_mset:
  "mset (concat (map (acks_of dev) tr)) =
     image_mset (observed_ack dev) (tally observed tr) + image_mset (\<lambda>(t, n). submitted_ack dev t n) (tally submissions tr)"
proof (induction tr)
  case (Cons ev tr)
  then show ?case by (cases ev) (auto simp: ac_simps)
qed simp

lemma image_mset_subset: "A \<subseteq># B \<Longrightarrow> image_mset f A \<subseteq># image_mset f B"
  by (rule image_mset_subseteq_mono)

text \<open>
  Property C3. Every acknowledgement is for a message: at every moment, and injectively, an observed-acknowledgement published by a started
  host belongs to one message that was sent to it and parsed, and a submitted-acknowledgement to one observed before; all carry the host's device
  id, the event's id and the receipt time of that message. So a message is acknowledged at most once at each stage, and nobody's
  event is acknowledged that was not sent.
\<close>

theorem acks_agree_with_messages:
  assumes "host_start cfg (Inr who) auth plain connect subscribe now = Some (Inr h0)" and "host_run E h0 ms tr h"
  shows "\<exists>obs sub. mset (map fst (log (agent h))) =
      image_mset (observed_ack (id_device_id who)) obs + image_mset (\<lambda>(t, n). submitted_ack (id_device_id who) t n) sub \<and>
    image_mset snd sub \<subseteq># obs \<and> image_mset Inr obs \<subseteq># image_mset (parses E) (mset (stamped 0 ms))"
proof -
  obtain dd ag who' where dd: "dedup_new 10000 (from_secs 600) = Some dd"
    and ag: "build_agent pipeline_config_default aggregator_config_default dd now (id_device_id who') = Some ag" and who: "Inr who = Inr who'"
    and tr: "agent_trace E ag (Quiet # tr) (agent h)" "concat (map arrived tr) = stamped 0 ms"
    and "tx_alive (agent h) \<and> handles (agent h) = 1 \<or> \<not> channel_open (agent h)" "queue ag = []" "length (pool (agent h)) = 2"
    by (rule started_run [OF assms]) blast
  note built = built_trace [OF dedup_new_inv [OF dd] ag tr(1)]
  note chain = balanced_chain [OF built(2)]
  have log: "mset (map fst (log (agent h))) = image_mset (observed_ack (id_device_id who)) (tally observed tr) +
      image_mset (\<lambda>(t, n). submitted_ack (id_device_id who) t n) (tally submissions tr)"
    using trace_log [OF tr(1) built(1)] built(3,4) who acks_mset [of "id_device_id who" tr] by simp
  have "tally observed tr \<subseteq># tally accepted tr" using chain by (auto intro: subset_mset.order_trans)
  then have "image_mset Inr (tally observed tr) \<subseteq># image_mset (parses E) (tally accepted_raw tr)"
    using trace_parses [OF tr(1)] image_mset_subset [of "tally observed tr" "tally accepted tr" Inr] by simp
  also have "\<dots> \<subseteq># image_mset (parses E) (tally queued tr)" using chain(6) by (simp add: image_mset_subset)
  also have "\<dots> \<subseteq># image_mset (parses E) (mset (stamped 0 ms))"
    using arrived_books [of tr] tr(2) by (intro image_mset_subset) simp
  finally have "image_mset Inr (tally observed tr) \<subseteq># image_mset (parses E) (mset (stamped 0 ms))" .
  moreover have "image_mset snd (tally submissions tr) \<subseteq># tally observed tr"
    using chain(1-3) by (simp add: submissions_snd)
  ultimately show ?thesis using log by blast
qed

theorem acks_agree_with_messages_witness:
  "\<exists>h0 tr h obs sub. stub_start = Some (Inr h0) \<and> host_run example_env h0 three_messages tr h \<and>
     mset (map fst (log (agent h))) = image_mset (observed_ack (str ''d'')) obs + image_mset (\<lambda>(t, n). submitted_ack (str ''d'') t n) sub \<and>
     size obs \<le> 2"
proof -
  obtain h0 tr h where run: "stub_start = Some (Inr h0)" "host_run example_env h0 three_messages tr h" using stub_run by blast
  from acks_agree_with_messages [OF run(1) [unfolded stub_start_def] run(2)] obtain obs sub where
    acks: "mset (map fst (log (agent h))) = image_mset (observed_ack (str ''d'')) obs + image_mset (\<lambda>(t, n). submitted_ack (str ''d'') t n) sub"
    "image_mset Inr obs \<subseteq># image_mset (parses example_env) (mset (stamped 0 three_messages))" by auto
  have "size obs \<le> 2" using size_mset_mono [OF acks(2)] by (simp add: three_messages_def)
  with run acks(1) show ?thesis by blast
qed

lemma length_stamped: "length (stamped k ms) \<le> length ms"
  by (induction k ms rule: stamped.induct) auto

text \<open>Two admissions of one key in a trace.\<close>

lemma in_admitted: "n \<in># tally admitted tr \<longleftrightarrow> (\<exists>t. Decided t n True \<in> set tr)"
proof (induction tr)
  case (Cons ev tr)
  then show ?case
  proof (cases ev)
    case (Decided t m b)
    with Cons show ?thesis by (cases b) auto
  qed auto
qed simp

lemma admitted_twice:
  assumes "2 \<le> size (filter_mset P (tally admitted tr))"
  shows "\<exists>tr1 t1 n1 tr2 t2 n2 tr3. tr = tr1 @ Decided t1 n1 True # tr2 @ Decided t2 n2 True # tr3 \<and> P n1 \<and> P n2"
  using assms
proof (induction tr)
  case (Cons ev tr)
  show ?case
  proof (cases "\<exists>t n. ev = Decided t n True \<and> P n")
    case True
    then obtain t n where ev: "ev = Decided t n True" "P n" by blast
    with Cons.prems have "0 < size (filter_mset P (tally admitted tr))" by simp
    then obtain m where "m \<in># filter_mset P (tally admitted tr)" unfolding nonempty_has_size [symmetric] by (rule multiset_nonemptyE)
    then have m: "m \<in># tally admitted tr" "P m" by auto
    from m(1) obtain t' where "Decided t' m True \<in> set tr" by (auto simp: in_admitted)
    then obtain us vs where "tr = us @ Decided t' m True # vs" by (auto dest: split_list)
    with ev m(2) show ?thesis by (metis append_Nil)
  next
    case False
    have "filter_mset P (admitted ev) = {#}"
    proof (cases ev)
      case (Decided t m b)
      then show ?thesis using False by (cases b) auto
    qed simp_all
    with Cons obtain tr1 t1 n1 tr2 t2 n2 tr3 where
      "tr = tr1 @ Decided t1 n1 True # tr2 @ Decided t2 n2 True # tr3" "P n1" "P n2" by auto
    then show ?thesis by (metis append_Cons)
  qed
qed simp

text \<open>
  Property C4. At most once: in the first ten minutes after the start, and as long as no more than ten thousand messages came, a deduplication
  key is shown at most once and gets at most one acknowledgement of each kind, however often and in whatever interleaving a producer
  repeats the event, with two workers racing for the cache.
\<close>

theorem shown_at_most_once:
  assumes "host_start cfg identity auth plain connect subscribe now = Some (Inr h0)" and "host_run E h0 ms tr h"
    and "clock (agent h) < now + from_secs 600" and "length ms \<le> 10000"
  shows "size {#n \<in># tally shown tr. deduplication_key n = k#} \<le> 1 \<and>
    size {#n \<in># tally observed tr. deduplication_key n = k#} \<le> 1 \<and>
    size {#n \<in># tally submitted tr. deduplication_key n = k#} \<le> 1"
proof -
  obtain dd ag who where dd: "dedup_new 10000 (from_secs 600) = Some dd"
    and ag: "build_agent pipeline_config_default aggregator_config_default dd now (id_device_id who) = Some ag" and "identity = Inr who"
    and tr: "agent_trace E ag (Quiet # tr) (agent h)" "concat (map arrived tr) = stamped 0 ms"
    and "tx_alive (agent h) \<and> handles (agent h) = 1 \<or> \<not> channel_open (agent h)" "queue ag = []" "length (pool (agent h)) = 2"
    by (rule started_run [OF assms(1,2)]) blast
  note built = built_trace [OF dedup_new_inv [OF dd] ag tr(1)]
  note chain = balanced_chain [OF built(2)]
  have start: "clock ag = now" "\<forall>n t. Clock_Read n t \<in> set (pool ag) \<longrightarrow> clock ag \<le> t"
    using ag by (auto simp: build_agent_def pipeline_start_def split: if_splits)
  have few: "size (tally admitted tr) \<le> length ms"
  proof -
    have "size (tally admitted tr) \<le> size (tally accepted tr)" using chain(5) by (simp add: size_mset_mono)
    also have "\<dots> = size (tally accepted_raw tr)" using arg_cong [OF conjunct2 [OF trace_parses [OF tr(1)]], of size] by simp
    also have "\<dots> \<le> size (tally queued tr)" using chain(6) by (simp add: size_mset_mono)
    also have "\<dots> \<le> size (mset (stamped 0 ms))" using arrived_books [of tr] tr(2) by simp
    also have "\<dots> \<le> length ms" by (simp add: length_stamped)
    finally show ?thesis .
  qed
  let ?P = "\<lambda>n. deduplication_key n = k"
  have once: "size (filter_mset ?P (tally admitted tr)) \<le> 1"
  proof (rule ccontr)
    assume "\<not> ?thesis"
    then have "2 \<le> size (filter_mset ?P (tally admitted tr))" by simp
    from admitted_twice [OF this] obtain tr1 t1 n1 tr2 t2 n2 tr3 where
      split: "tr = tr1 @ Decided t1 n1 True # tr2 @ Decided t2 n2 True # tr3" and keys: "deduplication_key n1 = k" "deduplication_key n2 = k"
      by blast
    have "agent_trace E ag (((Quiet # tr1) @ Decided t1 n1 True # tr2 @ [Decided t2 n2 True]) @ tr3) (agent h)"
      using tr(1) split by simp
    then obtain s2 where s2: "agent_trace E ag ((Quiet # tr1) @ Decided t1 n1 True # tr2 @ [Decided t2 n2 True]) s2"
        "agent_trace E s2 tr3 (agent h)"
      by (rule agent_trace_append_iff [THEN iffD1, THEN exE]) (rule that, auto)
    note past = trace_clock [OF s2(1) built(8)]
    have "clock s2 \<le> clock (agent h)" using trace_clock [OF s2(2)] past by blast
    moreover have "now \<le> t1" using trace_clock_from [OF s2(1) start(2) built(8)] start(1) by auto
    ultimately have "clock s2 < t1 + from_secs 600" using assms(3) by linarith
    from admits_once [OF dd _ ag s2(1) _ this] have "10000 \<le> size (tally admitted tr2)"
      using keys by (simp add: from_secs_def)
    with few assms(4) show False by (simp add: split)
  qed
  have "size (filter_mset ?P A) \<le> 1" if "A \<subseteq># tally admitted tr" for A
    using once size_mset_mono [OF multiset_filter_mono [OF that, of ?P]] by (meson order_trans)
  moreover have "tally observed tr \<subseteq># tally admitted tr" "tally shown tr \<subseteq># tally admitted tr" "tally submitted tr \<subseteq># tally admitted tr"
    using chain(1-4) by simp_all
  ultimately show ?thesis by blast
qed

theorem shown_at_most_once_witness:
  "\<exists>h0 tr h. stub_start = Some (Inr h0) \<and> host_run example_env h0 three_messages tr h \<and>
     size {#n \<in># tally observed tr. deduplication_key n = str ''e1''#} \<le> 1"
proof -
  obtain h0 tr h where run: "stub_start = Some (Inr h0)" "host_run example_env h0 three_messages tr h" "clock (agent h) = 0"
    using stub_run by blast
  have "clock (agent h) < 0 + from_secs 600" "length three_messages \<le> 10000"
    using run(3) by (simp_all add: from_secs_def three_messages_def)
  from shown_at_most_once [OF run(1) [unfolded stub_start_def] run(2) this, of "str ''e1''"] run show ?thesis by blast
qed

text \<open>
  Property C5. No critical event is lost on the way: at rest, a critical message that was sent and is well formed was refused at the full
  intake queue, or its event was suppressed as a duplicate, or the platform refused its toast, or it was shown and acknowledged as submitted.
  The bucket limit and the replacement of events never cost one.
\<close>

theorem critical_reaches_user:
  assumes "host_start cfg identity auth plain connect subscribe now = Some (Inr h0)" and "host_run E h0 ms tr h"
    and "quiescent (agent h)" and "evt \<in> set (stamped 0 ms)" and "parses E evt = Inr n" and "priority n = Critical"
  shows "evt \<in># tally overflowed tr \<or> n \<in># tally suppressed tr + tally refused tr + tally submitted tr"
proof -
  obtain dd ag who where dd: "dedup_new 10000 (from_secs 600) = Some dd"
    and ag: "build_agent pipeline_config_default aggregator_config_default dd now (id_device_id who) = Some ag" and "identity = Inr who"
    and tr: "agent_trace E ag (Quiet # tr) (agent h)" "concat (map arrived tr) = stamped 0 ms"
    and "tx_alive (agent h) \<and> handles (agent h) = 1 \<or> \<not> channel_open (agent h)" "queue ag = []" "length (pool (agent h)) = 2"
    by (rule started_run [OF assms(1,2)]) blast
  note inv = dedup_new_inv [OF dd]
  have kept: "n \<notin># tally lost tr"
  proof
    assume "n \<in># tally lost tr"
    then have "\<exists>m l over. Offered m l over \<in> set tr \<and> n \<in># l"
    proof (induction tr)
      case (Cons ev tr)
      then show ?case by (cases ev) auto
    qed simp
    then obtain m l over where off: "Offered m l over \<in> set tr" "n \<in># l" by blast
    then obtain us vs where "Quiet # tr = (Quiet # us) @ Offered m l over # vs" by (auto dest: split_list)
    with tr(1) have split: "agent_trace E ag ((Quiet # us) @ Offered m l over # vs) (agent h)" by simp
    from offer_loss [OF inv ag split] show False
    proof (elim disjE conjE)
      assume "priority m \<noteq> Critical" "\<forall>e \<in># l. key_of e = key_of m \<and> seq e \<le> seq m"
      with off(2) assms(6) show False by fastforce
    qed (use off(2) assms(6) in simp_all)
  qed
  have "evt \<in># mset (concat (map arrived tr))" using tr(2) assms(4) by simp
  then have "evt \<in># tally queued tr \<or> evt \<in># tally overflowed tr" by (simp only: arrived_books union_iff)
  moreover have "n \<in># tally suppressed tr + tally refused tr + tally submitted tr" if "evt \<in># tally queued tr"
  proof -
    have "Inr n \<in># image_mset (parses E) (tally queued tr)" unfolding assms(5) [symmetric] set_image_mset using that by (rule imageI)
    moreover have "image_mset (parses E) (tally queued tr) = image_mset Inl (tally errors tr) +
        image_mset Inr (tally suppressed tr + tally lost tr + tally refused tr + tally submitted tr)"
      using rest_accounts [OF inv ag tr(1) assms(3)] by simp
    ultimately have "Inr n \<in># image_mset Inl (tally errors tr) +
        image_mset Inr (tally suppressed tr + tally lost tr + tally refused tr + tally submitted tr)" by (simp only:)
    then have "n \<in># tally suppressed tr + tally lost tr + tally refused tr + tally submitted tr" by auto
    with kept show ?thesis by simp
  qed
  ultimately show ?thesis by blast
qed

definition critical_env :: env where
  "critical_env = example_env\<lparr>env_from_slice := \<lambda>_. Inr (example_wire
     \<lparr>w_classification := Some (wire_classification_default\<lparr>wl_priority := Some (str ''critical'')\<rparr>)\<rparr>)\<rparr>"

theorem critical_reaches_user_witness:
  "\<exists>h0 tr h n. stub_start = Some (Inr h0) \<and> host_run critical_env h0 three_messages tr h \<and>
     parses critical_env \<lparr>re_payload = [97], re_received_at = 7, re_seq = 1\<rparr> = Inr n \<and>
     (\<lparr>re_payload = [97], re_received_at = 7, re_seq = 1\<rparr> \<in># tally overflowed tr \<or>
      n \<in># tally suppressed tr + tally refused tr + tally submitted tr)"
proof -
  let ?evt = "\<lparr>re_payload = [97], re_received_at = 7, re_seq = 1\<rparr>"
  have "case parses critical_env ?evt of Inr n \<Rightarrow> priority n = Critical | Inl _ \<Rightarrow> False" by code_simp
  then obtain n where n: "parses critical_env ?evt = Inr n" "priority n = Critical" by (auto split: sum.splits)
  obtain h0 tr h where run: "stub_start = Some (Inr h0)" "host_run critical_env h0 three_messages tr h" using stub_run by blast
  note start = run(1) [unfolded stub_start_def]
  obtain tr' h' where rest: "host_run critical_env h0 three_messages (tr @ tr') h'" "quiescent (agent h')"
    using host_rests [OF start run(2)] by blast
  have "?evt \<in> set (stamped 0 three_messages)" by (simp add: three_messages_def)
  from critical_reaches_user [OF start rest this n] run(1) rest(1) n(1) show ?thesis by blast
qed

end
