(* ===== verification/Config_Tests.thy ===== *)
theory Config_Tests
  imports Settings Windows_Identity Nats_Auth
begin

section \<open>The unit tests of identity, authentication and settings\<close>

text \<open>
  The unit tests beside \<^verbatim>\<open>identity.rs\<close>, \<^verbatim>\<open>nats_auth.rs\<close>, \<^verbatim>\<open>settings.rs\<close> and \<^verbatim>\<open>windows_identity.rs\<close>. HTTP stubs
  are functions from requests to answers; the key pair, SHA-256, the client's credentials reader and the JSON readers stay
  arguments.
\<close>

subsection \<open>Token polls and scopes\<close>

definition classifies_token_poll_responses :: bool where
  "classifies_token_poll_responses \<longleftrightarrow>
     parse_token_poll (JObj [(str ''error'', JStr (str ''authorization_pending''))]) = Pending \<and>
     parse_token_poll (JObj [(str ''error'', JStr (str ''slow_down''))]) = SlowDown \<and>
     parse_token_poll (JObj [(str ''id_token'', JStr (str ''abc'')), (str ''access_token'', JStr (str ''def''))])
       = Success (str ''abc'') None \<and>
     parse_token_poll (JObj [(str ''id_token'', JStr (str ''abc'')), (str ''refresh_token'', JStr (str ''rt-1''))])
       = Success (str ''abc'') (Some (str ''rt-1'')) \<and>
     parse_token_poll (JObj [(str ''error'', JStr (str ''expired_token'')), (str ''error_description'', JStr (str ''gone''))])
       = Failed (str ''expired_token: gone'') \<and>
     parse_token_poll (JObj []) = Failed (str ''malformed token response'')"

definition device_code_scope_includes_offline_access_and_extra_scopes :: bool where
  "device_code_scope_includes_offline_access_and_extra_scopes \<longleftrightarrow>
     device_code_scope [] = str ''openid profile offline_access'' \<and>
     device_code_scope [str ''api://x/Nats.Connect''] = str ''openid profile offline_access api://x/Nats.Connect''"

text \<open>\<^verbatim>\<open>fake_jwt\<close>: \<open>encode\<close> is the base64url rendering of a JSON value.\<close>

definition fake_jwt :: "(json \<Rightarrow> rstring) \<Rightarrow> json \<Rightarrow> rstring" where
  "fake_jwt encode claims = encode (JObj [(str ''alg'', JStr (str ''none''))]) @ str ''.'' @ encode claims @ str ''.sig''"

definition decodes :: "jwt_readers \<Rightarrow> (json \<Rightarrow> rstring) \<Rightarrow> bool" where
  "decodes R encode \<longleftrightarrow> (\<forall>v. 46 \<notin> set (encode v) \<and>
     (\<exists>bytes. base64url R (encode v) = Inr bytes \<and> json_from_slice R bytes = Inr v))"

definition extracts_oid_from_id_token :: "jwt_readers \<Rightarrow> (json \<Rightarrow> rstring) \<Rightarrow> bool" where
  "extracts_oid_from_id_token R encode \<longleftrightarrow>
     oid_from_id_token R (fake_jwt encode (JObj [(str ''oid'', JStr (str ''7f92a845-0000-0000-0000-000000000001'')),
       (str ''name'', JStr (str ''x''))])) = Inr (str ''7f92a845-0000-0000-0000-000000000001'')"

definition rejects_token_without_oid :: "jwt_readers \<Rightarrow> (json \<Rightarrow> rstring) \<Rightarrow> bool" where
  "rejects_token_without_oid R encode \<longleftrightarrow>
     is_err (oid_from_id_token R (fake_jwt encode (JObj [(str ''name'', JStr (str ''x''))]))) \<and>
     is_err (oid_from_id_token R (str ''not-a-jwt''))"

definition env_identity_requires_user_id :: "ucd \<Rightarrow> rstring \<Rightarrow> bool" where
  "env_identity_requires_user_id u hostname \<longleftrightarrow>
     is_err (env_identity u ((\<lambda>_. None)(str ''NOTIFY_DEVICE_ID'' := Some (str ''d-test''))) hostname) \<and>
     env_identity u ((\<lambda>_. None)(str ''NOTIFY_DEVICE_ID'' := Some (str ''d-test''), str ''NOTIFY_USER_ID'' := Some (str ''u_demo'')))
       hostname = Inr \<lparr>id_user_id = str ''u_demo'', id_device_id = str ''d-test''\<rparr>"

lemma poll_tests:
  "classifies_token_poll_responses" "device_code_scope_includes_offline_access_and_extra_scopes"
  by code_simp+

lemma split_jwt: "46 \<notin> set a \<Longrightarrow> 46 \<notin> set b \<Longrightarrow> split_char 46 (a @ str ''.'' @ b @ str ''.sig'') = [a, b, str ''sig'']"
  by (simp add: str_def split_char_append)

lemma oid_tests:
  assumes "decodes R encode"
  shows "extracts_oid_from_id_token R encode" "rejects_token_without_oid R encode"
proof -
  have split: "split_char 46 (fake_jwt encode v) = [encode (JObj [(str ''alg'', JStr (str ''none''))]), encode v, str ''sig'']" for v
    using assms unfolding fake_jwt_def by (intro split_jwt) (auto simp: decodes_def)
  have read: "oid_from_id_token R (fake_jwt encode v) =
      (case str_field v ''oid'' of Some oid \<Rightarrow> Inr oid | None \<Rightarrow> Inl (str ''id_token has no oid claim''))" for v
    using assms [unfolded decodes_def, rule_format, of v] by (auto simp: oid_from_id_token_def split)
  show "extracts_oid_from_id_token R encode"
    by (simp add: extracts_oid_from_id_token_def read str_field_def json_get_def as_str_def)
  have "split_char 46 (str ''not-a-jwt'') = [str ''not-a-jwt'']" by code_simp
  moreover have "str ''name'' \<noteq> str ''oid''" by code_simp
  ultimately show "rejects_token_without_oid R encode"
    by (simp add: rejects_token_without_oid_def read str_field_def json_get_def is_err_def
        oid_from_id_token_def [of R "str ''not-a-jwt''"])
qed

lemma env_test: "env_identity_requires_user_id u hostname"
  by (simp add: env_identity_requires_user_id_def env_identity_def non_blank_def is_err_def str_def trim_def is_whitespace_def)

subsection \<open>Access tokens and NATS authentication\<close>

definition test_provider :: aad_token_provider where
  "test_provider = the (aad_token_provider_new True (str ''client-1'') (str ''test-tenant'') (str ''api://x/Nats.Connect''))"

definition aad_token_provider_errors_without_a_refresh_token_yet ::
  "(rstring \<Rightarrow> form \<Rightarrow> rstring + refresh_token_response) \<Rightarrow> bool" where
  "aad_token_provider_errors_without_a_refresh_token_yet post \<longleftrightarrow>
     (case aad_token_provider_new True (str ''c'') (str ''organizations'') (str ''api://x/Nats.Connect'') of
        None \<Rightarrow> False | Some provider \<Rightarrow> is_err (fst (access_token post provider None)))"

text \<open>
  A stub answers the one request a test expects, with a body that was read as JSON; what it received is checked by letting it answer that
  request only. \<open>base\<close> is its address, \<open>se\<close> the library's error for a body of another shape.
\<close>

definition stub_token :: "rstring \<Rightarrow> (string \<times> string) list \<Rightarrow> (json \<Rightarrow> rstring) \<Rightarrow> rstring \<Rightarrow> form \<Rightarrow> rstring + refresh_token_response" where
  "stub_token base body se = json_post refresh_token_response_of se (\<lambda>url fs.
     if url = base @ str ''/test-tenant/oauth2/v2.0/token'' \<and>
        map_of fs (str ''grant_type'') = Some (str ''refresh_token'') \<and>
        map_of fs (str ''refresh_token'') = Some (str ''rt-1'')
     then Inr (JObj (map (\<lambda>(k, v). (str k, JStr (str v))) body)) else Inl (str ''unexpected request''))"

definition aad_token_provider_success_path_rotates_refresh_token :: "(json \<Rightarrow> rstring) \<Rightarrow> rstring \<Rightarrow> bool" where
  "aad_token_provider_success_path_rotates_refresh_token se base \<longleftrightarrow>
     access_token (stub_token base [(''access_token'', ''at-1''), (''refresh_token'', ''rt-2'')] se)
       (test_provider\<lparr>authority_base := base\<rparr>) (Some (str ''rt-1'')) = (Inr (str ''at-1''), Some (str ''rt-2''))"

definition stub_jwt :: "rstring \<Rightarrow> rstring \<Rightarrow> jwt_answer \<Rightarrow> jwt_request \<Rightarrow> rstring + jwt_answer" where
  "stub_jwt bearer key answer req =
     (if jr_bearer req = bearer \<and> key \<in> snd ` set (jr_body req) then Inr answer else Inl (str ''unexpected request''))"

definition ok_answer :: "(json \<Rightarrow> rstring) \<Rightarrow> json \<Rightarrow> jwt_answer" where
  "ok_answer se body = jwt_answer_of se (str ''200 OK'') True body"

definition jwt_body :: "string \<Rightarrow> json" where
  "jwt_body jwt = JObj [(str ''jwt'', JStr (str jwt))]"

definition fetch_auth_posts_public_key_and_bearer_token_then_signs_nonce ::
  "(json \<Rightarrow> rstring) \<Rightarrow> nkeys \<Rightarrow> external_auth \<Rightarrow> u8 list \<Rightarrow> bool" where
  "fetch_auth_posts_public_key_and_bearer_token_then_signs_nonce se nk self signature \<longleftrightarrow>
     fetch_auth nk (stub_jwt (str ''aad-token-1'') (public_key self) (ok_answer se (jwt_body ''jwt-1''))) (Inr (str ''aad-token-1''))
       self (utf8_bytes (str ''the-nonce'')) = Inr \<lparr>auth_jwt = str ''jwt-1'', auth_signature = signature\<rparr>"

text \<open>The body of this answer is empty and never looked at.\<close>

definition fetch_auth_fails_on_non_success_status :: "nkeys \<Rightarrow> external_auth \<Rightarrow> rstring + rstring \<Rightarrow> bool" where
  "fetch_auth_fails_on_non_success_status nk self unread \<longleftrightarrow>
     is_err (fetch_auth nk (\<lambda>_. Inr \<lparr>ja_status = str ''401 Unauthorized'', ja_success = False, ja_jwt = unread\<rparr>)
       (Inr (str ''t'')) self (utf8_bytes (str ''nonce'')))"

definition fetch_auth_fails_when_response_has_no_jwt :: "(json \<Rightarrow> rstring) \<Rightarrow> nkeys \<Rightarrow> external_auth \<Rightarrow> bool" where
  "fetch_auth_fails_when_response_has_no_jwt se nk self \<longleftrightarrow>
     is_err (fetch_auth nk (\<lambda>_. Inr (ok_answer se (JObj []))) (Inr (str ''t'')) self (utf8_bytes (str ''nonce'')))"

definition aad_token_provider_feeds_external_auth_service_end_to_end ::
  "(json \<Rightarrow> rstring) \<Rightarrow> nkeys \<Rightarrow> external_auth \<Rightarrow> rstring \<Rightarrow> u8 list \<Rightarrow> bool" where
  "aad_token_provider_feeds_external_auth_service_end_to_end se nk self aad_base signature \<longleftrightarrow>
     fst (auth_callback nk (stub_jwt (str ''aad-at-1'') (public_key self) (ok_answer se (jwt_body ''jwt-xyz'')))
       (stub_token aad_base [(''access_token'', ''aad-at-1'')] se)
       (test_provider\<lparr>authority_base := aad_base\<rparr>) self (utf8_bytes (str ''integration-nonce'')) (Some (str ''rt-1'')))
     = Inr \<lparr>auth_jwt = str ''jwt-xyz'', auth_signature = signature\<rparr>"

definition fetch_auth_reuses_the_same_nkey_seed_across_calls ::
  "(json \<Rightarrow> rstring) \<Rightarrow> nkeys \<Rightarrow> rstring + rstring \<Rightarrow> rstring \<Rightarrow> rstring \<Rightarrow> bool" where
  "fetch_auth_reuses_the_same_nkey_seed_across_calls se nk key_seed key_public url =
     (case external_auth_new (Inr ()) key_seed key_public url of
        Inl _ \<Rightarrow> False
      | Inr provider \<Rightarrow>
          let key1 = public_key provider in
          (case fetch_auth nk (\<lambda>_. Inr (ok_answer se (jwt_body ''same-jwt''))) (Inr (str ''t'')) provider (utf8_bytes (str ''nonce-1'')) of
             Inl _ \<Rightarrow> False
           | Inr auth1 \<Rightarrow> public_key provider = key1))"

text \<open>
  The files of the tests of \<^verbatim>\<open>CredsFileAuth\<close>. The client's loader reads the file and then its text, with \<open>read_creds\<close>.
\<close>

definition creds_loader :: "(rstring \<Rightarrow> rstring option) \<Rightarrow> (rstring \<Rightarrow> rstring + 'opts) \<Rightarrow> rstring \<Rightarrow> rstring + 'opts" where
  "creds_loader file read_creds path =
     (case file path of None \<Rightarrow> Inl (str ''No such file or directory'') | Some contents \<Rightarrow> read_creds contents)"

definition write_temp_creds :: "rstring \<Rightarrow> rstring" where
  "write_temp_creds sd =
     quoted_lines [''-----BEGIN NATS USER JWT-----'', ''fake.jwt.value'', ''------END NATS USER JWT------'', [], ''-----BEGIN USER NKEY SEED-----'', []] @
     sd @ quoted_lines [[], ''------END USER NKEY SEED------'', []]"

definition creds_file_auth_builds_connect_options_from_a_valid_file ::
  "(rstring \<Rightarrow> rstring + 'opts) \<Rightarrow> rstring + rstring \<Rightarrow> rstring \<Rightarrow> bool" where
  "creds_file_auth_builds_connect_options_from_a_valid_file read_creds key_seed path =
     (case key_seed of
        Inl _ \<Rightarrow> False
      | Inr sd \<Rightarrow> \<not> is_err (creds_connect_options (creds_loader ((\<lambda>_. None)(path := Some (write_temp_creds sd))) read_creds)
          \<lparr>creds_path = path\<rparr>))"

definition creds_file_auth_fails_on_missing_file :: "(rstring \<Rightarrow> rstring + 'opts) \<Rightarrow> (rstring \<Rightarrow> rstring option) \<Rightarrow> bool" where
  "creds_file_auth_fails_on_missing_file read_creds file =
     is_err (creds_connect_options (creds_loader file read_creds) \<lparr>creds_path = str ''/nonexistent/path.creds''\<rparr>)"

lemma token_bodies:
  "refresh_token_response_of (JObj [(str ''access_token'', JStr (str ''at-1'')), (str ''refresh_token'', JStr (str ''rt-2''))]) =
     Some \<lparr>rt_access_token = str ''at-1'', rt_refresh_token = Some (str ''rt-2'')\<rparr>"
  "refresh_token_response_of (JObj [(str ''access_token'', JStr (str ''aad-at-1''))]) =
     Some \<lparr>rt_access_token = str ''aad-at-1'', rt_refresh_token = None\<rparr>"
  "jwt_response_of (jwt_body ''jwt-1'') = Some (str ''jwt-1'')" "jwt_response_of (jwt_body ''jwt-xyz'') = Some (str ''jwt-xyz'')"
  "jwt_response_of (JObj []) = None"
  by code_simp+

lemma stub_token_expected:
  assumes "refresh_token_response_of (JObj (map (\<lambda>(k, v). (str k, JStr (str v))) body)) = Some r"
  shows "access_token (stub_token base body se) (test_provider\<lparr>authority_base := base\<rparr>) (Some (str ''rt-1'')) =
    (Inr (rt_access_token r), Some (case rt_refresh_token r of Some rotated \<Rightarrow> rotated | None \<Rightarrow> str ''rt-1''))"
proof -
  have names: "str ''grant_type'' \<noteq> str ''client_id''" "str ''refresh_token'' \<noteq> str ''client_id''"
    "str ''refresh_token'' \<noteq> str ''grant_type''" by (simp_all add: str_eq_iff)
  have url: "(base @ str ''/'' @ str ''test-tenant'' @ str ''/oauth2/v2.0'') @ str ''/token'' =
      base @ str ''/test-tenant/oauth2/v2.0/token''" by (simp add: str_def)
  show ?thesis
    using assms by (simp add: access_token_def stub_token_def json_post_def test_provider_def aad_token_provider_new_def names
        url [simplified] Let_def split: option.split)
qed

lemma token_tests:
  "aad_token_provider_errors_without_a_refresh_token_yet post" "aad_token_provider_success_path_rotates_refresh_token se base"
proof -
  show "aad_token_provider_errors_without_a_refresh_token_yet post"
    by (simp add: aad_token_provider_errors_without_a_refresh_token_yet_def aad_token_provider_new_def access_token_def is_err_def)
  show "aad_token_provider_success_path_rotates_refresh_token se base"
    by (simp add: aad_token_provider_success_path_rotates_refresh_token_def stub_token_expected token_bodies)
qed

lemma fetch_auth_tests:
  assumes "from_seed nk (seed self) = Inr key" and "\<And>nonce. sign nk key nonce = Inr (sg nonce)"
  shows "fetch_auth_posts_public_key_and_bearer_token_then_signs_nonce se nk self (sg (utf8_bytes (str ''the-nonce'')))"
    "fetch_auth_fails_on_non_success_status nk self unread" "fetch_auth_fails_when_response_has_no_jwt se nk self"
    "aad_token_provider_feeds_external_auth_service_end_to_end se nk self base (sg (utf8_bytes (str ''integration-nonce'')))"
proof -
  note defs = fetch_auth_def fetch_jwt_def jwt_request_for_def stub_jwt_def ok_answer_def jwt_answer_of_def is_err_def
    token_bodies assms
  show "fetch_auth_posts_public_key_and_bearer_token_then_signs_nonce se nk self (sg (utf8_bytes (str ''the-nonce'')))"
    by (simp add: fetch_auth_posts_public_key_and_bearer_token_then_signs_nonce_def defs)
  show "fetch_auth_fails_on_non_success_status nk self unread" "fetch_auth_fails_when_response_has_no_jwt se nk self"
    by (simp_all add: fetch_auth_fails_on_non_success_status_def fetch_auth_fails_when_response_has_no_jwt_def defs)
  show "aad_token_provider_feeds_external_auth_service_end_to_end se nk self base (sg (utf8_bytes (str ''integration-nonce'')))"
    by (simp add: aad_token_provider_feeds_external_auth_service_end_to_end_def auth_callback_def stub_token_expected defs)
qed

lemma creds_tests:
  assumes "key_seed = Inr sd" and "\<not> is_err (read_creds (write_temp_creds sd))" and "file (str ''/nonexistent/path.creds'') = None"
  shows "creds_file_auth_builds_connect_options_from_a_valid_file read_creds key_seed path" "creds_file_auth_fails_on_missing_file read_creds file"
  using assms by (auto simp: creds_file_auth_builds_connect_options_from_a_valid_file_def creds_file_auth_fails_on_missing_file_def
      creds_connect_options_def creds_loader_def is_err_def split: sum.splits)

lemma reuse_test:
  assumes "key_seed = Inr sd" and "from_seed nk sd = Inr key" and "\<And>nonce. sign nk key nonce = Inr (sg nonce)"
  shows "fetch_auth_reuses_the_same_nkey_seed_across_calls se nk key_seed key_public url"
proof -
  have "jwt_response_of (jwt_body ''same-jwt'') = Some (str ''same-jwt'')" by code_simp
  then show ?thesis
    by (simp add: fetch_auth_reuses_the_same_nkey_seed_across_calls_def external_auth_new_def fetch_auth_def fetch_jwt_def
        ok_answer_def jwt_answer_of_def assms)
qed

definition test_auth_config :: "string option \<Rightarrow> string option \<Rightarrow> bool \<Rightarrow> nats_auth_config" where
  "test_auth_config url scope aad = \<lparr>cfg_auth_service_url = map_option str url,
     cfg_auth_service_scope = map_option str scope, has_aad_identity = aad\<rparr>"

definition validate_auth_service_config_ok_when_url_not_set :: bool where
  "validate_auth_service_config_ok_when_url_not_set \<longleftrightarrow>
     \<not> is_err (validate_auth_service_config (test_auth_config None None False))"

definition validate_auth_service_config_requires_aad_identity :: bool where
  "validate_auth_service_config_requires_aad_identity \<longleftrightarrow> is_err (validate_auth_service_config
     (test_auth_config (Some ''https://auth.example.com'') (Some ''api://x/Nats.Connect'') False))"

definition validate_auth_service_config_requires_scope :: bool where
  "validate_auth_service_config_requires_scope \<longleftrightarrow> is_err (validate_auth_service_config
     (test_auth_config (Some ''https://auth.example.com'') None True))"

definition validate_auth_service_config_requires_https :: bool where
  "validate_auth_service_config_requires_https \<longleftrightarrow>
     (case validate_auth_service_config
        (test_auth_config (Some ''http://auth.example.com'') (Some ''api://x/Nats.Connect'') True) of
        Inl err \<Rightarrow> has_part (map ascii_lower err) (str ''https'')
      | Inr _ \<Rightarrow> False)"

definition validate_auth_service_config_ok_when_fully_configured :: bool where
  "validate_auth_service_config_ok_when_fully_configured \<longleftrightarrow> \<not> is_err (validate_auth_service_config
     (test_auth_config (Some ''https://auth.example.com'') (Some ''api://x/Nats.Connect'') True))"

lemma auth_config_tests:
  "validate_auth_service_config_ok_when_url_not_set" "validate_auth_service_config_requires_aad_identity"
  "validate_auth_service_config_requires_scope" "validate_auth_service_config_requires_https"
  "validate_auth_service_config_ok_when_fully_configured"
  by code_simp+

subsection \<open>Settings\<close>

definition missing_file_yields_defaults :: "(rstring \<Rightarrow> rstring + settings) \<Rightarrow> bool" where
  "missing_file_yields_defaults from_str \<longleftrightarrow>
     load_from_path from_str (\<lambda>_. Inl (Not_Found [])) (str ''/nonexistent/settings.json'') = (settings_default, [])"

definition malformed_json_yields_defaults_not_a_panic :: "(rstring \<Rightarrow> rstring + settings) \<Rightarrow> bool" where
  "malformed_json_yields_defaults_not_a_panic from_str \<longleftrightarrow>
     (case parse_settings from_str (str ''{ not json'') of Inl _ \<Rightarrow> settings_default | Inr st \<Rightarrow> st) = settings_default"

definition malformed_json_yields_a_diagnostic_message :: "(rstring \<Rightarrow> rstring + settings) \<Rightarrow> bool" where
  "malformed_json_yields_a_diagnostic_message from_str \<longleftrightarrow>
     (case parse_settings from_str (str ''{ not json'') of
        Inl err \<Rightarrow> has_part err (str ''malformed JSON'') | Inr _ \<Rightarrow> False)"

definition load_from_path_surfaces_malformed_json_diagnostic :: "(rstring \<Rightarrow> rstring + settings) \<Rightarrow> rstring \<Rightarrow> bool" where
  "load_from_path_surfaces_malformed_json_diagnostic from_str path =
     (case load_from_path from_str (\<lambda>_. Inr (str ''{ not json'')) path of
        (st, diagnostics) \<Rightarrow> st = settings_default \<and> length diagnostics = 1 \<and>
          has_part (diagnostics ! 0) (str ''malformed JSON''))"

text \<open>
  The settings file of \<^verbatim>\<open>parses_full_schema\<close>: its members, its text, and the tree a JSON reader makes of it.
\<close>

definition full_schema :: "(string \<times> string) list" where
  "full_schema =
    [(''natsUrl'', ''nats://example:4222''), (''subjectTemplate'', ''notify.user.{0}.custom''),
     (''ackSubject'', ''notify.ack.custom''), (''natsCredsFile'', ''/creds/file''),
     (''natsAuthServiceUrl'', ''https://auth.example/token''), (''natsAuthServiceScope'', ''api://x/Scope''),
     (''aadClientId'', ''client-1''), (''aadTenantId'', ''tenant-1''), (''deviceId'', ''d-fixed''), (''logLevel'', ''debug'')]"

definition full_schema_text :: rstring where
  "full_schema_text = str ''{'' @
     join (str '','') (map (\<lambda>(k, v). [10] @ replicate 12 32 @ quoted_text (''`'' @ k @ ''`: `'' @ v @ ''`'')) full_schema) @
     [10] @ replicate 8 32 @ str ''}''"

definition reads_settings :: "(rstring \<Rightarrow> rstring + json) \<Rightarrow> bool" where
  "reads_settings json_text \<longleftrightarrow>
     json_text full_schema_text = Inr (JObj (map (\<lambda>(k, v). (str k, JStr (str v))) full_schema)) \<and>
     json_text (str ''{}'') = Inr (JObj [])"

definition parses_full_schema :: "(rstring \<Rightarrow> rstring + json) \<Rightarrow> (json \<Rightarrow> rstring) \<Rightarrow> bool" where
  "parses_full_schema json_text se =
     (case parse_settings (settings_from_str json_text se) full_schema_text of
        Inl _ \<Rightarrow> False
      | Inr st \<Rightarrow> s_nats_url st = Some (str ''nats://example:4222'') \<and>
          s_subject_template st = Some (str ''notify.user.{0}.custom'') \<and> s_ack_subject st = Some (str ''notify.ack.custom'') \<and>
          s_nats_creds_file st = Some (str ''/creds/file'') \<and>
          s_nats_auth_service_url st = Some (str ''https://auth.example/token'') \<and>
          s_nats_auth_service_scope st = Some (str ''api://x/Scope'') \<and> s_aad_client_id st = Some (str ''client-1'') \<and>
          s_aad_tenant_id st = Some (str ''tenant-1'') \<and> s_device_id st = Some (str ''d-fixed'') \<and>
          s_log_level st = Some (str ''debug''))"

definition empty_json_object_is_all_none :: "(rstring \<Rightarrow> rstring + json) \<Rightarrow> (json \<Rightarrow> rstring) \<Rightarrow> bool" where
  "empty_json_object_is_all_none json_text se \<longleftrightarrow>
     parse_settings (settings_from_str json_text se) (str ''{}'') = Inr settings_default"

lemma schema_tests:
  assumes "reads_settings json_text"
  shows "parses_full_schema json_text se" "empty_json_object_is_all_none json_text se"
proof -
  have full: "settings_of (JObj (map (\<lambda>(k, v). (str k, JStr (str v))) full_schema)) = Some
    \<lparr>s_nats_url = Some (str ''nats://example:4222''), s_subject_template = Some (str ''notify.user.{0}.custom''),
     s_ack_subject = Some (str ''notify.ack.custom''), s_nats_creds_file = Some (str ''/creds/file''),
     s_nats_auth_service_url = Some (str ''https://auth.example/token''), s_nats_auth_service_scope = Some (str ''api://x/Scope''),
     s_aad_client_id = Some (str ''client-1''), s_aad_tenant_id = Some (str ''tenant-1''), s_device_id = Some (str ''d-fixed''),
     s_log_level = Some (str ''debug'')\<rparr>" by code_simp
  have empty: "settings_of (JObj []) = Some settings_default" by code_simp
  show "parses_full_schema json_text se"
    using assms full by (simp add: parses_full_schema_def parse_settings_def settings_from_str_def reads_settings_def)
  show "empty_json_object_is_all_none json_text se"
    using assms empty by (simp add: empty_json_object_is_all_none_def parse_settings_def settings_from_str_def reads_settings_def)
qed

text \<open>The variables are cleared first, so the environment of a test holds what the test sets.\<close>

abbreviation only_env :: "string \<Rightarrow> string \<Rightarrow> getenv" where
  "only_env var v \<equiv> (\<lambda>_. None)(str var := Some (str v))"

definition env_var_wins_over_file_value :: bool where
  "env_var_wins_over_file_value \<longleftrightarrow>
     resolved_str (only_env ''NOTIFY_TEST_PRECEDENCE'' ''from-env'') ''NOTIFY_TEST_PRECEDENCE''
       (Some (str ''from-file'')) ''from-default'' = str ''from-env''"

definition env_var_value_is_trimmed_same_as_file_value :: bool where
  "env_var_value_is_trimmed_same_as_file_value \<longleftrightarrow>
     resolved_opt (only_env ''NOTIFY_TEST_PRECEDENCE'' ''  from-env  '') ''NOTIFY_TEST_PRECEDENCE'' None
     = Some (str ''from-env'')"

definition file_value_wins_over_default_when_env_unset :: bool where
  "file_value_wins_over_default_when_env_unset \<longleftrightarrow>
     resolved_str (\<lambda>_. None) ''NOTIFY_TEST_PRECEDENCE'' (Some (str ''from-file'')) ''from-default'' = str ''from-file''"

definition default_wins_when_neither_env_nor_file_set :: bool where
  "default_wins_when_neither_env_nor_file_set \<longleftrightarrow>
     resolved_str (\<lambda>_. None) ''NOTIFY_TEST_PRECEDENCE'' None ''from-default'' = str ''from-default''"

definition blank_env_var_falls_through_to_file_value :: bool where
  "blank_env_var_falls_through_to_file_value \<longleftrightarrow>
     resolved_str (only_env ''NOTIFY_TEST_PRECEDENCE'' ''   '') ''NOTIFY_TEST_PRECEDENCE''
       (Some (str ''from-file'')) ''from-default'' = str ''from-file''"

definition blank_file_value_falls_through_to_default :: bool where
  "blank_file_value_falls_through_to_default \<longleftrightarrow>
     resolved_str (\<lambda>_. None) ''NOTIFY_TEST_PRECEDENCE'' (Some (str ''   '')) ''from-default'' = str ''from-default''"

definition resolved_opt_is_none_when_nothing_set :: bool where
  "resolved_opt_is_none_when_nothing_set \<longleftrightarrow> resolved_opt (\<lambda>_. None) ''NOTIFY_TEST_PRECEDENCE'' None = None"

definition agent_config_uses_defaults_when_nothing_set :: bool where
  "agent_config_uses_defaults_when_nothing_set =
     (let config = settings_agent_config (\<lambda>_. None) settings_default in
      nats_url config = str ''nats://127.0.0.1:4222'' \<and> subject_template config = str ''notify.user.{0}.desktop'' \<and>
      ack_subject config = str ''notify.ack.desktop'')"

definition agent_config_uses_file_values_when_env_unset :: bool where
  "agent_config_uses_file_values_when_env_unset \<longleftrightarrow>
     nats_url (settings_agent_config (\<lambda>_. None) (settings_default\<lparr>s_nats_url := Some (str ''nats://from-file:4222'')\<rparr>))
     = str ''nats://from-file:4222''"

definition agent_config_env_overrides_file :: bool where
  "agent_config_env_overrides_file \<longleftrightarrow>
     nats_url (settings_agent_config (only_env ''NOTIFY_NATS_URL'' ''nats://from-env:4222'')
       (settings_default\<lparr>s_nats_url := Some (str ''nats://from-file:4222'')\<rparr>)) = str ''nats://from-env:4222''"

definition log_directive_prefers_rust_log_then_settings_then_info :: bool where
  "log_directive_prefers_rust_log_then_settings_then_info =
     (let settings = settings_default\<lparr>s_log_level := Some (str ''debug'')\<rparr> in
      resolve_log_directive (\<lambda>_. None) settings_default = str ''info'' \<and>
      resolve_log_directive (\<lambda>_. None) settings = str ''debug'' \<and>
      resolve_log_directive (only_env ''RUST_LOG'' ''trace'') settings = str ''trace'')"

definition blank_rust_log_falls_through_to_settings :: bool where
  "blank_rust_log_falls_through_to_settings \<longleftrightarrow>
     resolve_log_directive (only_env ''RUST_LOG'' ''  '') (settings_default\<lparr>s_log_level := Some (str ''warn'')\<rparr>) = str ''warn''"

lemma settings_file_tests:
  assumes "from_str (str ''{ not json'') = Inl error"
  shows "missing_file_yields_defaults from_str" "malformed_json_yields_defaults_not_a_panic from_str"
    "malformed_json_yields_a_diagnostic_message from_str"
    "load_from_path_surfaces_malformed_json_diagnostic from_str path"
proof -
  have split: "str ''settings file: malformed JSON, falling back to defaults: '' @ e =
      str ''settings file: '' @ str ''malformed JSON'' @ str '', falling back to defaults: '' @ e" for e
    by (simp add: str_def)
  show "missing_file_yields_defaults from_str" "malformed_json_yields_defaults_not_a_panic from_str"
    "malformed_json_yields_a_diagnostic_message from_str"
    "load_from_path_surfaces_malformed_json_diagnostic from_str path"
    using has_part_append [of "str ''settings file: ''" "str ''malformed JSON''"]
    by (simp_all add: missing_file_yields_defaults_def malformed_json_yields_defaults_not_a_panic_def
        malformed_json_yields_a_diagnostic_message_def load_from_path_surfaces_malformed_json_diagnostic_def
        load_from_path_def parse_settings_def assms split)
qed

lemma precedence_tests:
  "env_var_wins_over_file_value" "env_var_value_is_trimmed_same_as_file_value"
  "file_value_wins_over_default_when_env_unset" "default_wins_when_neither_env_nor_file_set"
  "blank_env_var_falls_through_to_file_value" "blank_file_value_falls_through_to_default"
  "resolved_opt_is_none_when_nothing_set"
  by code_simp+

lemma agent_config_tests:
  "agent_config_uses_defaults_when_nothing_set" "agent_config_uses_file_values_when_env_unset"
  "agent_config_env_overrides_file" "log_directive_prefers_rust_log_then_settings_then_info"
  "blank_rust_log_falls_through_to_settings"
  by code_simp+

subsection \<open>The Windows user name\<close>

text \<open>\<^verbatim>\<open>assert_matches_id_shape\<close>, with \<^verbatim>\<open>strip_prefix\<close> and \<^verbatim>\<open>rsplit_once\<close> written out.\<close>

definition rsplit_once :: "rchar \<Rightarrow> rstring \<Rightarrow> (rstring \<times> rstring) option" where
  "rsplit_once c s = (if c \<in> set s
     then Some (rev (tl (dropWhile (\<lambda>x. x \<noteq> c) (rev s))), rev (takeWhile (\<lambda>x. x \<noteq> c) (rev s))) else None)"

definition matches_id_shape :: "rstring \<Rightarrow> bool" where
  "matches_id_shape uid \<longleftrightarrow> starts_with uid (str ''u_'') \<and>
     (case rsplit_once 95 (drop 2 uid) of
        None \<Rightarrow> False
      | Some (sanitized, hash8) \<Rightarrow> length hash8 = 8 \<and>
          list_all (\<lambda>c. 48 \<le> c \<and> c \<le> 57 \<or> 97 \<le> c \<and> c \<le> 102) hash8 \<and>
          list_all (\<lambda>c. is_ascii_alphanumeric c \<or> c = 95 \<or> c = 45) sanitized)"

type_synonym name_env = "ucd \<times> (u8 list \<Rightarrow> u8 list) \<times> (rstring \<Rightarrow> rstring)"

definition user_id_of :: "name_env \<Rightarrow> string \<Rightarrow> rstring + rstring" where
  "user_id_of N raw = (case N of (u, digest, debug) \<Rightarrow> user_id_from_username u digest debug (str raw))"

definition shaped :: "name_env \<Rightarrow> string \<Rightarrow> string \<Rightarrow> bool" where
  "shaped N raw prefix = (case user_id_of N raw of
     Inl _ \<Rightarrow> False | Inr uid \<Rightarrow> matches_id_shape uid \<and> starts_with uid (str prefix))"

definition lowercases_and_prefixes :: "name_env \<Rightarrow> bool" where
  "lowercases_and_prefixes N \<longleftrightarrow> shaped N ''Alice'' ''u_alice_''"

definition strips_domain_prefix :: "name_env \<Rightarrow> bool" where
  "strips_domain_prefix N \<longleftrightarrow> shaped N (''CONTOSO'' @ [CHR 0x5C] @ ''Bob'') ''u_bob_''"

definition trims_whitespace :: "name_env \<Rightarrow> bool" where
  "trims_whitespace N \<longleftrightarrow> shaped N ''  alice  '' ''u_alice_''"

definition sanitizes_interior_space :: "name_env \<Rightarrow> bool" where
  "sanitizes_interior_space N \<longleftrightarrow> shaped N ''John Doe'' ''u_john_doe_''"

definition sanitizes_dot :: "name_env \<Rightarrow> bool" where
  "sanitizes_dot N \<longleftrightarrow> shaped N ''john.doe'' ''u_john_doe_''"

definition sanitizes_star :: "name_env \<Rightarrow> bool" where
  "sanitizes_star N \<longleftrightarrow> shaped N ''user*name'' ''u_user_name_''"

definition sanitizes_gt :: "name_env \<Rightarrow> bool" where
  "sanitizes_gt N \<longleftrightarrow> shaped N ''user>name'' ''u_user_name_''"

definition is_deterministic :: "name_env \<Rightarrow> bool" where
  "is_deterministic N = list_all (\<lambda>name. case (user_id_of N name, user_id_of N name) of
     (Inr a, Inr b) \<Rightarrow> a = b | _ \<Rightarrow> False) [''Alice'', ''CONTOSO'' @ [CHR 0x5C] @ ''svc.deploy'']"

definition rejects_empty_username :: "name_env \<Rightarrow> bool" where
  "rejects_empty_username N \<longleftrightarrow> is_err (user_id_of N []) \<and> is_err (user_id_of N ''   '')"

definition rejects_domain_qualified_but_otherwise_empty_username :: "name_env \<Rightarrow> bool" where
  "rejects_domain_qualified_but_otherwise_empty_username N \<longleftrightarrow> is_err (user_id_of N (''CONTOSO'' @ [CHR 0x5C]))"

definition accepts_common_username_shapes :: "name_env \<Rightarrow> bool" where
  "accepts_common_username_shapes N =
     list_all (\<lambda>raw. shaped N raw ''u_'') [''jdoe'', ''j.doe-test_1'', ''MACHINE'' @ [CHR 0x5C] @ ''svc_account'']"

definition distinguishes_usernames_that_sanitize_identically :: "name_env \<Rightarrow> bool" where
  "distinguishes_usernames_that_sanitize_identically N \<longleftrightarrow>
     shaped N ''user.name'' ''u_'' \<and> shaped N ''user_name'' ''u_'' \<and>
     user_id_of N ''user.name'' \<noteq> user_id_of N ''user_name'' \<and>
     user_id_of N ''user*name'' \<noteq> user_id_of N ''user_name''"

definition degenerate_all_punctuation_username_still_succeeds :: "name_env \<Rightarrow> bool" where
  "degenerate_all_punctuation_username_still_succeeds N \<longleftrightarrow>
     shaped N ''***'' ''u_'' \<and> shaped N ''...'' ''u_'' \<and> user_id_of N ''***'' \<noteq> user_id_of N ''...''"

text \<open>Every id has the shape, so the tests need only the sanitized names.\<close>

lemma rsplit_once_append:
  assumes "c \<notin> set t"
  shows "rsplit_once c (s @ [c] @ t) = Some (s, t)"
proof -
  have "takeWhile (\<lambda>x. x \<noteq> c) (rev t @ c # rev s) = rev t" "dropWhile (\<lambda>x. x \<noteq> c) (rev t @ c # rev s) = c # rev s"
    using assms by (simp_all add: takeWhile_append2 dropWhile_append2)
  then show ?thesis by (simp add: rsplit_once_def)
qed

lemma hash_prefix8_hex: "list_all (\<lambda>c. 48 \<le> c \<and> c \<le> 57 \<or> 97 \<le> c \<and> c \<le> 102) (hash_prefix8 digest s)"
proof -
  have "list_all (\<lambda>c. 48 \<le> c \<and> c \<le> 57 \<or> 97 \<le> c \<and> c \<le> 102) (hex2_lower b)" for b
    using unat_u8 [of b] by (auto simp: hex2_lower_def hex_digit_def)
  then show ?thesis by (fastforce simp: hash_prefix8_def list_all_iff)
qed

lemma id_shape:
  assumes "sha256_length digest" and "user_id_from_username u digest debug raw = Inr uid"
  shows "matches_id_shape uid"
proof -
  define s where "s = sanitize (normalize_username u raw)"
  define h where "h = hash_prefix8 digest (normalize_username u raw)"
  have uid: "uid = str ''u_'' @ s @ [95] @ h" using assms(2) by (simp add: user_id_shape s_def h_def str_def)
  have hex: "list_all (\<lambda>c. 48 \<le> c \<and> c \<le> 57 \<or> 97 \<le> c \<and> c \<le> 102) h" by (simp add: h_def hash_prefix8_hex)
  then have "95 \<notin> set h" by (auto simp: list_all_iff)
  then have "rsplit_once 95 (drop 2 uid) = Some (s, h)" using rsplit_once_append by (simp add: uid str_def)
  moreover have "length h = 8" using assms(1) by (simp add: h_def length_hash_prefix8)
  moreover have "list_all (\<lambda>c. is_ascii_alphanumeric c \<or> c = 95 \<or> c = 45) s"
    by (auto simp: s_def sanitize_def list_all_iff is_ascii_alphanumeric_def)
  moreover have "starts_with uid (str ''u_'')" by (simp add: uid starts_with_def)
  ultimately show ?thesis using hex by (simp add: matches_id_shape_def)
qed

lemma shapedI:
  assumes "sha256_length digest" and "normalize_username u (str raw) = str name" and "str name \<noteq> []"
    and "starts_with (str ''u_'' @ sanitize (str name) @ str ''_'') (str prefix)"
  shows "shaped (u, digest, debug) raw prefix"
proof -
  define h where "h = hash_prefix8 digest (str name)"
  define body where "body = str ''u_'' @ sanitize (str name) @ str ''_''"
  have uid: "user_id_from_username u digest debug (str raw) = Inr (body @ h)"
    using assms(2,3) by (simp add: user_id_shape body_def h_def)
  have "take (length (str prefix)) body = str prefix" using assms(4) by (simp add: body_def starts_with_def)
  then have "starts_with (body @ h) (str prefix)"
    by (metis append.assoc append_eq_conv_conj append_take_drop_id starts_with_def)
  with id_shape [OF assms(1) uid] show ?thesis by (simp add: shaped_def user_id_of_def uid)
qed

lemma normalize_tests:
  "normalize_username u (str ''Alice'') = str ''alice''"
  "normalize_username u (str (''CONTOSO'' @ [CHR 0x5C] @ ''Bob'')) = str ''bob''"
  "normalize_username u (str ''  alice  '') = str ''alice''"
  "normalize_username u (str ''John Doe'') = str ''john doe''"
  "normalize_username u (str ''john.doe'') = str ''john.doe''"
  "normalize_username u (str ''user*name'') = str ''user*name''"
  "normalize_username u (str ''user>name'') = str ''user>name''"
  "normalize_username u (str ''user.name'') = str ''user.name''"
  "normalize_username u (str ''user_name'') = str ''user_name''"
  "normalize_username u (str ''***'') = str ''***''" "normalize_username u (str ''...'') = str ''...''"
  "normalize_username u (str []) = []" "normalize_username u (str ''   '') = []"
  "normalize_username u (str (''CONTOSO'' @ [CHR 0x5C])) = []"
  "normalize_username u (str ''jdoe'') = str ''jdoe''"
  "normalize_username u (str ''j.doe-test_1'') = str ''j.doe-test_1''"
  "normalize_username u (str (''MACHINE'' @ [CHR 0x5C] @ ''svc_account'')) = str ''svc_account''"
  "normalize_username u (str (''CONTOSO'' @ [CHR 0x5C] @ ''svc.deploy'')) = str ''svc.deploy''"
  by (simp_all add: normalize_username_def strip_domain_prefix_def trim_def is_whitespace_def str_def
      to_lowercase_ascii ascii_lower_def)

lemma name_shape_tests:
  assumes "sha256_length digest" and N: "N = (u, digest, debug)"
  shows "lowercases_and_prefixes N" "strips_domain_prefix N" "trims_whitespace N" "sanitizes_interior_space N"
    "sanitizes_dot N" "sanitizes_star N" "sanitizes_gt N" "accepts_common_username_shapes N"
proof -
  note sh = shapedI [OF assms(1), of u, where debug = debug, folded N]
  show "lowercases_and_prefixes N" unfolding lowercases_and_prefixes_def by (rule sh [OF normalize_tests(1)]; code_simp)
  show "strips_domain_prefix N" unfolding strips_domain_prefix_def by (rule sh [OF normalize_tests(2)]; code_simp)
  show "trims_whitespace N" unfolding trims_whitespace_def by (rule sh [OF normalize_tests(3)]; code_simp)
  show "sanitizes_interior_space N" unfolding sanitizes_interior_space_def by (rule sh [OF normalize_tests(4)]; code_simp)
  show "sanitizes_dot N" unfolding sanitizes_dot_def by (rule sh [OF normalize_tests(5)]; code_simp)
  show "sanitizes_star N" unfolding sanitizes_star_def by (rule sh [OF normalize_tests(6)]; code_simp)
  show "sanitizes_gt N" unfolding sanitizes_gt_def by (rule sh [OF normalize_tests(7)]; code_simp)
  have "shaped N ''jdoe'' ''u_''" by (rule sh [OF normalize_tests(15)]; code_simp)
  moreover have "shaped N ''j.doe-test_1'' ''u_''" by (rule sh [OF normalize_tests(16)]; code_simp)
  moreover have "shaped N (''MACHINE'' @ [CHR 0x5C] @ ''svc_account'') ''u_''" by (rule sh [OF normalize_tests(17)]; code_simp)
  ultimately show "accepts_common_username_shapes N" by (simp add: accepts_common_username_shapes_def)
qed

lemma name_error_tests:
  "rejects_empty_username N" "rejects_domain_qualified_but_otherwise_empty_username N"
  by (cases N, simp only: rejects_empty_username_def rejects_domain_qualified_but_otherwise_empty_username_def user_id_of_def
      prod.case user_id_from_username_def normalize_tests Let_def, simp add: is_err_def)+

lemma deterministic_test: "is_deterministic N"
  by (cases N, simp only: is_deterministic_def user_id_of_def prod.case list.pred_inject user_id_from_username_def
      normalize_tests Let_def) (simp add: str_def)

text \<open>Distinct ids are what SHA-256 gives on the names of the tests: different digest prefixes.\<close>

lemma name_distinct_tests:
  assumes "sha256_length digest" and N: "N = (u, digest, debug)"
    and "hash_prefix8 digest (str ''user.name'') \<noteq> hash_prefix8 digest (str ''user_name'')"
    and "hash_prefix8 digest (str ''user*name'') \<noteq> hash_prefix8 digest (str ''user_name'')"
    and "hash_prefix8 digest (str ''***'') \<noteq> hash_prefix8 digest (str ''...'')"
  shows "distinguishes_usernames_that_sanitize_identically N" "degenerate_all_punctuation_username_still_succeeds N"
proof -
  have shape: "shaped N raw ''u_''" if "normalize_username u (str raw) = str name" "name \<noteq> []" for raw name
    unfolding N using that by (intro shapedI [OF assms(1)]) (auto simp: str_def starts_with_def)
  have distinct: "user_id_of N a \<noteq> user_id_of N b"
    if "normalize_username u (str a) = str a'" "normalize_username u (str b) = str b'" "a' \<noteq> []" "b' \<noteq> []"
      "hash_prefix8 digest (str a') \<noteq> hash_prefix8 digest (str b')" for a b a' b'
    using that length_hash_prefix8 [OF assms(1)]
    by (auto simp: N user_id_of_def user_id_from_username_def Let_def append_eq_append_conv str_def)
  show "distinguishes_usernames_that_sanitize_identically N"
    unfolding distinguishes_usernames_that_sanitize_identically_def
    by (intro conjI; (rule shape [OF normalize_tests(8)] shape [OF normalize_tests(9)]
      distinct [OF normalize_tests(8,9)] distinct [OF normalize_tests(6,9)]); (simp | rule assms)?)
  show "degenerate_all_punctuation_username_still_succeeds N"
    unfolding degenerate_all_punctuation_username_still_succeeds_def
    by (intro conjI; (rule shape [OF normalize_tests(10)] shape [OF normalize_tests(11)]
      distinct [OF normalize_tests(10,11)]); (simp | rule assms)?)
qed

end
