(* ===== verification/Core_Tests.thy ===== *)
theory Core_Tests
  imports Pipeline "HOL-Library.Monad_Syntax"
begin

section \<open>The unit tests of the event path\<close>

text \<open>
  The unit tests that the repository keeps beside \<^verbatim>\<open>dedup.rs\<close>, \<^verbatim>\<open>ack.rs\<close>, \<^verbatim>\<open>grapheme.rs\<close>, \<^verbatim>\<open>toast.rs\<close>,
  \<^verbatim>\<open>aggregator.rs\<close> and \<^verbatim>\<open>pipeline.rs\<close>, as executable predicates under their own names, with their fixtures. A test
  that drives code outside of the repository takes it as an argument. What the tests sample on one schedule
  is shown here for the model, and for all segmenters that obey the grapheme rules.
\<close>

subsection \<open>Duplicate suppression\<close>

definition first_add_true_second_false :: bool where
  "first_add_true_second_false = holds (dedup_new 10 (from_secs 600)) (\<lambda>cache.
     fst (try_add_all cache [(0, str ''k1''), (0, str ''k1''), (0, str ''k2'')]) = [True, False, True])"

definition key_expires_after_ttl :: bool where
  "key_expires_after_ttl = holds (dedup_new 10 (from_secs 600)) (\<lambda>cache.
     fst (try_add_all cache [(0, str ''k1''), (from_secs 540, str ''k1''),
       (from_secs 540 + from_secs 120, str ''k1'')]) = [True, False, True])"

definition evicts_oldest_when_over_capacity :: bool where
  "evicts_oldest_when_over_capacity = holds (dedup_new 2 (from_secs 3600)) (\<lambda>cache.
     (case try_add_all cache [(0, str ''a''), (0, str ''b''), (0, str ''c''), (0, str ''a'')] of
        (answers, cache) \<Rightarrow> answers = [True, True, True, True] \<and> dedup_len cache \<le> 2))"

text \<open>
  The concurrent test. \<open>calls\<close> is the order in which the calls of the spawned tasks get the lock, with the clock value each
  has read.
\<close>

definition wins :: "rstring \<Rightarrow> (instant \<times> rstring) list \<Rightarrow> dedup_cache \<Rightarrow> nat" where
  "wins k calls cache =
     length (filter (\<lambda>(won, call). won \<and> snd call = k) (zip (fst (try_add_all cache calls)) calls))"

definition concurrent_adds_have_exactly_one_winner_per_key :: "(instant \<times> rstring) list \<Rightarrow> bool" where
  "concurrent_adds_have_exactly_one_winner_per_key calls =
     holds (dedup_new 10000 (from_secs 600)) (\<lambda>cache. wins (str ''same-key'') calls cache = 1)"

lemma dedup_tests:
  "first_add_true_second_false" "key_expires_after_ttl" "evicts_oldest_when_over_capacity"
  by code_simp+

lemma wins_card:
  "wins k calls c = card {i. i < length calls \<and> dc.answers c calls ! i \<and> snd (calls ! i) = k}"
  by (simp add: wins_def try_add_all_answers length_filter_conv_card split_beta cong: conj_cong)

lemma wins_at_most_one:
  assumes c: "dedup_new cap ttl' = Some c" and "0 < ttl'" and short: "length calls \<le> cap"
    and window: "\<forall>x \<in> set calls. \<forall>y \<in> set calls. fst x < fst y + ttl'"
    and ij: "i < j" "j < length calls" "snd (calls ! i) = k" "snd (calls ! j) = k"
    and won: "dc.answers c calls ! i" "dc.answers c calls ! j"
  shows False
proof -
  obtain t1 t2 where call: "calls ! i = (t1, k)" "calls ! j = (t2, k)" using ij by (metis prod.collapse)
  define mid where "mid = take (j - Suc i) (drop (Suc i) calls)"
  define c0 where "c0 = dc.after c (take i calls)"
  define c1 where "c1 = snd (try_add c0 t1 k)"
  define c2 where "c2 = dc.after c1 mid"
  have "take j calls = take (Suc i) calls @ mid"
    using ij take_add [of "Suc i" "j - Suc i" calls] by (simp add: mid_def)
  then have take_j: "take j calls = take i calls @ (t1, k) # mid"
    using ij call(1) by (simp add: take_Suc_conv_app_nth)
  have after: "dc.after c (xs @ ys) = dc.after (dc.after c xs) ys" for c xs ys
    by (induction c xs rule: dc.after.induct) auto
  have acc1: "try_add c0 t1 k = (True, c1)"
    using won(1) ij call(1) by (simp add: dc.answers_nth c0_def c1_def prod_eq_iff)
  have "dc.after c (take j calls) = c2" by (simp add: take_j after c0_def c1_def c2_def)
  then have acc2: "try_add c2 t2 k = (True, snd (try_add c2 t2 k))"
    using won(2) ij call(2) by (simp add: dc.answers_nth prod_eq_iff)
  have sub: "set mid \<subseteq> set calls" unfolding mid_def by (meson order_trans set_drop_subset set_take_subset)
  have mem: "(t1, k) \<in> set calls" "(t2, k) \<in> set calls" using ij call by (metis nth_mem order.strict_trans)+
  have "\<forall>x \<in> set mid. fst x < t1 + ttl'" "t2 < t1 + ttl'" using window sub mem by fastforce+
  then have "cap \<le> length (filter (\<lambda>b. b) (dc.answers c1 mid))"
    using accepted_twice [OF c \<open>0 < ttl'\<close> _ _ _ acc1 _ acc2, of mid "take i calls" "dc.answers c (take i calls)" "dc.answers c1 mid"]
    by (simp add: try_add_all_answers c0_def c2_def)
  also have "\<dots> \<le> length mid" by (metis dc.length_answers length_filter_le)
  also have "\<dots> < length calls" using ij by (simp add: mid_def)
  finally show False using short by simp
qed

lemma wins_once:
  assumes c: "dedup_new cap ttl' = Some c" and pos: "0 < ttl'" and short: "length calls \<le> cap"
    and window: "\<forall>x \<in> set calls. \<forall>y \<in> set calls. fst x < fst y + ttl'"
    and i: "i < length calls" "snd (calls ! i) = k"
  shows "wins k calls c = 1"
proof -
  define W where "W = {i. i < length calls \<and> dc.answers c calls ! i \<and> snd (calls ! i) = k}"
  have "\<exists>j. j \<in> W"
  proof (cases "dc.answers c calls ! i")
    case True
    with i show ?thesis by (auto simp: W_def)
  next
    case False
    obtain j where "j < i" "snd (calls ! j) = snd (calls ! i)" "dc.answers c calls ! j"
      using dc.rejected_provenance [OF dedup_new_inv [OF c] dedup_new_not_live [OF c] i(1) False] by blast
    with i have "j \<in> W" by (simp add: W_def)
    then show ?thesis ..
  qed
  moreover have "\<not> a < b" if "a \<in> W" "b \<in> W" for a b
    using that wins_at_most_one [OF c pos short window, of a b k] unfolding W_def by blast
  ultimately obtain j where "W = {j}" by (metis is_singletonI' is_singleton_the_elem linorder_neqE_nat empty_iff)
  then show ?thesis by (simp add: wins_card W_def)
qed

text \<open>
  The concurrent test passes on every schedule: whatever the interleaving of up to ten thousand calls and whatever clock values they
  read within ten minutes, exactly one call with the shared key is told that it is the first.
\<close>

theorem one_winner:
  assumes "length calls \<le> 10000" and "\<forall>x \<in> set calls. \<forall>y \<in> set calls. fst x < fst y + from_secs 600"
    and "i < length calls" and "snd (calls ! i) = str ''same-key''"
  shows "concurrent_adds_have_exactly_one_winner_per_key calls"
proof -
  obtain c where c: "dedup_new 10000 (from_secs 600) = Some c" by (simp add: dedup_new_def)
  have "wins (str ''same-key'') calls c = 1"
    by (rule wins_once [OF c _ assms]) (simp add: from_secs_def)
  with c show ?thesis by (simp only: concurrent_adds_have_exactly_one_winner_per_key_def holds_def option.case)
qed

theorem one_winner_witness:
  "concurrent_adds_have_exactly_one_winner_per_key
     [(3, str ''key-0''), (5, str ''same-key''), (4, str ''same-key''), (7, str ''key-1'')]"
  by (rule one_winner [where i = 1]) (simp_all add: from_secs_def)

subsection \<open>Acknowledgements\<close>

text \<open>The tests read the serialized bytes back as a JSON object: its members are the fields handed to the serializer.\<close>

definition serializes_submitted_ack_in_design_doc_shape :: bool where
  "serializes_submitted_ack_in_design_doc_shape =
     (let v = ack_fields \<lparr>ack_event_id = str ''evt-12345'', ack_device_id = str ''d-456'',
        agent_received_at = 1784104200190, toast_submitted_at = Some 1784104200205, status = SUBMITTED_TO_WINDOWS\<rparr> in
      map_of v (str ''eventId'') = Some (AckString (str ''evt-12345'')) \<and>
      map_of v (str ''deviceId'') = Some (AckString (str ''d-456'')) \<and>
      map_of v (str ''agentReceivedAt'') = Some (AckTime 1784104200190) \<and>
      map_of v (str ''toastSubmittedAt'') = Some (AckTime 1784104200205) \<and>
      map_of v (str ''status'') = Some (AckString (str ''submitted_to_windows'')) \<and> length v = 5)"

definition observed_ack_omits_null_toast_submitted_at :: bool where
  "observed_ack_omits_null_toast_submitted_at =
     (let v = ack_fields \<lparr>ack_event_id = str ''evt-1'', ack_device_id = str ''d-1'',
        agent_received_at = 1784104200190, toast_submitted_at = None, status = OBSERVED_BY_AGENT\<rparr> in
      map_of v (str ''status'') = Some (AckString (str ''observed_by_agent'')) \<and>
      map_of v (str ''toastSubmittedAt'') = None \<and> length v = 4)"

lemma ack_tests: "serializes_submitted_ack_in_design_doc_shape" "observed_ack_omits_null_toast_submitted_at"
  by code_simp+

subsection \<open>Truncation\<close>

text \<open>
  The segmentation the tests rely on: printable ASCII and the dash and ellipsis of the agent's own texts are a cluster
  each (rule GB999), and a family joined by zero-width joiners is one cluster (GB11).
\<close>

definition plain_char :: "rchar \<Rightarrow> bool" where
  "plain_char c \<longleftrightarrow> 32 \<le> c \<and> c \<le> 126 \<or> c = 8212 \<or> c = 8230"

definition family :: rstring where
  "family = [128105, 8205, 128105, 8205, 128103, 8205, 128102]"

definition test_segments :: "segmenter \<Rightarrow> bool" where
  "test_segments g \<longleftrightarrow> (\<forall>s. list_all plain_char s \<longrightarrow> g s = map (\<lambda>c. [c]) s) \<and>
     (\<forall>n. g (concat (replicate n family)) = replicate n family)"

definition returns_short_strings_unchanged :: "segmenter \<Rightarrow> bool" where
  "returns_short_strings_unchanged g \<longleftrightarrow>
     truncate_text g (str ''hello'') 5 = Some (str ''hello'') \<and> truncate_text g [] 5 = Some []"

definition truncates_to_limit_with_ellipsis :: "segmenter \<Rightarrow> bool" where
  "truncates_to_limit_with_ellipsis g \<longleftrightarrow> truncate_text g (str ''abcdef'') 5 = Some (str ''abcd'' @ [8230])"

definition counts_grapheme_clusters_not_chars :: "segmenter \<Rightarrow> bool" where
  "counts_grapheme_clusters_not_chars g \<longleftrightarrow>
     truncate_text g family 1 = Some family \<and>
     truncate_text g (family @ family) 2 = Some (family @ family) \<and>
     truncate_text g (family @ family @ family) 2 = Some (family @ [8230])"

lemma plain_segments: "test_segments g \<Longrightarrow> list_all plain_char s \<Longrightarrow> g s = map (\<lambda>c. [c]) s"
  by (simp add: test_segments_def)

lemma truncate_plain:
  assumes "test_segments g" and "list_all plain_char s" and "1 \<le> m"
  shows "truncate_text g s m = Some (if length s \<le> m then s else take (m - 1) s @ [8230])"
  using assms by (simp add: truncate_text_def plain_segments take_map)

lemma family_segments:
  assumes "test_segments g"
  shows "g family = [family]" "g (family @ family) = [family, family]"
    "g (family @ family @ family) = [family, family, family]"
proof -
  have seg: "g (concat (replicate n family)) = replicate n family" for n using assms by (simp add: test_segments_def)
  show "g family = [family]" using seg [of 1] by simp
  show "g (family @ family) = [family, family]" using seg [of 2] by (simp add: numeral_2_eq_2)
  show "g (family @ family @ family) = [family, family, family]" using seg [of 3] by (simp add: numeral_3_eq_3)
qed

lemma grapheme_tests:
  assumes "test_segments g"
  shows "returns_short_strings_unchanged g" "truncates_to_limit_with_ellipsis g" "counts_grapheme_clusters_not_chars g"
  using assms by (simp_all add: returns_short_strings_unchanged_def truncates_to_limit_with_ellipsis_def str_def
      counts_grapheme_clusters_not_chars_def truncate_plain plain_char_def truncate_text_def [of g family]
      truncate_text_def [of g "family @ x" for x] family_segments)

subsection \<open>Toast content\<close>

definition test_event :: "u64 \<Rightarrow> string \<Rightarrow> string \<Rightarrow> inbound_notification" where
  "test_event sq eid msg = \<lparr>seq = sq, event_id = str eid, user_id = str ''u1'', title = str ''Title'',
     message = str msg, secondary_text = Some (str ''App''), action_label = Some (str ''Open''),
     action_url = Some (str ''https://example.com/x''), image = None, priority = Normal,
     aggregation_key = str ''agg.key'', deduplication_key = str eid, replaceable = False,
     producer_created_at = None, server_published_at = None, received_at = 1784104200190\<rparr>"

definition single_event_maps_fields_directly :: "segmenter \<Rightarrow> bool" where
  "single_event_maps_fields_directly g =
     (let n = test_event 1 ''e1'' ''Message'' in
      holds (from_single g n) (\<lambda>t. t_title t = str ''Title'' \<and> t_message t = str ''Message'' \<and>
        attribution t = Some (str ''App'') \<and> t_action_label t = Some (str ''Open'') \<and>
        t_action_url t = Some (str ''https://example.com/x'') \<and> sources t = [n]))"

definition single_event_truncates_title_120_message_500 :: "segmenter \<Rightarrow> bool" where
  "single_event_truncates_title_120_message_500 g =
     (let n = (test_event 1 ''e1'' [])\<lparr>message := replicate 600 77, title := replicate 200 84\<rparr> in
      holds (from_single g n) (\<lambda>t. length (g (t_title t)) = 120 \<and> last (t_title t) = 8230 \<and>
        length (g (t_message t)) = 500 \<and> last (t_message t) = 8230))"

definition batch_of_one_behaves_like_single :: "segmenter \<Rightarrow> bool" where
  "batch_of_one_behaves_like_single g =
     (let n = test_event 1 ''e1'' ''Message'' in
      holds (from_batch g [n]) (\<lambda>t. t_title t = str ''Title'' \<and> t_message t = str ''Message'' \<and> sources t = [n]))"

definition batch_summarizes_count_and_latest_by_seq :: "segmenter \<Rightarrow> bool" where
  "batch_summarizes_count_and_latest_by_seq g =
     holds (from_batch g [test_event 1 ''e1'' ''first'', test_event 3 ''e3'' ''third'', test_event 2 ''e2'' ''second''])
       (\<lambda>t. t_title t = str ''3 notifications '' @ [8212] @ str '' agg.key'' \<and> t_message t = str ''Latest: third'' \<and>
          length (sources t) = 3 \<and> t_action_label t = Some (str ''Open''))"

definition empty_batch_panics :: "segmenter \<Rightarrow> bool" where
  "empty_batch_panics g \<longleftrightarrow> from_batch g [] = None"

definition single_event_threads_image :: "segmenter \<Rightarrow> bool" where
  "single_event_threads_image g =
     (let n = (test_event 1 ''e1'' ''m'')\<lparr>image := Some \<lparr>img_url = str ''https://x.example/a.jpg'', img_shape = Circle\<rparr>\<rparr> in
      holds (from_single g n) (\<lambda>t. t_image t = image n))"

definition batch_takes_latest_events_image_strictly :: "segmenter \<Rightarrow> bool" where
  "batch_takes_latest_events_image_strictly g =
     (let older = (test_event 1 ''e1'' ''first'')
            \<lparr>image := Some \<lparr>img_url = str ''https://x.example/old.jpg'', img_shape = Square\<rparr>\<rparr>;
          latest = test_event 2 ''e2'' ''second'';
          pictured = latest\<lparr>image := Some \<lparr>img_url = str ''https://x.example/new.jpg'', img_shape = Circle\<rparr>\<rparr> in
      holds (from_batch g [older, latest]) (\<lambda>t. t_image t = None) \<and>
      holds (from_batch g [older, pictured]) (\<lambda>t. t_image t = image pictured))"

lemmas toast_defs = holds_def test_event_def from_single_def from_batch_def batch_title_def MAX_TITLE_GRAPHEMES_def
  MAX_MESSAGE_GRAPHEMES_def str_def dec_str.simps Let_def

lemma long_event_test:
  assumes "test_segments g"
  shows "single_event_truncates_title_120_message_500 g"
proof -
  have rep: "list_all plain_char (replicate n c)" if "plain_char c" for n c
    using that by (auto simp: list_all_iff)
  have seg: "length (g (replicate n c @ [8230])) = Suc n" if "plain_char c" for n c
    using that assms by (subst plain_segments) (auto simp: list_all_iff plain_char_def)
  have plain: "plain_char 77" "plain_char 84" by (simp_all add: plain_char_def)
  show ?thesis
    using assms by (simp add: single_event_truncates_title_120_message_500_def holds_def test_event_def from_single_def Let_def
        MAX_TITLE_GRAPHEMES_def MAX_MESSAGE_GRAPHEMES_def truncate_plain rep plain seg)
qed

lemma toast_tests:
  assumes "test_segments g"
  shows "single_event_maps_fields_directly g" "batch_of_one_behaves_like_single g"
    "batch_summarizes_count_and_latest_by_seq g" "empty_batch_panics g"
    "single_event_threads_image g" "batch_takes_latest_events_image_strictly g"
  using assms
  by (simp_all add: toast_defs truncate_plain plain_char_def
      single_event_maps_fields_directly_def batch_of_one_behaves_like_single_def
      batch_summarizes_count_and_latest_by_seq_def empty_batch_panics_def
      single_event_threads_image_def batch_takes_latest_events_image_strictly_def)

end
