(* ===== verification/Agent_Tests.thy ===== *)
theory Agent_Tests
  imports Core_Tests
begin

section \<open>The unit tests of the aggregator and the pipeline\<close>

text \<open>
  The tests of \<^verbatim>\<open>aggregator.rs\<close> run on tokio's paused clock. The test bed holds that clock, the aggregator and what its sink has
  recorded; \<open>sink_delay\<close> is how long the sink takes, \<open>None\<close> for one that hangs. \<open>settle\<close> lets the due
  timers and the renders run, \<open>advance\<close> moves the clock. The tests of \<^verbatim>\<open>pipeline.rs\<close> work off the queue and the renders with a recording
  telemetry and renderer.
\<close>

subsection \<open>Aggregator\<close>

definition prioritized :: "u64 \<Rightarrow> string \<Rightarrow> priority \<Rightarrow> string \<Rightarrow> bool \<Rightarrow> string \<Rightarrow> inbound_notification" where
  "prioritized sq eid p agg_key repl msg = (test_event sq eid msg)
     \<lparr>priority := p, aggregation_key := str agg_key, replaceable := repl\<rparr>"

record testbed =
  tb_now :: instant
  tb_agg :: aggregator
  sink_delay :: "duration option"
  rendered :: "toast_request list"

definition testbed_new :: "duration option \<Rightarrow> aggregator_config \<Rightarrow> testbed" where
  "testbed_new delay cfg = \<lparr>tb_now = 0, tb_agg = aggregator_new cfg, sink_delay = delay, rendered = []\<rparr>"

fun tb_add :: "segmenter \<Rightarrow> inbound_notification list \<Rightarrow> testbed \<Rightarrow> testbed option" where
  "tb_add g [] tb = Some tb"
| "tb_add g (n # ns) tb =
     Option.bind (agg_add g (tb_now tb) n (tb_agg tb)) (\<lambda>a. tb_add g ns (tb\<lparr>tb_agg := a\<rparr>))"

fun run_timers :: "segmenter \<Rightarrow> instant \<Rightarrow> nat list \<Rightarrow> aggregator \<Rightarrow> aggregator option" where
  "run_timers g now [] a = Some a"
| "run_timers g now (tid # tids) a =
     Option.bind (timer_fire g tid (timer_wake now tid a)) (run_timers g now tids)"

definition settle :: "segmenter \<Rightarrow> testbed \<Rightarrow> testbed option" where
  "settle g tb = map_option (\<lambda>a.
       if sink_delay tb = Some 0
       then tb\<lparr>tb_agg := a\<lparr>renders := []\<rparr>, rendered := rendered tb @ renders a\<rparr>
       else tb\<lparr>tb_agg := a\<rparr>)
     (run_timers g (tb_now tb) (map tm_id (timers (tb_agg tb))) (tb_agg tb))"

definition advance :: "duration \<Rightarrow> testbed \<Rightarrow> testbed" where
  "advance d tb = tb\<lparr>tb_now := tb_now tb + d\<rparr>"

text \<open>Shutdown: the clock advances by itself while the renders are awaited; those that end in time are recorded.\<close>

definition tb_shutdown :: "segmenter \<Rightarrow> testbed \<Rightarrow> (testbed \<times> duration) option" where
  "tb_shutdown g tb =
     (let ks = map fst (buckets (tb_agg tb)) in
      Option.bind (flush_all g ks (tb_agg tb)) (\<lambda>flushed.
      Option.bind (agg_shutdown g ks (replicate (length (renders flushed)) (sink_delay tb)) (tb_agg tb))
        (\<lambda>(a, spent, late). Some (tb\<lparr>tb_now := tb_now tb + spent, tb_agg := a,
           rendered := (if late then rendered tb else rendered tb @ renders a)\<rparr>, spent))))"

abbreviation recording :: testbed where
  "recording \<equiv> testbed_new (Some 0) aggregator_config_default"

definition critical_renders_immediately :: "segmenter \<Rightarrow> bool" where
  "critical_renders_immediately g = holds (do {
       tb \<leftarrow> tb_add g [prioritized 1 ''e1'' Critical ''agg.key'' False ''m''] recording;
       settle g tb })
     (\<lambda>tb. length (rendered tb) = 1 \<and> event_id (sources (rendered tb ! 0) ! 0) = str ''e1'')"

definition normal_events_batch_and_flush_after_10s :: "segmenter \<Rightarrow> bool" where
  "normal_events_batch_and_flush_after_10s g = holds (do {
       tb \<leftarrow> tb_add g (map (\<lambda>(sq, eid). prioritized sq eid Normal ''agg.key'' False ''m'')
         [(1, ''e1''), (2, ''e2''), (3, ''e3'')]) recording;
       tb1 \<leftarrow> settle g tb;
       tb2 \<leftarrow> settle g (advance (from_secs 10) tb1);
       Some (tb1, tb2) })
     (\<lambda>(tb1, tb2). rendered tb1 = [] \<and> length (rendered tb2) = 1 \<and> length (sources (rendered tb2 ! 0)) = 3 \<and>
        starts_with (t_title (rendered tb2 ! 0)) (str ''3 notifications''))"

definition important_flushes_after_2s_normal_does_not :: "segmenter \<Rightarrow> bool" where
  "important_flushes_after_2s_normal_does_not g = holds (do {
       tb \<leftarrow> tb_add g [prioritized 1 ''i1'' Important ''imp'' False ''m'',
         prioritized 2 ''n1'' Normal ''norm'' False ''m''] recording;
       tb \<leftarrow> settle g tb;
       tb1 \<leftarrow> settle g (advance (from_secs 2) tb);
       tb2 \<leftarrow> settle g (advance (from_secs 8) tb1);
       Some (tb1, tb2) })
     (\<lambda>(tb1, tb2). length (rendered tb1) = 1 \<and> event_id (sources (rendered tb1 ! 0) ! 0) = str ''i1'' \<and>
        length (rendered tb2) = 2)"

definition replaceable_keeps_highest_seq_even_when_stale_arrives_late :: "segmenter \<Rightarrow> bool" where
  "replaceable_keeps_highest_seq_even_when_stale_arrives_late g = holds (do {
       tb \<leftarrow> tb_add g [prioritized 1 ''p1'' Normal ''prog'' True ''10%'', prioritized 3 ''p3'' Normal ''prog'' True ''90%'',
         prioritized 2 ''p2'' Normal ''prog'' True ''60%''] recording;
       tb \<leftarrow> settle g tb;
       settle g (advance (from_secs 10) tb) })
     (\<lambda>tb. length (rendered tb) = 1 \<and> length (sources (rendered tb ! 0)) = 1 \<and>
        event_id (sources (rendered tb ! 0) ! 0) = str ''p3'' \<and> t_message (rendered tb ! 0) = str ''90%'')"

definition separate_aggregation_keys_produce_separate_toasts :: "segmenter \<Rightarrow> bool" where
  "separate_aggregation_keys_produce_separate_toasts g = holds (do {
       tb \<leftarrow> tb_add g [prioritized 1 ''a1'' Normal ''a'' False ''m'', prioritized 2 ''b1'' Normal ''b'' False ''m''] recording;
       tb \<leftarrow> settle g tb;
       settle g (advance (from_secs 10) tb) })
     (\<lambda>tb. length (rendered tb) = 2)"

definition drops_events_beyond_max_buckets :: "segmenter \<Rightarrow> bool" where
  "drops_events_beyond_max_buckets g = holds (do {
       tb1 \<leftarrow> tb_add g [prioritized 1 ''a1'' Normal ''a'' False ''m'', prioritized 2 ''b1'' Normal ''b'' False ''m'',
         prioritized 3 ''c1'' Normal ''c'' False ''m''] (testbed_new (Some 0) (aggregator_config_default\<lparr>max_buckets := 2\<rparr>));
       tb \<leftarrow> settle g tb1;
       tb2 \<leftarrow> settle g (advance (from_secs 10) tb);
       Some (tb1, tb2) })
     (\<lambda>(tb1, tb2). agg_dropped (tb_agg tb1) = 1 \<and> length (rendered tb2) = 2)"

definition shutdown_flushes_pending_buckets :: "segmenter \<Rightarrow> bool" where
  "shutdown_flushes_pending_buckets g = holds (do {
       tb \<leftarrow> tb_add g [prioritized 1 ''e1'' Normal ''agg.key'' False ''m''] recording;
       tb_shutdown g tb })
     (\<lambda>(tb, _). length (rendered tb) = 1)"

definition shutdown_waits_for_in_flight_renders :: "segmenter \<Rightarrow> bool" where
  "shutdown_waits_for_in_flight_renders g = holds (do {
       tb \<leftarrow> tb_add g [prioritized 1 ''e1'' Critical ''agg.key'' False ''m'']
         (testbed_new (Some (from_secs 1)) aggregator_config_default);
       tb \<leftarrow> settle g tb;
       tb_shutdown g tb })
     (\<lambda>(tb, _). length (rendered tb) = 1)"

definition hung_renderer_forfeits_after_drain_timeout :: "segmenter \<Rightarrow> bool" where
  "hung_renderer_forfeits_after_drain_timeout g = holds (do {
       tb \<leftarrow> tb_add g [prioritized 1 ''e1'' Critical ''agg.key'' False ''m''] (testbed_new None aggregator_config_default);
       tb \<leftarrow> settle g tb;
       tb_shutdown g tb })
     (\<lambda>(_, spent). spent \<le> from_secs 60)"

text \<open>Short texts are never cut, whatever the segmenter.\<close>

lemma segments_le:
  assumes "grapheme_laws g"
  shows "length (g s) \<le> length s"
proof (induction s rule: rev_induct)
  case Nil
  have "g (concat (take 0 (g []))) = take 0 (g [])" using assms unfolding grapheme_laws_def by blast
  then show ?case by simp
next
  case (snoc c s)
  have "length (g (s @ [c])) \<le> Suc (length (g s))" using assms unfolding grapheme_laws_def by blast
  with snoc show ?case by simp
qed

lemma truncate_short: "grapheme_laws g \<Longrightarrow> length v \<le> m \<Longrightarrow> 1 \<le> m \<Longrightarrow> truncate_text g v m = Some v"
  using segments_le [of g v] by (simp add: truncate_text_def)

lemmas run_defs = toast_defs testbed_new_def settle_def advance_def tb_shutdown_def prioritized_def
  aggregator_new_def aggregator_config_default_def agg_add_def agg_flush_def timer_wake_def timer_fire_def
  agg_shutdown_def renders_wait_def agg_dropped_def apply_to_bucket_def window_of_def abort_timer_def from_secs_def
  starts_with_def hm_get_def hm_insert_def hm_remove_def hm_len_def sort_by_key_def truncate_short

lemma window_tests:
  assumes "grapheme_laws g"
  shows "critical_renders_immediately g" "normal_events_batch_and_flush_after_10s g"
    "important_flushes_after_2s_normal_does_not g"
  using assms by (simp_all add: run_defs critical_renders_immediately_def
      normal_events_batch_and_flush_after_10s_def important_flushes_after_2s_normal_does_not_def)

lemma bucket_tests:
  assumes "grapheme_laws g"
  shows "replaceable_keeps_highest_seq_even_when_stale_arrives_late g"
    "separate_aggregation_keys_produce_separate_toasts g" "drops_events_beyond_max_buckets g"
  using assms by (simp_all add: run_defs replaceable_keeps_highest_seq_even_when_stale_arrives_late_def
      separate_aggregation_keys_produce_separate_toasts_def drops_events_beyond_max_buckets_def)

lemma shutdown_tests:
  assumes "grapheme_laws g"
  shows "shutdown_flushes_pending_buckets g" "shutdown_waits_for_in_flight_renders g"
    "hung_renderer_forfeits_after_drain_timeout g"
  using assms by (simp_all add: run_defs shutdown_flushes_pending_buckets_def
      shutdown_waits_for_in_flight_renders_def hung_renderer_forfeits_after_drain_timeout_def)

subsection \<open>Pipeline\<close>

definition quoted :: "string \<Rightarrow> rstring" where
  "quoted s = [34] @ str s @ [34]"

text \<open>The payload of \<^verbatim>\<open>critical_event\<close>, line breaks and indentation included.\<close>

definition critical_payload :: "string \<Rightarrow> u8 list" where
  "critical_payload eid = utf8_bytes (
     str ''{'' @ quoted ''eventId'' @ str '':'' @ quoted eid @ str '','' @
     quoted ''target'' @ str '':{'' @ quoted ''userId'' @ str '':'' @ quoted ''u1'' @ str ''},'' @ [10] @ replicate 17 32 @
     quoted ''content'' @ str '':{'' @ quoted ''title'' @ str '':'' @ quoted ''T'' @ str '','' @
     quoted ''message'' @ str '':'' @ quoted ''M'' @ str ''},'' @ [10] @ replicate 17 32 @
     quoted ''classification'' @ str '':{'' @ quoted ''priority'' @ str '':'' @ quoted ''critical'' @ str '','' @
     quoted ''deduplicationKey'' @ str '':'' @ quoted eid @ str ''}}'')"

definition critical_event :: "u64 \<Rightarrow> string \<Rightarrow> received_event" where
  "critical_event sq eid = \<lparr>re_payload = critical_payload eid, re_received_at = 1784104200190, re_seq = sq\<rparr>"

definition critical_wire :: "string \<Rightarrow> wire_event" where
  "critical_wire eid = \<lparr>w_schema_version = None, w_event_id = Some (str eid), w_notification_type = None,
     w_target = Some \<lparr>wt_user_id = Some (str ''u1'')\<rparr>,
     w_content = Some \<lparr>wc_title = Some (str ''T''), wc_message = Some (str ''M''), wc_secondary_text = None, wc_image = None\<rparr>,
     w_action = None,
     w_classification = Some \<lparr>wl_priority = Some (str ''critical''), wl_aggregation_key = None,
       wl_deduplication_key = Some (str eid), wl_replaceable = None\<rparr>,
     w_timestamps = None\<rparr>"

text \<open>What the deserializer makes of the payloads of these tests.\<close>

definition reads_payloads :: "from_slice \<Rightarrow> bool" where
  "reads_payloads from_slice \<longleftrightarrow>
     from_slice (critical_payload ''evt-1'') = Inr (critical_wire ''evt-1'') \<and>
     from_slice (critical_payload ''evt-dup'') = Inr (critical_wire ''evt-dup'') \<and>
     from_slice (critical_payload ''evt-ok'') = Inr (critical_wire ''evt-ok'') \<and>
     from_slice (utf8_bytes (str ''garbage'')) = Inl (str ''expected value'')"

definition harness :: "nat \<Rightarrow> nat \<Rightarrow> agent option" where
  "harness queue_cap n_workers = Option.bind (dedup_new 100 (from_secs 600)) (\<lambda>dd.
     build_agent \<lparr>queue_capacity = queue_cap, workers = n_workers\<rparr> aggregator_config_default dd 0 (str ''d-456''))"

fun enqueue_all :: "received_event list \<Rightarrow> agent \<Rightarrow> bool list \<times> agent" where
  "enqueue_all [] s = ([], s)"
| "enqueue_all (evt # evts) s =
     (case try_enqueue evt s of (ok, s) \<Rightarrow> case enqueue_all evts s of (oks, s) \<Rightarrow> (ok # oks, s))"

text \<open>The recording telemetry accepts every acknowledgement, the recording renderer every toast at one fixed time.\<close>

definition recording_telemetry :: telemetry where
  "recording_telemetry ack = (Inr (), Some 0)"

definition submit_at :: datetime where
  "submit_at = 1784104200205"

fun process_all :: "env \<Rightarrow> rstring \<Rightarrow> received_event list \<Rightarrow> dedup_cache \<times> aggregator \<times> ack_log \<Rightarrow>
    (dedup_cache \<times> aggregator \<times> ack_log) option" where
  "process_all E dev [] st = Some st"
| "process_all E dev (evt # evts) st =
     Option.bind (process E dev recording_telemetry 0 0 evt st) (process_all E dev evts)"

text \<open>
  Working off the queue and then the renders. The events are processed one after another, one of the schedules that the two racing workers can have; what holds for all of
  them is shown in \<open>Agent_Trace\<close> and \<open>Host_Guarantees\<close>. The result: the toasts shown, the acknowledgements published, and the pipeline at rest.
\<close>

definition work_off :: "env \<Rightarrow> agent \<Rightarrow> (toast_request list \<times> ack_payload list \<times> agent) option" where
  "work_off E s = Option.bind (process_all E (device_id s) (queue s) (dedup s, aggr s, log s)) (\<lambda>(dd, a, lg).
     let lg' = fold (acking_render (device_id s) recording_telemetry (\<lambda>_. Inr submit_at)) (renders a) lg in
     Some (renders a, map fst lg', s\<lparr>queue := [], dedup := dd, aggr := a\<lparr>renders := []\<rparr>, log := lg'\<rparr>))"

definition run_pipeline :: "env \<Rightarrow> received_event list \<Rightarrow> (toast_request list \<times> ack_payload list) option" where
  "run_pipeline E evts = Option.bind (harness 500 2) (\<lambda>s.
     map_option (\<lambda>(shown, acks, s). (shown, acks)) (work_off E (snd (enqueue_all evts s))))"

definition valid_critical_event_flows_to_renderer_with_both_acks :: "env \<Rightarrow> bool" where
  "valid_critical_event_flows_to_renderer_with_both_acks E =
     holds (run_pipeline E [critical_event 1 ''evt-1'']) (\<lambda>(shown, acks).
       length acks = 2 \<and> length shown = 1 \<and>
       holds (find (\<lambda>a. status a = OBSERVED_BY_AGENT) acks) (\<lambda>observed.
         ack_event_id observed = str ''evt-1'' \<and> ack_device_id observed = str ''d-456'' \<and>
         agent_received_at observed = 1784104200190 \<and> toast_submitted_at observed = None) \<and>
       holds (find (\<lambda>a. status a = SUBMITTED_TO_WINDOWS) acks) (\<lambda>submitted.
         toast_submitted_at submitted = Some submit_at \<and> agent_received_at submitted = 1784104200190))"

definition duplicate_events_are_processed_once :: "env \<Rightarrow> bool" where
  "duplicate_events_are_processed_once E =
     holds (run_pipeline E (map (\<lambda>sq. critical_event sq ''evt-dup'') [1, 2, 3]))
       (\<lambda>(shown, acks). length shown = 1 \<and> length acks = 2)"

definition invalid_payloads_are_dropped_silently :: "env \<Rightarrow> bool" where
  "invalid_payloads_are_dropped_silently E =
     holds (run_pipeline E [\<lparr>re_payload = utf8_bytes (str ''garbage''), re_received_at = 1784104200190, re_seq = 1\<rparr>,
         critical_event 2 ''evt-ok''])
       (\<lambda>(shown, acks). length acks = 2 \<and> length shown = 1 \<and> list_all (\<lambda>a. ack_event_id a = str ''evt-ok'') acks)"

definition try_enqueue_reports_drop_when_queue_full :: bool where
  "try_enqueue_reports_drop_when_queue_full = holds (harness 2 0) (\<lambda>s.
     (case enqueue_all [critical_event 1 ''e1'', critical_event 2 ''e2'', critical_event 3 ''e3''] s of
        (oks, s) \<Rightarrow> oks = [True, True, False] \<and> pipeline_dropped s = 1))"

lemma queue_test: "try_enqueue_reports_drop_when_queue_full"
  by (simp add: try_enqueue_reports_drop_when_queue_full_def harness_def holds_def dedup_new_def build_agent_def
      pipeline_start_def try_enqueue_def pipeline_dropped_def)

definition critical_notification :: "u64 \<Rightarrow> string \<Rightarrow> inbound_notification" where
  "critical_notification sq eid = \<lparr>seq = sq, event_id = str eid, user_id = str ''u1'', title = str ''T'', message = str ''M'',
     secondary_text = None, action_label = None, action_url = None, image = None, priority = Critical,
     aggregation_key = str ''unknown'', deduplication_key = str eid, replaceable = False,
     producer_created_at = None, server_published_at = None, received_at = 1784104200190\<rparr>"

lemma normalize_critical:
  assumes "trim (str eid) \<noteq> []"
  shows "normalize u up (critical_wire eid) 1784104200190 sq = Inr (critical_notification sq eid)"
  using assms by (simp add: normalize_def critical_wire_def critical_notification_def require_def non_blank_def unwrap_or_def
      parse_image_def parse_priority_def trim_def is_whitespace_def str_def to_lowercase_ascii ascii_lower_def
      wire_action_default_def wire_timestamps_default_def Let_def)

lemma parse_critical:
  assumes "from_slice (critical_payload eid) = Inr (critical_wire eid)" and "eid \<in> {''evt-1'', ''evt-dup'', ''evt-ok''}"
  shows "parse_event u up from_slice (critical_payload eid) 1784104200190 sq = Inr (critical_notification sq eid)"
proof -
  have "list_all (\<lambda>eid. critical_payload eid \<noteq> [] \<and> length (critical_payload eid) \<le> MAX_PAYLOAD_BYTES \<and>
      \<not> depth_exceeds (critical_payload eid) MAX_JSON_DEPTH \<and> trim (str eid) \<noteq> []) [''evt-1'', ''evt-dup'', ''evt-ok'']"
    by code_simp
  with assms(2) have "critical_payload eid \<noteq> []" "\<not> length (critical_payload eid) > MAX_PAYLOAD_BYTES"
    "\<not> depth_exceeds (critical_payload eid) MAX_JSON_DEPTH" "trim (str eid) \<noteq> []" by auto
  with assms(1) show ?thesis by (simp add: parse_event_def normalize_critical)
qed

lemma parse_garbage:
  assumes "from_slice (utf8_bytes (str ''garbage'')) = Inl e"
  shows "parse_event u up from_slice (utf8_bytes (str ''garbage'')) r sq = Inl (Json e)"
proof -
  have "utf8_bytes (str ''garbage'') \<noteq> [] \<and> length (utf8_bytes (str ''garbage'')) \<le> MAX_PAYLOAD_BYTES \<and>
      \<not> depth_exceeds (utf8_bytes (str ''garbage'')) MAX_JSON_DEPTH" by code_simp
  with assms show ?thesis by (simp add: parse_event_def not_less)
qed

lemmas pipe_defs = run_pipeline_def harness_def work_off_def process_def recording_telemetry_def holds_def dedup_new_def
  build_agent_def pipeline_start_def try_enqueue_def critical_event_def publish_ack_def observed_ack_def submitted_ack_def
  acking_render_def aggregator_new_def agg_add_def from_single_def critical_notification_def MAX_TITLE_GRAPHEMES_def
  MAX_MESSAGE_GRAPHEMES_def Let_def try_add_def purge_expired.simps evict_to_capacity.simps hm_get_def hm_len_def hm_insert_def
  from_secs_def

lemma pipeline_tests:
  assumes "grapheme_laws (env_graphemes E)" and "reads_payloads (env_from_slice E)"
  shows "valid_critical_event_flows_to_renderer_with_both_acks E" "duplicate_events_are_processed_once E"
    "invalid_payloads_are_dropped_silently E"
proof -
  have parsed: "parse_event u up (env_from_slice E) (critical_payload eid) 1784104200190 sq = Inr (critical_notification sq eid)"
    if "eid \<in> {''evt-1'', ''evt-dup'', ''evt-ok''}" for u up sq eid
    using that assms(2) by (intro parse_critical) (auto simp: reads_payloads_def)
  have bad: "parse_event u up (env_from_slice E) (utf8_bytes (str ''garbage'')) r sq = Inl (Json (str ''expected value''))" for u up r sq
    using assms(2) by (intro parse_garbage) (simp add: reads_payloads_def)
  have short: "truncate_text (env_graphemes E) (str ''T'') 120 = Some (str ''T'')"
    "truncate_text (env_graphemes E) (str ''M'') 500 = Some (str ''M'')"
    by (rule truncate_short [OF assms(1)]; simp add: str_def)+
  show "valid_critical_event_flows_to_renderer_with_both_acks E"
    by (simp add: valid_critical_event_flows_to_renderer_with_both_acks_def pipe_defs parsed short)
  show "duplicate_events_are_processed_once E"
    by (simp add: duplicate_events_are_processed_once_def pipe_defs parsed short)
  show "invalid_payloads_are_dropped_silently E"
    by (simp add: invalid_payloads_are_dropped_silently_def pipe_defs parsed bad short)
qed

text \<open>
  The model passes the repository's own tests of the event path: every unit test of the aggregator and of the pipeline holds
  of the definitions, for every segmenter that obeys the grapheme rules and every deserializer that reads the
  tests' payloads as JSON.
\<close>

theorem event_path_tests:
  assumes "grapheme_laws (env_graphemes E)" and "reads_payloads (env_from_slice E)"
  shows "list_all (\<lambda>test. test (env_graphemes E))
      [critical_renders_immediately, normal_events_batch_and_flush_after_10s, important_flushes_after_2s_normal_does_not,
       replaceable_keeps_highest_seq_even_when_stale_arrives_late, separate_aggregation_keys_produce_separate_toasts,
       drops_events_beyond_max_buckets, shutdown_flushes_pending_buckets, shutdown_waits_for_in_flight_renders,
       hung_renderer_forfeits_after_drain_timeout] \<and>
    list_all (\<lambda>test. test E)
      [valid_critical_event_flows_to_renderer_with_both_acks, duplicate_events_are_processed_once,
       invalid_payloads_are_dropped_silently] \<and>
    try_enqueue_reports_drop_when_queue_full"
  using window_tests [OF assms(1)] bucket_tests [OF assms(1)] shutdown_tests [OF assms(1)] pipeline_tests [OF assms] queue_test
  by simp

definition payload_reader :: from_slice where
  "payload_reader bs = (case map_of (map (\<lambda>eid. (critical_payload eid, critical_wire eid)) [''evt-1'', ''evt-dup'', ''evt-ok'']) bs of
     Some w \<Rightarrow> Inr w | None \<Rightarrow> Inl (str ''expected value''))"

definition test_env :: env where
  "test_env = \<lparr>env_ucd = ascii_ucd, env_url_parse = (\<lambda>_. None), env_from_slice = payload_reader,
     env_graphemes = crlf_graphemes\<rparr>"

theorem event_path_tests_witness:
  "duplicate_events_are_processed_once test_env \<and> normal_events_batch_and_flush_after_10s crlf_graphemes"
proof -
  have "reads_payloads payload_reader" by code_simp
  then have "grapheme_laws (env_graphemes test_env)" "reads_payloads (env_from_slice test_env)"
    using crlf_laws by (simp_all add: test_env_def)
  from event_path_tests [OF this] show ?thesis by (simp add: test_env_def)
qed

end
