(* ===== verification/Integration_Test.thy ===== *)
theory Integration_Test
  imports Host Agent_Tests Parser_Tests
begin

section \<open>The integration test (\<^verbatim>\<open>tests/nats_integration.rs\<close>)\<close>

text \<open>
  The end-to-end test against a NATS server, as a predicate over the model of the whole agent: start, subscription, one published event, the two
  acknowledgements as the probe reads them, the toast, shutdown. A server that is there accepts the connection and the
  subscription and delivers the message. \<open>nanos\<close> is the clock value (a 128-bit count of nanoseconds) that makes the event id unique, \<open>to_text\<close> the library's JSON serializer.
\<close>

definition stub_identity :: "rstring + agent_identity" where
  "stub_identity = Inr \<lparr>id_user_id = str ''itest-rust'', id_device_id = str ''d-itest-rust''\<rparr>"

definition integration_config :: agent_config where
  "integration_config = \<lparr>nats_url = str ''nats://127.0.0.1:4222'', subject_template = str ''notify.user.{0}.desktop'',
     ack_subject = str ''notify.ack.desktop''\<rparr>"

fun hex_str :: "nat \<Rightarrow> string" where
  "hex_str n = (if n < 16 then [] else hex_str (n div 16)) @ [char_of (hex_digit 97 (n mod 16))]"

definition uuid_like :: "nat \<Rightarrow> string" where
  "uuid_like nanos = hex_str nanos"

definition integration_payload :: "string \<Rightarrow> u8 list" where
  "integration_payload eid = utf8_bytes (quoted_lines
    [''{`eventId`:`'' @ eid @ ''`,`target`:{`userId`:`itest-rust`},'',
     ''             `content`:{`title`:`Integration`,`message`:`Hello`},'',
     ''             `classification`:{`priority`:`critical`}}''])"

definition published_event_is_rendered_and_acked_end_to_end ::
  "env \<Rightarrow> ((rstring \<times> ack_value) list \<Rightarrow> rstring) \<Rightarrow> bool \<Rightarrow> nat \<Rightarrow> datetime \<Rightarrow> bool" where
  "published_event_is_rendered_and_acked_end_to_end E to_text nats_available nanos now \<longleftrightarrow>
     \<not> nats_available \<or>
     (case host_start integration_config stub_identity None () (\<lambda>_ _. Inr ()) (\<lambda>_. Inr ()) 0 of
        Some (Inr h) \<Rightarrow>
          subject h = str ''notify.user.itest-rust.desktop'' \<and>
          (case on_message h (Some (integration_payload (''evt-'' @ uuid_like nanos))) now of
             Exit _ \<Rightarrow> False
           | Running h \<Rightarrow> holds (work_off E (agent h)) (\<lambda>(shown, acks, s).
               let received = map (to_text \<circ> ack_fields) acks in
               length received = 2 \<and>
               list_ex (\<lambda>a. has_part a (str ''observed_by_agent'') \<and> has_part a (str (''evt-'' @ uuid_like nanos))) received \<and>
               list_ex (\<lambda>a. has_part a (str ''submitted_to_windows'') \<and> has_part a (str (''evt-'' @ uuid_like nanos))) received \<and>
               list_all (\<lambda>a. has_part a (str ''d-itest-rust'')) received \<and>
               length shown = 1 \<and>
               holds (shutdown_end (env_graphemes E) [] [] (Inr ()) (shutdown_begin (h\<lparr>agent := s\<rparr>))) (\<lambda>(h, r). r = Inr ())))
      | _ \<Rightarrow> False)"

text \<open>What the libraries do: the text reader gives the tree of the payload, the serializer writes a string without quotation marks, backslashes and control characters as it is.\<close>

definition integration_tree :: "string \<Rightarrow> json" where
  "integration_tree eid = tree [(''eventId'', text_node eid), (''target'', tree [(''userId'', text_node ''itest-rust'')]),
     (''content'', tree [(''title'', text_node ''Integration''), (''message'', text_node ''Hello'')]),
     (''classification'', tree [(''priority'', text_node ''critical'')])]"

definition plain_text :: "rstring \<Rightarrow> bool" where
  "plain_text s \<longleftrightarrow> list_all (\<lambda>c. 32 \<le> c \<and> c < 127 \<and> c \<noteq> 34 \<and> c \<noteq> 92) s"

definition writes_strings :: "((rstring \<times> ack_value) list \<Rightarrow> rstring) \<Rightarrow> bool" where
  "writes_strings to_text \<longleftrightarrow> (\<forall>fs k s. (k, AckString s) \<in> set fs \<longrightarrow> plain_text s \<longrightarrow> has_part (to_text fs) s)"

definition hex_digits :: "string \<Rightarrow> bool" where
  "hex_digits hex \<longleftrightarrow> list_all (\<lambda>c. 48 \<le> c \<and> c \<le> 57 \<or> 97 \<le> c \<and> c \<le> 102) (str hex) \<and> length hex \<le> 32"

lemma hex_plain:
  assumes "hex_digits hex"
  shows "plain_text (str (''evt-'' @ hex))" "openers hex = 0" "length hex \<le> 32"
proof -
  show "length hex \<le> 32" using assms by (simp add: hex_digits_def)
  have digits: "list_all (\<lambda>c. 48 \<le> c \<and> c \<le> 57 \<or> 97 \<le> c \<and> c \<le> 102) (str hex)" using assms by (simp add: hex_digits_def)
  then have "list_all (\<lambda>c. 32 \<le> c \<and> c < 127 \<and> c \<noteq> 34 \<and> c \<noteq> 92) (str hex)" by (rule list.pred_mono_strong) auto
  then show "plain_text (str (''evt-'' @ hex))" by (simp add: plain_text_def str_def)
  have "list_all (\<lambda>c. c \<noteq> 123 \<and> c \<noteq> 91) (str hex)" using digits by (rule list.pred_mono_strong) auto
  then show "openers hex = 0" by (induction hex) (auto simp: str_def)
qed

lemma length_hex_str: "n < 16 ^ Suc k \<Longrightarrow> length (hex_str n) \<le> Suc k"
proof (induction n arbitrary: k rule: hex_str.induct)
  case (1 n)
  show ?case
  proof (cases "n < 16")
    case False
    then obtain j where k: "k = Suc j" using "1.prems" by (cases k) auto
    have "n div 16 < 16 ^ Suc j" using "1.prems" by (simp add: k less_mult_imp_div_less)
    from "1.IH" [OF False this] False show ?thesis by (simp add: k)
  qed simp
qed

lemma hex_str_digits: "list_all (\<lambda>c. 48 \<le> c \<and> c \<le> 57 \<or> 97 \<le> c \<and> c \<le> 102) (str (hex_str n))"
proof (induction n rule: hex_str.induct)
  case (1 n)
  have "n mod 16 < 16" by simp
  then have "48 \<le> d \<and> d \<le> 57 \<or> 97 \<le> d \<and> d \<le> 102" if "d = hex_digit 97 (n mod 16)" for d
    unfolding that by (auto simp: hex_digit_def)
  moreover have "of_char (char_of (hex_digit 97 (n mod 16))) = hex_digit 97 (n mod 16)"
    using \<open>n mod 16 < 16\<close> by (simp add: hex_digit_def)
  ultimately show ?case using 1 by (cases "n < 16") (simp_all add: str_def)
qed

lemma uuid_like_digits: "nanos < 2 ^ 128 \<Longrightarrow> hex_digits (uuid_like nanos)"
  using length_hex_str [of nanos 31] hex_str_digits [of nanos] by (simp add: hex_digits_def uuid_like_def)

lemma integration_payload_fits:
  assumes "hex_digits hex"
  shows "fits (integration_payload (''evt-'' @ hex))"
  using hex_plain [OF assms] unfolding integration_payload_def by (intro quoted_lines_fits) simp_all

definition integration_event :: "string \<Rightarrow> datetime \<Rightarrow> u64 \<Rightarrow> inbound_notification" where
  "integration_event eid now sq = \<lparr>seq = sq, event_id = str eid, user_id = str ''itest-rust'', title = str ''Integration'',
     message = str ''Hello'', secondary_text = None, action_label = None, action_url = None, image = None, priority = Critical,
     aggregation_key = str ''unknown'', deduplication_key = str eid, replaceable = False,
     producer_created_at = None, server_published_at = None, received_at = now\<rparr>"

lemma integration_parses:
  assumes "env_from_slice E = wire_from_slice json_text rfc3339 shape_error" and "hex_digits hex"
    and "json_text (integration_payload (''evt-'' @ hex)) = Inr (integration_tree (''evt-'' @ hex))"
  shows "parse_event u p (env_from_slice E) (integration_payload (''evt-'' @ hex)) now sq =
    Inr (integration_event (''evt-'' @ hex) now sq)"
proof -
  have "wire_event_of rfc3339 (integration_tree (''evt-'' @ hex)) = Some \<lparr>w_schema_version = None,
      w_event_id = Some (str (''evt-'' @ hex)), w_notification_type = None, w_target = Some \<lparr>wt_user_id = Some (str ''itest-rust'')\<rparr>,
      w_content = Some \<lparr>wc_title = Some (str ''Integration''), wc_message = Some (str ''Hello''), wc_secondary_text = None, wc_image = None\<rparr>,
      w_action = None, w_classification = Some \<lparr>wl_priority = Some (str ''critical''), wl_aggregation_key = None,
        wl_deduplication_key = None, wl_replaceable = None\<rparr>, w_timestamps = None\<rparr>"
    by (simp add: integration_tree_def tree_readers std_simps numeral_nat)
  moreover have "normalize u p \<lparr>w_schema_version = None,
      w_event_id = Some (str (''evt-'' @ hex)), w_notification_type = None, w_target = Some \<lparr>wt_user_id = Some (str ''itest-rust'')\<rparr>,
      w_content = Some \<lparr>wc_title = Some (str ''Integration''), wc_message = Some (str ''Hello''), wc_secondary_text = None, wc_image = None\<rparr>,
      w_action = None, w_classification = Some \<lparr>wl_priority = Some (str ''critical''), wl_aggregation_key = None,
        wl_deduplication_key = None, wl_replaceable = None\<rparr>, w_timestamps = None\<rparr> now sq = Inr (integration_event (''evt-'' @ hex) now sq)"
    by (simp add: normalizing integration_event_def parse_priority_def str_def to_lowercase_ascii ascii_lower_def)
  ultimately show ?thesis
    using integration_payload_fits [OF assms(2)] assms(1,3) by (simp add: parse_event_def wire_from_slice_def fits_def)
qed

lemma integration_test:
  assumes "grapheme_laws (env_graphemes E)" and "writes_strings to_text"
    and "env_from_slice E = wire_from_slice json_text rfc3339 shape_error" and "nanos < 2 ^ 128"
    and "json_text (integration_payload (''evt-'' @ uuid_like nanos)) = Inr (integration_tree (''evt-'' @ uuid_like nanos))"
  shows "published_event_is_rendered_and_acked_end_to_end E to_text available nanos now"
proof -
  have hex: "hex_digits (uuid_like nanos)" using assms(4) by (rule uuid_like_digits)
  define eid where "eid = ''evt-'' @ uuid_like nanos"
  have parsed: "parse_event u p (env_from_slice E) (integration_payload eid) now sq = Inr (integration_event eid now sq)" for u p sq
    unfolding eid_def by (rule integration_parses [OF assms(3) hex assms(5)])
  have some: "integration_payload eid \<noteq> []" using integration_payload_fits [OF hex] by (simp add: fits_def eid_def)
  have short: "truncate_text (env_graphemes E) (str ''Integration'') 120 = Some (str ''Integration'')"
    "truncate_text (env_graphemes E) (str ''Hello'') 500 = Some (str ''Hello'')"
    by (rule truncate_short [OF assms(1)]; simp add: str_def)+
  have subj: "replace_str (str ''{0}'') (str ''itest-rust'') (str ''notify.user.{0}.desktop'') = str ''notify.user.itest-rust.desktop''"
    by code_simp
  have plain: "plain_text (str eid)" "plain_text (str ''observed_by_agent'')" "plain_text (str ''submitted_to_windows'')" "plain_text (str ''d-itest-rust'')"
    using hex_plain(1) [OF hex] by (simp_all add: plain_text_def str_def eid_def)
  note wr = assms(2) [unfolded writes_strings_def, rule_format]
  have written: "has_part (to_text (ack_fields a)) s" if "plain_text s" "s = ack_event_id a \<or> s = ack_device_id a \<or> s = status a" for a s
    using that(2) wr [OF _ that(1), of "str ''eventId''" "ack_fields a"] wr [OF _ that(1), of "str ''deviceId''" "ack_fields a"]
      wr [OF _ that(1), of "str ''status''" "ack_fields a"] by (auto simp: ack_fields_def)
  show ?thesis
    unfolding published_event_is_rendered_and_acked_end_to_end_def eid_def [symmetric]
    by (simp add: host_start_def stub_identity_def integration_config_def subj some
        on_message_def intake_handle_def handle_enqueue_def pipeline_config_default_def pipe_defs aggregator_config_default_def
        integration_event_def short parsed)
      (simp add: written plain OBSERVED_BY_AGENT_def SUBMITTED_TO_WINDOWS_def shutdown_begin_def shutdown_end_def pipeline_close_def
        drop_handle_def agg_shutdown_def renders_wait_def Let_def)
qed
end
