(* ===== verification/Spec2Isabelle.thy ===== *)
theory Spec2Isabelle
  imports Windows_Process Console_Head Host_Guarantees Config_Tests Integration_Test
begin

text \<open>
  This development models the desktop notification agent of the repository, in its Rust implementation under
  \<^verbatim>\<open>src/rust/\<close>: the library crate \<^verbatim>\<open>notify-agent-core\<close> and the two programs built on it, the Windows
  head \<^verbatim>\<open>notify-agent-windows\<close> and the development head \<^verbatim>\<open>notify-agent-console\<close>.

  \<^bold>\<open>How the program works.\<close> The host signs the user in, connects to a NATS server and subscribes to the
  user's subject. Each message gets an arrival stamp and is put into a bounded queue; a message that finds it full
  is dropped and counted. A pool of workers takes messages from the queue. A worker parses and validates a message, asks the
  duplicate cache, publishes an acknowledgement that the event was observed, and hands the event to the aggregator. The aggregator
  renders critical events at once and collects the others in buckets, one for each aggregation key and priority; a bucket is
  flushed as one toast when its timer runs out. The render sink shows a toast and then publishes, for every event in it, an
  acknowledgement that it was submitted. Shutdown stops the subscription, lets the workers empty the queue, flushes
  every bucket and waits for the renders for a limited time.

  \<^bold>\<open>Theories.\<close>

  \<^item> \<open>Prelude\<close>: strings as lists of Unicode scalar values, the string, list, iterator and time operations of the Rust standard library
    that the sources use, and \<^verbatim>\<open>HashMap\<close> as an association list with the interface \<open>hash_map\<close>.
  \<^item> \<open>Model\<close> (\<^verbatim>\<open>model.rs\<close>, \<^verbatim>\<open>ack.rs\<close>): the normalized event and the acknowledgement, with its wire form.
  \<^item> \<open>Dedup\<close> (\<^verbatim>\<open>dedup.rs\<close>): \<open>dedup_cache\<close> with the map of expiries and the queue of insertions; \<open>try_add\<close>
    is \<^verbatim>\<open>DedupCache::try_add\<close> with the value its clock gives as an argument. The invariant and the absence of false drops hold for any
    clock; with a clock that does not run backwards the cache refines a bounded list of unexpired entries. The interface \<open>dedup_contract\<close>
    gives what a client may conclude about a sequence of calls.
  \<^item> \<open>Action_Url\<close> (\<^verbatim>\<open>action_url.rs\<close>): the URL policy as an equivalence.
  \<^item> \<open>Serde\<close>: JSON trees and what a derived \<^verbatim>\<open>Deserialize\<close> stands for, with the interface \<open>struct_reader\<close>: unknown members are skipped, the
    order of members does not matter, a repeated known member and anything but an object is refused. Every derived reader is an
    interpretation of it, in the theory of its struct.
  \<^item> \<open>Wire\<close> (the structs of \<^verbatim>\<open>parser.rs\<close>): the wire records with their readers, a producer's encoder, and that the readers get back
    what it wrote, whatever unknown members are added.
  \<^item> \<open>Event_Parser\<close> (\<^verbatim>\<open>parser.rs\<close>): \<open>parse_event\<close> with its limits, \<open>depth_exceeds\<close>, \<open>normalize\<close> and the error texts. Which payloads are accepted, which error is reported, the well-formedness of what is accepted, and the
    scan of the raw bytes against an inductive definition of nesting.
  \<^item> \<open>Toast\<close> (\<^verbatim>\<open>grapheme.rs\<close>, \<^verbatim>\<open>toast.rs\<close>): truncation at grapheme boundaries, single and batch toasts.
  \<^item> \<open>Aggregator\<close> (\<^verbatim>\<open>aggregator.rs\<close>): the buckets, the timer tasks and the spawned renders as one state; \<open>agg_add\<close>,
    \<open>agg_flush\<close>, \<open>timer_wake\<close>, \<open>timer_fire\<close> and \<open>agg_shutdown\<close> as operations on it, \<open>agg_op\<close> and \<open>agg_run\<close> for
    any interleaving of them. The invariant, the contents of a bucket as a function of what was offered, the conservation of events (the
    interface \<open>event_store\<close>), the refinement of a specification that is a function of the calls alone, collects everything offered and emits
    ordered batches, and that buckets drain in time.
  \<^item> \<open>Pipeline\<close> (\<^verbatim>\<open>pipeline.rs\<close>): \<open>process\<close>, \<open>publish_ack\<close>, \<open>acking_render\<close> and \<open>try_enqueue\<close> as functions, and the whole
    agent as the relation \<open>agent_step\<close> in which workers, producers, timers, renders and the clock interleave between
    the code's locks and awaits. Bounded memory, the order of acknowledgements, draining at shutdown, that an event is handed to the aggregator
    only after the publication of its acknowledgement has ended, and that \<open>process\<close> is what a worker's atomic steps amount to.
  \<^item> \<open>Agent_Trace\<close>: the same steps with labels that say what happens to an event, and the books kept from a trace. They balance: an
    event is passed on by a stage only if the stage before passed it on, the acknowledgements are those of the trace, and when the agent is at
    rest every queued message is accounted for. Here the contract of the duplicate cache is lifted to the racing
    workers, and the losses of the aggregator are shown to be its policy.
  \<^item> \<open>Toast_Xml\<close> (\<^verbatim>\<open>toast_xml.rs\<close>): the toast document, and a reader of such documents that gets back exactly the toast's
    contents; the file URI of an image, with its decoder.
  \<^item> \<open>Image_Cache\<close> (\<^verbatim>\<open>image_cache.rs\<close>): download, rename, eviction and timeout on a directory; every state in which a
    timeout may leave the directory is covered, and eviction with removals that fail.
  \<^item> \<open>Identity\<close> (\<^verbatim>\<open>identity.rs\<close>): the environment identity, the device-code sign-in and the token refresh, with
    the interface \<open>identity_provider\<close>. How a sign-in can end: it returns unless a request or the toast is never answered, for the requests have no timeout of
    their own.
  \<^item> \<open>Nats_Auth\<close> (\<^verbatim>\<open>nats_auth.rs\<close>): credentials file, external auth service, the check of their configuration, and the
    run of all connection attempts over the life of the process, each with the refresh token most recently handed out.
  \<^item> \<open>Host\<close> (\<^verbatim>\<open>host.rs\<close>): start-up, the subscribe loop \<open>on_message\<close> and the two phases of shutdown.
  \<^item> \<open>Host_Trace\<close>: runs of a started host, in which messages, the agent's labelled steps and the shutdown interleave. The books of the
    agent become statements about messages: they are worked off in the order of arrival, every one has exactly one fate, and the
    shutdown can always be completed.
  \<^item> \<open>Host_Guarantees\<close>: what can be relied on from outside of a started host. Acknowledgements agree injectively with the messages sent, a
    deduplication key is shown at most once in the cache's time, and a critical message is never lost inside the agent.
  \<^item> \<open>Settings\<close> (\<^verbatim>\<open>settings.rs\<close>): loading and resolving settings. \<open>Windows_Identity\<close> (\<^verbatim>\<open>windows_identity.rs\<close>): the user id from the Windows
    user name (the interface \<open>subject_safe_identity\<close> extends \<open>identity_provider\<close>).
  \<^item> \<open>Tray\<close> (\<^verbatim>\<open>tray.rs\<close>): creation of the tray window, its message handler and pump, and the watcher that ends the process.
  \<^item> \<open>Windows_Head\<close>, \<open>Windows_Process\<close> (\<^verbatim>\<open>main.rs\<close>): the renderer, the device id, start-up with the precedence of all settings and the panics that are left, and life of the agent; and the process around
    it, with its single instance, log sinks, agent thread and end.
  \<^item> \<open>Console_Head\<close> (\<^verbatim>\<open>notify-agent-console\<close>): the printing renderer, its start-up and \<^verbatim>\<open>main\<close>.
  \<^item> \<open>Core_Tests\<close>, \<open>Agent_Tests\<close>, \<open>Config_Tests\<close>, \<open>Render_Tests\<close>, \<open>Parser_Tests\<close>: the unit tests that the sources keep beside the code, as
    executable predicates under their own names, and that the model passes them; \<open>Integration_Test\<close>: the same for the end-to-end test
    against a NATS server. The test of racing duplicates is shown for every schedule. A test
    that depends on a library holds for each library that answers the test's inputs as documented.

  This theory adds what spans them: a Windows agent from the settings to the states it can reach.

  \<^bold>\<open>Conventions.\<close> A panic is \<open>None\<close>, an error returned as a value is \<open>Inl\<close>. Counters and stamps of type \<^verbatim>\<open>u64\<close> are 64-bit words.
  Instants and durations are natural numbers of nanoseconds; the sum of an instant and a
  duration is assumed not to exceed what \<^verbatim>\<open>Instant\<close> can hold, except for the deadline of a sign-in, whose length the server chooses: its overflow is a
  panic. A timer's deadline is a lower bound of the time at which it runs, as are the durations of the other waits. \<^verbatim>\<open>HashMap\<close> iteration has an arbitrary order, so operations that iterate
  over keys take the order as an argument and the theorems hold for every one. A task that is awaited with a
  timeout is a pair of a result and an optional duration. A request or call that may never be answered is an optional duration as well, and so is the
  drop of the log guard. The sign-in, whose requests have no timeout, is a \<^theory_text>\<open>partial_function\<close> into \<open>option\<close>, \<open>None\<close> if it never returns; all other functions of the
  model terminate. No fuel is used.

  \<^bold>\<open>Parameters.\<close> Code outside of the repository is an argument of the definitions that call it: the reader of JSON text, RFC 3339 times, the URL parser,
  grapheme segmentation, the Unicode case tables, SHA-256, base64, HTTP, the NATS client, key pairs, the file system, the registry, the
  toast platform and the window system. Where a theorem relies on such code, it names the assumption as a hypothesis
  (\<open>grapheme_laws\<close>, \<open>sha256_length\<close> and the like) and its witness instantiates the parameter.

  \<^bold>\<open>Not modelled.\<close> The C# and Go agents of the repository; the helpers of the tests that open sockets, create temporary files and clear
  environment variables; the module declarations of the crates; the build script, which embeds an icon; the texts of
  log lines, except where a value depends on them. A runtime that cannot be built and a log file that cannot be opened are panics of libraries
  and appear as such.
\<close>

section \<open>From the settings to the running agent\<close>

lemma start_plan_identity:
  assumes "start_plan vars st cache_client dev token_client auth_built = Some (Inr su)"
    and "resolved_opt (getenv_of vars) ''NOTIFY_AAD_CLIENT_ID'' (s_aad_client_id st) = None"
  shows "su_config su = settings_agent_config (getenv_of vars) st \<and> (\<exists>d. su_identity su = Windows_Username d \<and> dev = Inr d)"
  using start_plan_planned [OF assms(1)] assms(2) by (auto simp: planned_def)

lemma windows_device:
  "windows_identity u digest debug decode answer d = Inr who \<Longrightarrow> id_device_id who = d"
  by (auto simp: windows_identity_def split: sum.splits)

lemma running_agent:
  assumes "host_start cfg identity auth plain connect subscribe now = Some (Inr h)" and "reachable E (agent h) s"
  shows "length (queue s) \<le> 500 \<and> dedup_len (dedup s) \<le> 10000 \<and> hm_len (buckets (aggr s)) \<le> 100 \<and> length (pool s) = 2 \<and>
    acks_ordered (log s) \<and> list_all (\<lambda>p. ack_device_id (fst p) = device_id (agent h)) (log s)"
proof -
  note started = host_start_inv [OF assms(1)]
  have "agent_inv s" using reachable_inv [OF assms(2)] started by blast
  with started reachable_frame [OF assms(2)] reachable_limits [OF assms(2)] show ?thesis
    by (auto simp: agent_inv_def dedup_inv_def agg_inv_but_def accounts_ok_def list_all_iff)
qed

text \<open>
  Property C13. The Windows agent as a whole: if it starts without an AAD client, it has
  subscribed to the subject template of its settings, whatever that is, with the placeholder replaced by a non-empty id of safe characters in each of the
  template's tokens: the user name adds no token and no wildcard, and the default template gives exactly four tokens, the third of which is the id. In every state
  it can reach from then on, the queue, the duplicate cache and the buckets are within the limits of
  the default configuration, two workers exist, no event is acknowledged as submitted more often than as observed at any point,
  and all acknowledgements carry the device id that start-up obtained.
\<close>

theorem windows_agent_end_to_end:
  assumes "start_host vars st cache_client dev token_client auth_built sign_in (windows_identity u digest debug decode answer)
      callback_options load_creds plain connect subscribe now = Some (Inr h)"
    and "resolved_opt (getenv_of vars) ''NOTIFY_AAD_CLIENT_ID'' (s_aad_client_id st) = None"
    and "reachable E (agent h) s"
  shows "(\<exists>uid. list_all safe_char uid \<and> uid \<noteq> [] \<and>
      split_char 46 (subject h) = map (replace_str (str ''{0}'') uid)
        (split_char 46 (subject_template (settings_agent_config (getenv_of vars) st))) \<and>
      (subject_template (settings_agent_config (getenv_of vars) st) = str ''notify.user.{0}.desktop'' \<longrightarrow>
        split_char 46 (subject h) = [str ''notify'', str ''user'', uid, str ''desktop''])) \<and>
    subscribe (subject h) = Inr () \<and>
    length (queue s) \<le> 500 \<and> dedup_len (dedup s) \<le> 10000 \<and> hm_len (buckets (aggr s)) \<le> 100 \<and> length (pool s) = 2 \<and>
    acks_with SUBMITTED_TO_WINDOWS (take k (log s)) \<subseteq># acks_with OBSERVED_BY_AGENT (take k (log s)) \<and>
    list_all (\<lambda>p. dev = Inr (ack_device_id (fst p))) (log s)"
proof -
  let ?cfg = "settings_agent_config (getenv_of vars) st"
  obtain plan where plan: "start_plan vars st cache_client dev token_client auth_built = Some plan"
    using assms(1) by (auto simp: start_host_def bind_eq_Some_conv)
  with assms(1) obtain su where su: "start_plan vars st cache_client dev token_client auth_built = Some (Inr su)"
    by (cases plan) (auto simp: start_host_def)
  from start_plan_identity [OF this assms(2)] obtain d where
    d: "su_config su = ?cfg" "su_identity su = Windows_Username d" "dev = Inr d" by auto
  let ?id = "windows_identity u digest debug decode answer d"
  obtain auth where h: "host_start ?cfg ?id auth plain connect subscribe now = Some (Inr h)"
    using assms(1) su d by (auto simp: start_host_def)
  from host_start_started [OF h] obtain who where who: "?id = Inr who" "device_id (agent h) = id_device_id who"
    "subject h = replace_str (str ''{0}'') (id_user_id who) (subject_template ?cfg)" by auto
  note id = windows_id.user_safe [of "(u, digest, debug, decode, answer, d)", simplified, OF who(1)]
    windows_id.subject_tokens [of "(u, digest, debug, decode, answer, d)", simplified, OF who(1)]
    windows_id.user_not_blank [of "(u, digest, debug, decode, answer, d)", simplified, OF who(1)]
  have uid: "id_user_id who \<noteq> []" using id(3) by (auto simp: trim_Nil)
  have "46 \<notin> set (id_user_id who)" using id(1) by (auto simp: list_all_iff safe_char_def)
  then have tokens: "split_char 46 (subject h) = map (replace_str (str ''{0}'') (id_user_id who)) (split_char 46 (subject_template ?cfg))"
    unfolding who(3) by (intro split_replace) (simp_all add: str_def)
  have "subscribe (subject h) = Inr ()"
    using host_start_result [of ?cfg ?id auth plain connect subscribe now] h who by auto
  then show ?thesis
    using id(1,2) uid tokens running_agent [OF h assms(3)] who windows_device [OF who(1)] d(3)
    by (auto simp: acks_ordered_def list_all_iff)
qed

theorem windows_agent_end_to_end_witness:
  "\<exists>h. start_host example_vars settings_default True (Inr (str ''d-1'')) True (Inr ()) (\<lambda>_. Inl [])
       (windows_identity ascii_ucd sum_digest (\<lambda>s. s) (\<lambda>_. str ''alice'') (Inr ([] :: unit list, 0)))
       (\<lambda>_ _. ()) (\<lambda>_. Inr ()) () (\<lambda>_ _. Inr ()) (\<lambda>_. Inr ()) 0 = Some (Inr h) \<and>
     length (split_char 46 (subject h)) = 4 \<and> length (queue (agent h)) \<le> 500"
proof -
  let ?id = "windows_identity ascii_ucd sum_digest (\<lambda>s. s) (\<lambda>_. str ''alice'') (Inr ([] :: unit list, 0))"
  let ?cfg = "settings_agent_config (getenv_of example_vars) settings_default"
  let ?start = "start_host example_vars settings_default True (Inr (str ''d-1'')) True (Inr ()) (\<lambda>_. Inl []) ?id
    (\<lambda>_ _. ()) (\<lambda>_. Inr ()) () (\<lambda>_ _. Inr ()) (\<lambda>_. Inr ()) 0"
  have none: "opt_url example_vars settings_default = None" "opt_client example_vars settings_default = None"
    and creds: "opt_creds example_vars settings_default = Some (str ''f'')"
    and template: "subject_template ?cfg = str ''notify.user.{0}.desktop''" by code_simp+
  have "normalize_username ascii_ucd (str ''alice'') \<noteq> []" by code_simp
  then obtain who where who: "?id (str ''d-1'') = Inr who"
    by (auto simp: windows_identity_def current_windows_username_def user_id_from_username_def Let_def)
  obtain images where "renderer_new True example_vars = Some (Inr images)"
    by (simp add: renderer_new_def example_vars_def image_cache_new_def with_options_def)
  then have "?start = host_start ?cfg (Inr who) (Some (Inr ())) () (\<lambda>_ _. Inr ()) (\<lambda>_. Inr ()) 0"
    by (simp add: start_host_def start_plan_def none creds who validate_auth_service_config_def creds_connect_options_def Let_def)
  with host_start_result [of ?cfg "Inr who" "Some (Inr ())" "()" "\<lambda>_ _. Inr ()" "\<lambda>_. Inr ()" 0]
  obtain h where h: "?start = Some (Inr h)" by auto
  from windows_agent_end_to_end [OF h none(2) reachable.start [of example_env], of 0] h template
  show ?thesis by (auto simp: list_all_iff)
qed

end
